(* ===== verification/Prelude.thy ===== *)
theory Prelude
  imports Complex_Main "HOL-Library.Word" "HOL-Library.Char_ord" "HOL-Library.List_Lexorder"
    "HOL-Library.Product_Lexorder" "HOL-Library.Multiset"
begin

text \<open>
  Shared vocabulary of the development: the parts of the Rust language and of its standard library
  that several components use, with the lemmas the component proofs rest on.

  \<^item> \<open>Result\<close> is the sum type \<open>'e + 'a\<close> (\<open>Inl\<close> the error); \<open>res_bind\<close> is the \<open>?\<close> operator and
    \<open>collect_results\<close> is \<open>Iterator::collect\<close> into a \<open>Result\<close>.
  \<^item> A stateful fallible operation has the type \<open>'s \<Rightarrow> ('e + 'a) \<times> 's\<close>: a Rust method that returns
    an error keeps the mutations made before the error, so the state is returned on both branches.
    \<open>st_bind\<close> sequences such operations.
  \<^item> \<open>Vec\<close> is a list; \<open>vec_get\<close> and \<open>vec_resize\<close> are the methods of the same name.
  \<^item> \<open>BTreeMap\<close> is an association list in increasing key order (\<open>bt_get\<close>, \<open>bt_insert\<close>, \<open>bt_remove\<close>,
    \<open>bt_range_from\<close>), and \<open>bt_wf\<close> is its invariant.
\<close>

named_theorems rust_std
  \<comment> \<open>unfolding rules for the standard-library operations\<close>

section \<open>Results\<close>

type_synonym ('e, 'a) result = "'e + 'a"
type_synonym ('s, 'e, 'a) st_op = "'s \<Rightarrow> ('e + 'a) \<times> 's"

fun res_bind :: "'e + 'a \<Rightarrow> ('a \<Rightarrow> 'e + 'b) \<Rightarrow> 'e + 'b" where
  "res_bind (Inl e) k = Inl e"
| "res_bind (Inr a) k = k a"

fun is_ok :: "'e + 'a \<Rightarrow> bool" where
  "is_ok (Inl e) = False"
| "is_ok (Inr a) = True"

fun result_map :: "('a \<Rightarrow> 'b) \<Rightarrow> 'e + 'a \<Rightarrow> 'e + 'b" where
  "result_map f (Inl e) = Inl e"
| "result_map f (Inr a) = Inr (f a)"

fun ok_or :: "'e \<Rightarrow> 'a option \<Rightarrow> 'e + 'a" where
  "ok_or e None = Inl e"
| "ok_or e (Some a) = Inr a"

fun collect_results :: "('e + 'a) list \<Rightarrow> 'e + 'a list" where
  "collect_results [] = Inr []"
| "collect_results (r # rs) =
     (case r of Inl e \<Rightarrow> Inl e
      | Inr a \<Rightarrow> (case collect_results rs of Inl e \<Rightarrow> Inl e | Inr as \<Rightarrow> Inr (a # as)))"

definition st_bind :: "('s, 'e, 'a) st_op \<Rightarrow> ('a \<Rightarrow> ('s, 'e, 'b) st_op) \<Rightarrow> ('s, 'e, 'b) st_op" where
  "st_bind m k s = (case m s of (Inl e, s') \<Rightarrow> (Inl e, s') | (Inr a, s') \<Rightarrow> k a s')"

lemma res_bind_Inr_iff: "res_bind r k = Inr b \<longleftrightarrow> (\<exists>a. r = Inr a \<and> k a = Inr b)"
  by (cases r) auto

lemma is_ok_iff: "is_ok r \<longleftrightarrow> (\<exists>a. r = Inr a)"
  by (cases r) auto

lemma ok_or_Inr_iff [simp]: "ok_or e x = Inr a \<longleftrightarrow> x = Some a"
  by (cases x) auto

lemma collect_results_map_Inr [simp]: "collect_results (map (\<lambda>x. Inr (f x)) xs) = Inr (map f xs)"
  by (induction xs) auto

lemma collect_results_Inr_iff:
  "collect_results rs = Inr as \<longleftrightarrow> rs = map Inr as"
  by (induction rs arbitrary: as) (auto split: sum.splits simp: Cons_eq_map_conv)

lemma st_bind_Inr:
  "st_bind m k s = (Inr b, s'') \<longleftrightarrow> (\<exists>a s'. m s = (Inr a, s') \<and> k a s' = (Inr b, s''))"
  by (auto simp: st_bind_def split: prod.splits sum.splits)

text \<open>
  A fallible computation that may also panic: \<open>None\<close> is the panic. \<open>pbind\<close> is the \<open>?\<close> operator on it.
\<close>

definition pbind :: "('e + 'a) option \<Rightarrow> ('a \<Rightarrow> ('e + 'b) option) \<Rightarrow> ('e + 'b) option" where
  "pbind m k = (case m of None \<Rightarrow> None | Some (Inl e) \<Rightarrow> Some (Inl e) | Some (Inr a) \<Rightarrow> k a)"

lemma pbind_simps [simp]:
  "pbind None k = None" "pbind (Some (Inl e)) k = Some (Inl e)" "pbind (Some (Inr a)) k = k a"
  by (simp_all add: pbind_def)

text \<open>An operation with state that may fail and may panic.\<close>

type_synonym ('s, 'e, 'a) pst_op = "'s \<Rightarrow> (('e + 'a) \<times> 's) option"

definition pst_bind :: "('s, 'e, 'a) pst_op \<Rightarrow> ('a \<Rightarrow> ('s, 'e, 'b) pst_op) \<Rightarrow> ('s, 'e, 'b) pst_op" where
  "pst_bind m k s =
     (case m s of None \<Rightarrow> None | Some (Inl e, s') \<Rightarrow> Some (Inl e, s') | Some (Inr a, s') \<Rightarrow> k a s')"

lemma pst_bind_Inr:
  "pst_bind m k s = Some (Inr b, s') \<longleftrightarrow> (\<exists>a s1. m s = Some (Inr a, s1) \<and> k a s1 = Some (Inr b, s'))"
  by (auto simp: pst_bind_def split: option.splits sum.splits)

text \<open>A loop whose body may panic: \<open>None\<close> is a panic.\<close>

fun fold_opt :: "('a \<Rightarrow> 's \<Rightarrow> 's option) \<Rightarrow> 'a list \<Rightarrow> 's \<Rightarrow> 's option" where
  "fold_opt f [] s = Some s"
| "fold_opt f (x # xs) s = (case f x s of None \<Rightarrow> None | Some s' \<Rightarrow> fold_opt f xs s')"

lemma fold_opt_append:
  "fold_opt f (xs @ ys) s = (case fold_opt f xs s of None \<Rightarrow> None | Some s' \<Rightarrow> fold_opt f ys s')"
  by (induction xs arbitrary: s) (auto split: option.splits)

text \<open>A loop invariant: if the body keeps it and does not panic, the loop ends with it.\<close>

lemma fold_opt_inv:
  assumes "I [] s"
    and "\<And>ys0 x s. \<lbrakk>\<exists>rest. xs = ys0 @ x # rest; I ys0 s\<rbrakk> \<Longrightarrow> \<exists>s'. f x s = Some s' \<and> I (ys0 @ [x]) s'"
  shows "\<exists>s'. fold_opt f xs s = Some s' \<and> I xs s'"
proof -
  have "\<exists>s'. fold_opt f ys s = Some s' \<and> I ys s'" if "\<exists>rest. xs = ys @ rest" for ys
    using that
  proof (induction ys rule: rev_induct)
    case (snoc x ys)
    then obtain s1 where s1: "fold_opt f ys s = Some s1" "I ys s1"
      by auto
    moreover have "\<exists>rest. xs = ys @ x # rest"
      using snoc.prems by auto
    ultimately show ?case
      using assms(2) [of ys x s1] by (auto simp: fold_opt_append)
  qed (simp add: assms(1))
  then show ?thesis
    by auto
qed

section \<open>Vectors\<close>

definition vec_get :: "'a list \<Rightarrow> nat \<Rightarrow> 'a option" where
  "vec_get xs i = (if i < length xs then Some (xs ! i) else None)"

definition vec_resize :: "nat \<Rightarrow> 'a \<Rightarrow> 'a list \<Rightarrow> 'a list" where
  "vec_resize n x xs = (if n \<le> length xs then take n xs else xs @ replicate (n - length xs) x)"

lemma vec_get_eq_Some [simp]: "vec_get xs i = Some x \<longleftrightarrow> i < length xs \<and> xs ! i = x"
  by (auto simp: vec_get_def)

lemma vec_get_eq_None [simp]: "vec_get xs i = None \<longleftrightarrow> length xs \<le> i"
  by (auto simp: vec_get_def)

lemma length_vec_resize [simp]: "length (vec_resize n x xs) = n"
  by (auto simp: vec_resize_def)

lemma nth_vec_resize:
  "i < n \<Longrightarrow> vec_resize n x xs ! i = (if i < length xs then xs ! i else x)"
  by (auto simp: vec_resize_def nth_append)

lemma vec_get_update:
  "vec_get (xs[i := v]) j = (if i = j \<and> j < length xs then Some v else vec_get xs j)"
  by (auto simp: vec_get_def)

text \<open>The idiom \<open>if v.len() <= i { v.resize(i + 1, x) }\<close>.\<close>

definition vec_grow :: "'a \<Rightarrow> nat \<Rightarrow> 'a list \<Rightarrow> 'a list" where
  "vec_grow x i xs = (if length xs \<le> i then vec_resize (Suc i) x xs else xs)"

lemma length_vec_grow [simp]: "length (vec_grow x i xs) = max (length xs) (Suc i)"
  by (auto simp: vec_grow_def)

lemma nth_vec_grow:
  "j < max (length xs) (Suc i) \<Longrightarrow> vec_grow x i xs ! j = (if j < length xs then xs ! j else x)"
  by (auto simp: vec_grow_def nth_vec_resize)

lemma vec_get_grow:
  "vec_get (vec_grow x i xs) j = (if length xs \<le> j \<and> j \<le> i then Some x else vec_get xs j)"
  by (auto simp: vec_get_def nth_vec_grow)

lemma filter_upt_nth: "map ((!) xs) (filter (\<lambda>i. P (xs ! i)) [0..<length xs]) = filter P xs"
proof -
  have "filter P (map ((!) xs) [0..<length xs]) = map ((!) xs) (filter (P \<circ> (!) xs) [0..<length xs])"
    by (rule filter_map)
  then show ?thesis by (simp add: map_nth comp_def)
qed

lemma in_set_enumerateD: "(i, v) \<in> set (enumerate n xs) \<Longrightarrow> v \<in> set xs"
  unfolding enumerate_eq_zip by (rule set_zip_rightD)

lemma count_list_distinct: "distinct xs \<Longrightarrow> count_list xs x = (if x \<in> set xs then 1 else 0)"
  by (induction xs) auto

section \<open>Machine integers\<close>

text \<open>
  Addition and subtraction of \<open>u64\<close> and \<open>usize\<close> values in a release build for a 64-bit target, on values below
  \<open>2 ^ 64\<close>.
\<close>

definition usize_add :: "nat \<Rightarrow> nat \<Rightarrow> nat" where
  "usize_add a b = (a + b) mod 2 ^ 64"

definition usize_sub :: "nat \<Rightarrow> nat \<Rightarrow> nat" where
  "usize_sub a b = (a + 2 ^ 64 - b) mod 2 ^ 64"

definition usize_mul :: "nat \<Rightarrow> nat \<Rightarrow> nat" where
  "usize_mul a b = (a * b) mod 2 ^ 64"

text \<open>The cast of an integer to \<open>i64\<close> or \<open>isize\<close>.\<close>

definition i64_wrap :: "int \<Rightarrow> int" where
  "i64_wrap x = (x + 2 ^ 63) mod 2 ^ 64 - 2 ^ 63"

lemma usize_add_id [simp]: "a + b < 2 ^ 64 \<Longrightarrow> usize_add a b = a + b"
  by (simp add: usize_add_def)

lemma usize_mul_id [simp]: "a * b < 2 ^ 64 \<Longrightarrow> usize_mul a b = a * b"
  by (simp add: usize_mul_def)

lemma usize_sub_le [simp]: "\<lbrakk>b \<le> a; a < 2 ^ 64\<rbrakk> \<Longrightarrow> usize_sub a b = a - b"
proof -
  assume le: "b \<le> a" "a < 2 ^ 64"
  then have "a + 2 ^ 64 - b = (a - b) + 2 ^ 64"
    by simp
  then show ?thesis
    unfolding usize_sub_def using le by (simp only: mod_add_self2) simp
qed

lemma i64_wrap_id [simp]: "\<lbrakk>- (2 ^ 63) \<le> x; x < 2 ^ 63\<rbrakk> \<Longrightarrow> i64_wrap x = x"
  by (simp add: i64_wrap_def)

section \<open>Ordered maps\<close>

type_synonym ('k, 'v) btree = "('k \<times> 'v) list"

abbreviation bt_get :: "('k, 'v) btree \<Rightarrow> 'k \<Rightarrow> 'v option" where
  "bt_get \<equiv> map_of"

fun bt_insert :: "'k::linorder \<Rightarrow> 'v \<Rightarrow> ('k, 'v) btree \<Rightarrow> ('k, 'v) btree" where
  "bt_insert k v [] = [(k, v)]"
| "bt_insert k v (e # m) =
     (if k < fst e then (k, v) # e # m
      else if k = fst e then (k, v) # m
      else e # bt_insert k v m)"

definition bt_remove :: "'k \<Rightarrow> ('k, 'v) btree \<Rightarrow> ('k, 'v) btree" where
  "bt_remove k m = filter (\<lambda>e. fst e \<noteq> k) m"

definition bt_range_from :: "'k::linorder \<Rightarrow> ('k, 'v) btree \<Rightarrow> ('k, 'v) btree" where
  "bt_range_from k m = filter (\<lambda>e. k \<le> fst e) m"

definition bt_wf :: "('k::linorder, 'v) btree \<Rightarrow> bool" where
  "bt_wf m \<longleftrightarrow> sorted_wrt (<) (map fst m)"

lemma bt_get_insert: "bt_get (bt_insert k v m) = (bt_get m)(k \<mapsto> v)"
  by (induction m) (auto simp: fun_eq_iff)

lemma bt_get_remove: "bt_get (bt_remove k m) = (bt_get m)(k := None)"
  by (induction m) (auto simp: bt_remove_def fun_eq_iff)

lemma keys_bt_insert [simp]: "fst ` set (bt_insert k v m) = insert k (fst ` set m)"
  by (induction m) auto

lemma set_bt_insert: "bt_wf m \<Longrightarrow> set (bt_insert k v m) = insert (k, v) {e \<in> set m. fst e \<noteq> k}"
  by (induction m) (auto simp: bt_wf_def)

lemma set_bt_remove [simp]: "set (bt_remove k m) = {e \<in> set m. fst e \<noteq> k}"
  by (auto simp: bt_remove_def)

lemma bt_wf_Nil [simp, intro]: "bt_wf []"
  by (simp add: bt_wf_def)

lemma bt_wf_insert [simp, intro]: "bt_wf m \<Longrightarrow> bt_wf (bt_insert k v m)"
proof (induction m)
  case (Cons e m)
  then have IH: "bt_wf (bt_insert k v m)" and e: "\<forall>k' \<in> fst ` set m. fst e < k'"
    by (auto simp: bt_wf_def)
  show ?case
  proof (cases "k < fst e \<or> k = fst e")
    case True
    then show ?thesis using Cons.prems e by (force simp: bt_wf_def)
  next
    case False
    then have "fst e < k" by auto
    then have "\<forall>k' \<in> fst ` set (bt_insert k v m). fst e < k'"
      using e by simp
    then show ?thesis using IH False by (simp add: bt_wf_def)
  qed
qed (simp add: bt_wf_def)

lemma bt_wf_filter [simp, intro]: "bt_wf m \<Longrightarrow> bt_wf (filter P m)"
  by (induction m) (auto simp: bt_wf_def)

lemma bt_wf_remove [simp, intro]: "bt_wf m \<Longrightarrow> bt_wf (bt_remove k m)"
  by (simp add: bt_remove_def)

lemma bt_wf_distinct: "bt_wf m \<Longrightarrow> distinct (map fst m)"
  by (auto simp: bt_wf_def strict_sorted_iff)

lemma bt_get_iff: "bt_wf m \<Longrightarrow> bt_get m k = Some v \<longleftrightarrow> (k, v) \<in> set m"
  by (simp add: bt_wf_distinct)

lemma bt_range_from_dropWhile:
  "bt_wf m \<Longrightarrow> bt_range_from k m = dropWhile (\<lambda>e. fst e < k) m"
proof (induction m)
  case (Cons e m)
  then have "\<forall>e' \<in> set m. fst e < fst e'" by (simp add: bt_wf_def)
  then have "\<not> fst e < k \<Longrightarrow> filter (\<lambda>e. k \<le> fst e) m = m"
    by (fastforce simp: filter_id_conv)
  with Cons show ?case by (auto simp: bt_range_from_def bt_wf_def)
qed (simp add: bt_range_from_def)

lemma length_bt_remove:
  "bt_wf m \<Longrightarrow> bt_get m k = Some v \<Longrightarrow> Suc (length (bt_remove k m)) = length m"
proof (induction m)
  case (Cons e m)
  then have wf: "bt_wf m" and lt: "\<forall>e' \<in> set m. fst e < fst e'" by (auto simp: bt_wf_def)
  show ?case
  proof (cases "fst e = k")
    case True
    then have "filter (\<lambda>e. fst e \<noteq> k) m = m" using lt by (fastforce simp: filter_id_conv)
    then show ?thesis using True by (simp add: bt_remove_def)
  next
    case False
    then show ?thesis using Cons wf by (cases e) (auto simp: bt_remove_def)
  qed
qed simp

lemma length_bt_insert:
  "bt_wf m \<Longrightarrow> length (bt_insert k v m) = (if k \<in> dom (bt_get m) then length m else Suc (length m))"
proof (induction m)
  case (Cons e m)
  then have wf: "bt_wf m" and lt: "\<forall>e' \<in> set m. fst e < fst e'" by (auto simp: bt_wf_def)
  have "k < fst e \<Longrightarrow> bt_get m k = None"
    using lt by (force simp: map_of_eq_None_iff)
  then show ?case using Cons.IH wf by (cases e) (auto simp: domIff)
qed (simp add: domIff)

section \<open>The map interface\<close>

text \<open>
  What the clients of a key-value container rely on: a lookup after an insert or a removal, and an
  invariant that both keep. The ordered map of the standard library is its model instance.
\<close>

locale map_container =
  fixes get :: "'m \<Rightarrow> 'k \<Rightarrow> 'v option"
    and put :: "'k \<Rightarrow> 'v \<Rightarrow> 'm \<Rightarrow> 'm"
    and del :: "'k \<Rightarrow> 'm \<Rightarrow> 'm"
    and inv :: "'m \<Rightarrow> bool"
  assumes get_put: "inv m \<Longrightarrow> get (put k v m) j = (if j = k then Some v else get m j)"
    and get_del: "inv m \<Longrightarrow> get (del k m) j = (if j = k then None else get m j)"
    and inv_put: "inv m \<Longrightarrow> inv (put k v m)"
    and inv_del: "inv m \<Longrightarrow> inv (del k m)"
begin

lemma get_put_same: "inv m \<Longrightarrow> get (put k v m) k = Some v"
  by (simp add: get_put)

lemma get_rename:
  "inv m \<Longrightarrow> get (put k' v (del k m)) j = (if j = k' then Some v else if j = k then None else get m j)"
  by (simp add: get_put get_del inv_del)

lemma get_put_fold_other:
  "inv m \<Longrightarrow> j \<notin> fst ` set kvs \<Longrightarrow> get (fold (\<lambda>(k, v). put k v) kvs m) j = get m j"
  by (induction kvs arbitrary: m) (auto simp: get_put inv_put)

end

interpretation bt: map_container bt_get bt_insert bt_remove bt_wf
  by unfold_locales (auto simp: bt_get_insert bt_get_remove)

end
