(* ===== verification/Shard_Distribution.thy ===== *)
theory Shard_Distribution
  imports Prelude
begin

text \<open>
  The proposal for the placement of a new collection's shards
  (\<open>lib/storage/src/content_manager/shard_distribution.rs\<close>): a min-heap of peers ordered by the
  number of shards they hold and then by peer id; every replica of every shard goes to the top of the
  heap. The heap of the standard library is the list of its elements, \<open>peek_mut\<close> finds the least one
  and reinserts it once it is changed, and \<open>None\<close> is the panic of \<open>unwrap\<close> on an empty heap.

  The main lemma \<open>pick_replicas_round_robin\<close> shows that this heap schedule is the round-robin schedule
  over the peers in increasing order; that replicas of a shard are on different peers and that the
  peers' loads differ by at most one follow from it.
\<close>

section \<open>Definitions\<close>

type_synonym peer_id = nat
type_synonym shard_id = nat

datatype peer_shard_count = PeerShardCount (shard_count: nat) (psc_peer_id: peer_id)

text \<open>The derived order: the counts first, the peer ids to break ties.\<close>

instantiation peer_shard_count :: linorder
begin

definition less_eq_peer_shard_count :: "peer_shard_count \<Rightarrow> peer_shard_count \<Rightarrow> bool" where
  "less_eq_peer_shard_count a b \<longleftrightarrow>
     shard_count a < shard_count b \<or> shard_count a = shard_count b \<and> psc_peer_id a \<le> psc_peer_id b"

definition less_peer_shard_count :: "peer_shard_count \<Rightarrow> peer_shard_count \<Rightarrow> bool" where
  "less_peer_shard_count a b \<longleftrightarrow> a \<le> b \<and> \<not> b \<le> a"

instance
  by standard
    (auto simp: less_eq_peer_shard_count_def less_peer_shard_count_def intro: peer_shard_count.expand)

end

definition new_peer_shard_count :: "peer_id \<Rightarrow> peer_shard_count" where
  "new_peer_shard_count peer = PeerShardCount 0 peer"

definition inc_shard_count :: "peer_shard_count \<Rightarrow> peer_shard_count" where
  "inc_shard_count x = PeerShardCount (Suc (shard_count x)) (psc_peer_id x)"

type_synonym peer_heap = "peer_shard_count list"
type_synonym distribution_proposal = "(shard_id \<times> peer_id list) list"

text \<open>One round of the inner loop: the least loaded peer is read, incremented and put back.\<close>

definition pick_least_loaded :: "peer_heap \<Rightarrow> (peer_id \<times> peer_heap) option" where
  "pick_least_loaded h =
     (if h = [] then None
      else let least = min_list h
           in Some (psc_peer_id least, inc_shard_count least # remove1 least h))"

fun pick_replicas :: "nat \<Rightarrow> peer_heap \<Rightarrow> (peer_id list \<times> peer_heap) option" where
  "pick_replicas 0 h = Some ([], h)"
| "pick_replicas (Suc n) h =
     (case pick_least_loaded h of
        None \<Rightarrow> None
      | Some (p, h') \<Rightarrow> (case pick_replicas n h' of None \<Rightarrow> None | Some (ps, h'') \<Rightarrow> Some (p # ps, h'')))"

fun distribute :: "nat \<Rightarrow> shard_id list \<Rightarrow> peer_heap \<Rightarrow> distribution_proposal option" where
  "distribute n [] h = Some []"
| "distribute n (s # ss) h =
     (case pick_replicas n h of
        None \<Rightarrow> None
      | Some (ps, h') \<Rightarrow> map_option ((#) (s, ps)) (distribute n ss h'))"

definition new_proposal :: "nat \<Rightarrow> nat \<Rightarrow> peer_id list \<Rightarrow> distribution_proposal option" where
  "new_proposal shard_number replication_factor known_peers =
     (let min_heap = map new_peer_shard_count known_peers;
          n_replicas = min replication_factor (length known_peers)
      in distribute n_replicas [0..<shard_number] min_heap)"

definition local_shards_for :: "distribution_proposal \<Rightarrow> peer_id \<Rightarrow> shard_id list" where
  "local_shards_for d peer = map fst (filter (\<lambda>(shard, peers). peer \<in> set peers) d)"

definition remote_shards_for :: "distribution_proposal \<Rightarrow> peer_id \<Rightarrow> distribution_proposal" where
  "remote_shards_for d peer = filter (\<lambda>(shard, peers). peer \<notin> set peers) d"

section \<open>The heap schedule is round robin\<close>

text \<open>
  The heap after a number of picks, up to the order of its elements: with \<open>ps\<close> the sorted peers,
  the first \<open>j\<close> of them hold \<open>Suc c\<close> shards and the others \<open>c\<close>.
\<close>

definition rr_heap :: "peer_id list \<Rightarrow> nat \<Rightarrow> nat \<Rightarrow> peer_heap" where
  "rr_heap ps c j = map (PeerShardCount (Suc c)) (take j ps) @ map (PeerShardCount c) (drop j ps)"

definition rr_at :: "peer_id list \<Rightarrow> nat \<Rightarrow> peer_heap" where
  "rr_at ps t = rr_heap ps (t div length ps) (t mod length ps)"

definition rr_pick :: "peer_id list \<Rightarrow> nat \<Rightarrow> peer_id" where
  "rr_pick ps t = ps ! (t mod length ps)"

lemma rr_heap_full: "rr_heap ps c (length ps) = rr_heap ps (Suc c) 0"
  by (simp add: rr_heap_def)

lemma rr_at_Suc:
  assumes "ps \<noteq> []"
  shows "rr_at ps (Suc t) = rr_heap ps (t div length ps) (Suc (t mod length ps))"
proof (cases "Suc (t mod length ps) = length ps")
  case True
  then have "Suc t mod length ps = 0" "Suc t div length ps = Suc (t div length ps)"
    by (simp_all add: mod_Suc div_Suc)
  then show ?thesis using True rr_heap_full [of ps "t div length ps"] by (simp add: rr_at_def)
next
  case False
  then have "Suc t mod length ps = Suc (t mod length ps)" "Suc t div length ps = t div length ps"
    by (simp_all add: mod_Suc div_Suc)
  then show ?thesis by (simp add: rr_at_def)
qed

lemma rr_heap_split:
  assumes "j < length ps"
  shows "rr_heap ps c j = map (PeerShardCount (Suc c)) (take j ps)
           @ PeerShardCount c (ps ! j) # map (PeerShardCount c) (drop (Suc j) ps)"
  using assms by (simp add: rr_heap_def Cons_nth_drop_Suc flip: list.map)

lemma mset_rr_heap_Suc:
  assumes "j < length ps"
  shows "mset (rr_heap ps c (Suc j)) =
           add_mset (PeerShardCount (Suc c) (ps ! j)) (mset (rr_heap ps c j) - {#PeerShardCount c (ps ! j)#})"
  using assms by (simp add: rr_heap_split, simp add: rr_heap_def take_Suc_conv_app_nth)

lemma Min_rr_heap:
  assumes "j < length ps" "sorted ps"
  shows "Min (set (rr_heap ps c j)) = PeerShardCount c (ps ! j)"
proof (rule Min_eqI)
  show "PeerShardCount c (ps ! j) \<in> set (rr_heap ps c j)"
    using assms(1) by (simp add: rr_heap_split)
next
  fix y assume "y \<in> set (rr_heap ps c j)"
  moreover have "\<forall>p \<in> set (drop j ps). ps ! j \<le> p"
    using assms by (auto simp: in_set_conv_nth sorted_iff_nth_mono)
  ultimately show "PeerShardCount c (ps ! j) \<le> y"
    by (auto simp: rr_heap_def less_eq_peer_shard_count_def)
qed simp

lemma min_list_mset:
  "mset h = mset h' \<Longrightarrow> h \<noteq> [] \<Longrightarrow> min_list h = Min (set h')"
  by (metis min_list_Min mset_eq_setD)

lemma pick_least_loaded_rr:
  assumes h: "mset h = mset (rr_at ps t)" and ps: "ps \<noteq> []" "sorted ps"
  shows "\<exists>h'. pick_least_loaded h = Some (rr_pick ps t, h') \<and> mset h' = mset (rr_at ps (Suc t))"
proof -
  let ?c = "t div length ps" and ?j = "t mod length ps"
  have j: "?j < length ps" using ps(1) by simp
  have "length h = length ps" using mset_eq_length [OF h] j by (simp add: rr_at_def rr_heap_def)
  with ps(1) have "h \<noteq> []" by auto
  have least: "min_list h = PeerShardCount ?c (ps ! ?j)"
    using min_list_mset [OF h \<open>h \<noteq> []\<close>] Min_rr_heap [OF j ps(2), of ?c] by (simp add: rr_at_def)
  have "mset (inc_shard_count (min_list h) # remove1 (min_list h) h) = mset (rr_at ps (Suc t))"
    unfolding rr_at_Suc [OF ps(1)] mset_rr_heap_Suc [OF j]
    using h by (simp add: least inc_shard_count_def rr_at_def)
  then show ?thesis
    using \<open>h \<noteq> []\<close> by (auto simp: pick_least_loaded_def Let_def least rr_pick_def)
qed

lemma pick_replicas_round_robin:
  assumes "mset h = mset (rr_at ps t)" "ps \<noteq> []" "sorted ps"
  shows "\<exists>h'. pick_replicas n h = Some (map (rr_pick ps) [t..<t + n], h')
              \<and> mset h' = mset (rr_at ps (t + n))"
  using assms
proof (induction n arbitrary: h t)
  case (Suc n)
  obtain h1 where h1: "pick_least_loaded h = Some (rr_pick ps t, h1)" "mset h1 = mset (rr_at ps (Suc t))"
    using pick_least_loaded_rr [OF Suc.prems] by blast
  from Suc.IH [OF h1(2) Suc.prems(2,3)] h1(1) show ?case
    by (auto simp: upt_rec [of t])
qed auto

lemma distribute_round_robin:
  assumes "mset h = mset (rr_at ps t)" "ps \<noteq> []" "sorted ps"
  shows "distribute n [s..<s + m] h =
     Some (map (\<lambda>i. (s + i, map (rr_pick ps) [t + i * n..<t + i * n + n])) [0..<m])"
  using assms
proof (induction m arbitrary: h t s)
  case (Suc m)
  obtain h1 where h1: "pick_replicas n h = Some (map (rr_pick ps) [t..<t + n], h1)"
      "mset h1 = mset (rr_at ps (t + n))"
    using pick_replicas_round_robin [OF Suc.prems] by blast
  have shift: "[0..<Suc m] = 0 # map Suc [0..<m]" by (simp add: map_Suc_upt upt_conv_Cons)
  have upt: "[s..<s + Suc m] = s # [Suc s..<Suc s + m]" by (simp add: upt_conv_Cons)
  show ?case
    using Suc.IH [OF h1(2) Suc.prems(2,3), of "Suc s"] h1(1)
    unfolding upt shift by (simp add: comp_def algebra_simps)
qed simp

lemma mset_new_heap: "mset (map new_peer_shard_count peers) = mset (rr_at (sort peers) 0)"
  by (simp add: rr_at_def rr_heap_def new_peer_shard_count_def [abs_def])

lemma distribute_no_replicas: "distribute 0 ss h = Some (map (\<lambda>s. (s, [])) ss)"
  by (induction ss) auto

lemma new_proposal_eq:
  "new_proposal shard_number rf peers =
     Some (map (\<lambda>s. (s, map (rr_pick (sort peers))
                  [s * min rf (length peers)..<s * min rf (length peers) + min rf (length peers)]))
             [0..<shard_number])"
proof (cases "peers = []")
  case True
  then show ?thesis by (simp add: new_proposal_def distribute_no_replicas)
next
  case False
  then have "sort peers \<noteq> []" by (metis length_0_conv length_sort)
  from distribute_round_robin [OF mset_new_heap this sorted_sort, of "min rf (length peers)" 0 shard_number]
  show ?thesis by (simp add: new_proposal_def Let_def)
qed

lemma mod_window_eq:
  assumes "a \<le> b" "b < a + (m::nat)" "a mod m = b mod m"
  shows "a = b"
proof -
  have "m dvd b - a" using assms(1,3) by (metis mod_eq_dvd_iff_nat)
  moreover have "b - a < m" using assms(1,2) by linarith
  ultimately have "b - a = 0" using dvd_imp_le by fastforce
  then show ?thesis using assms(1) by simp
qed

lemma inj_on_mod_window:
  assumes "n \<le> m"
  shows "inj_on (\<lambda>i. i mod m) {t..<t + (n::nat)}"
proof (rule inj_onI)
  fix x y assume "x \<in> {t..<t + n}" "y \<in> {t..<t + n}" and eq: "x mod m = y mod m"
  then have "y < x + m" "x < y + m" using assms by auto
  then show "x = y"
  proof (cases "x \<le> y")
    case True
    then show ?thesis by (rule mod_window_eq) fact+
  next
    case False
    then have "y \<le> x" by simp
    then have "y = x" by (rule mod_window_eq) (fact, rule eq [symmetric])
    then show ?thesis by simp
  qed
qed

lemma distinct_rr_window:
  assumes "distinct ps" "n \<le> length ps"
  shows "distinct (map (rr_pick ps) [t..<t + n])"
proof (cases "ps = []")
  case False
  then have inj: "inj_on (\<lambda>i. i mod length ps) {t..<t + n}"
    using inj_on_mod_window assms(2) by simp
  have "inj_on (rr_pick ps) {t..<t + n}"
  proof (rule inj_onI)
    fix x y assume xy: "x \<in> {t..<t + n}" "y \<in> {t..<t + n}" "rr_pick ps x = rr_pick ps y"
    then have "x mod length ps = y mod length ps"
      using assms(1) False by (simp add: rr_pick_def nth_eq_iff_index_eq)
    then show "x = y" using inj xy by (auto dest: inj_onD)
  qed
  then show ?thesis by (simp add: distinct_map)
qed (use assms in simp)

section \<open>Load of the peers\<close>

text \<open>The number of replicas a peer receives, read off the proposal and off the heap.\<close>

definition peer_load :: "distribution_proposal \<Rightarrow> peer_id \<Rightarrow> nat" where
  "peer_load d p = (\<Sum>(s, ps)\<leftarrow>d. count_list ps p)"

lemma count_list_rr_cycle:
  assumes "distinct ps" "p \<in> set ps"
  shows "count_list (map (rr_pick ps) [0..<k * length ps + j]) p =
           k + count_list (map (rr_pick ps) [0..<j]) p"
proof (induction k)
  case (Suc k)
  let ?m = "length ps"
  have "map (rr_pick ps) [0..<?m] = ps"
    by (rule nth_equalityI) (simp_all add: rr_pick_def)
  then have first: "count_list (map (rr_pick ps) [0..<?m]) p = 1"
    using assms by (simp add: count_list_distinct)
  have rest: "map (rr_pick ps) [?m..<?m + (k * ?m + j)] = map (rr_pick ps) [0..<k * ?m + j]"
  proof -
    have "[?m..<?m + (k * ?m + j)] = map (\<lambda>i. i + ?m) [0..<k * ?m + j]"
      by (simp add: map_add_upt add.commute)
    then show ?thesis by (simp add: rr_pick_def)
  qed
  have "[0..<Suc k * ?m + j] = [0..<?m] @ [?m..<?m + (k * ?m + j)]"
    by (metis (no_types, lifting) add.assoc add_0 mult_Suc upt_add_eq_append zero_le)
  then show ?case using Suc.IH first rest by simp
qed simp

lemma count_list_rr_small:
  assumes "distinct ps" "j \<le> length ps"
  shows "count_list (map (rr_pick ps) [0..<j]) p \<le> 1"
  using distinct_rr_window [OF assms, of 0] by (simp add: count_list_distinct)

lemma count_list_rr_bounds:
  assumes "distinct ps" "p \<in> set ps"
  shows "t div length ps \<le> count_list (map (rr_pick ps) [0..<t]) p"
    and "count_list (map (rr_pick ps) [0..<t]) p \<le> Suc (t div length ps)"
proof -
  have "0 < length ps" using assms(2) by (cases ps) auto
  then have t: "t = t div length ps * length ps + t mod length ps" "t mod length ps \<le> length ps"
    by (simp_all add: less_imp_le)
  have c: "count_list (map (rr_pick ps) [0..<t]) p =
      t div length ps + count_list (map (rr_pick ps) [0..<t mod length ps]) p"
    by (subst (1) t(1)) (rule count_list_rr_cycle [OF assms])
  show "t div length ps \<le> count_list (map (rr_pick ps) [0..<t]) p" using c by simp
  show "count_list (map (rr_pick ps) [0..<t]) p \<le> Suc (t div length ps)"
    using c count_list_rr_small [OF assms(1) t(2), of p] by simp
qed

lemma peer_load_rounds:
  "peer_load (map (\<lambda>s. (s, map f [s * n..<s * n + n])) [0..<m]) p = count_list (map f [0..<m * n]) p"
proof (induction m)
  case (Suc m)
  have "[0..<Suc m * n] = [0..<m * n] @ [m * n..<m * n + n]"
    by (metis add.commute mult_Suc upt_add_eq_append zero_le)
  with Suc show ?case by (simp add: peer_load_def)
qed (simp add: peer_load_def)

section \<open>Properties\<close>

text \<open>
  C12. The heap-based placement never panics, and it assigns shard \<open>s\<close> the \<open>n\<close> peers that follow each
  other from position \<open>s * n\<close> in the round-robin order of the sorted peers, where \<open>n\<close> is the
  replication factor capped by the number of peers.
\<close>

theorem new_proposal_round_robin:
  "new_proposal shard_number rf peers =
     Some (let n = min rf (length peers)
           in map (\<lambda>s. (s, map (\<lambda>k. sort peers ! ((s * n + k) mod length peers)) [0..<n])) [0..<shard_number])"
proof -
  have "map (rr_pick (sort peers)) [a..<a + n] =
      map (\<lambda>k. sort peers ! ((a + k) mod length peers)) [0..<n]" for a n
    by (rule nth_equalityI) (simp_all add: rr_pick_def)
  then show ?thesis by (simp add: new_proposal_eq Let_def)
qed

text \<open>
  C13. There is never more than one replica of a shard on a peer: for distinct known peers every
  shard of the proposal has exactly \<open>min rf (length peers)\<close> replicas, on pairwise different known peers.
\<close>

theorem new_proposal_replicas_distinct:
  assumes "distinct peers" "new_proposal shard_number rf peers = Some d" "(s, ps) \<in> set d"
  shows "distinct ps \<and> set ps \<subseteq> set peers \<and> length ps = min rf (length peers)"
proof -
  let ?n = "min rf (length peers)"
  have ps: "ps = map (rr_pick (sort peers)) [s * ?n..<s * ?n + ?n]"
    using assms(2,3) by (auto simp: new_proposal_eq)
  have "distinct ps" unfolding ps by (rule distinct_rr_window) (use assms(1) in auto)
  moreover have "set ps \<subseteq> set peers"
  proof (cases "peers = []")
    case False
    then have "rr_pick (sort peers) i \<in> set peers" for i
      using nth_mem [of "i mod length peers" "sort peers"] by (simp add: rr_pick_def)
    then show ?thesis by (auto simp: ps)
  qed (simp add: ps)
  ultimately show ?thesis by (simp add: ps)
qed

theorem new_proposal_replicas_distinct_witness:
  "distinct [7::nat, 3] \<and> (\<exists>d. new_proposal 3 2 [7, 3] = Some d \<and> (2, [3, 7]) \<in> set d
     \<and> distinct [3::nat, 7] \<and> length [3::nat, 7] = min 2 2)"
proof -
  have d: "new_proposal 3 2 [7, 3] = Some [(0, [3, 7]), (1, [3, 7]), (2, [3, 7])]"
    by code_simp
  have "distinct [3::nat, 7] \<and> set [3::nat, 7] \<subseteq> set [7, 3] \<and> length [3::nat, 7] = min 2 (length [7::nat, 3])"
    by (rule new_proposal_replicas_distinct [OF _ d, where s = 2]) simp_all
  then show ?thesis using d by auto
qed

text \<open>
  C11. The placement is balanced: in a proposal for distinct peers the numbers of shard replicas that
  two peers receive differ by at most one.
\<close>

theorem new_proposal_balanced:
  assumes "distinct peers" "new_proposal shard_number rf peers = Some d" "p \<in> set peers" "q \<in> set peers"
  shows "peer_load d p \<le> Suc (peer_load d q)"
proof -
  let ?n = "min rf (length peers)" and ?ps = "sort peers"
  have d: "d = map (\<lambda>s. (s, map (rr_pick ?ps) [s * ?n..<s * ?n + ?n])) [0..<shard_number]"
    using assms(2) by (simp add: new_proposal_eq)
  have load: "peer_load d x = count_list (map (rr_pick ?ps) [0..<shard_number * ?n]) x" for x
    unfolding d by (rule peer_load_rounds)
  have "distinct ?ps" using assms(1) by simp
  note bounds = count_list_rr_bounds [OF this, where t = "shard_number * ?n"]
  have "peer_load d p \<le> Suc (shard_number * ?n div length ?ps)"
    unfolding load by (rule bounds(2)) (use assms(3) in simp)
  moreover have "shard_number * ?n div length ?ps \<le> peer_load d q"
    unfolding load by (rule bounds(1)) (use assms(4) in simp)
  ultimately show ?thesis by simp
qed

theorem new_proposal_balanced_witness:
  "\<exists>d. new_proposal 2 1 [5, 2, 9] = Some d \<and> peer_load d 2 = 1 \<and> peer_load d 9 = 0
     \<and> peer_load d 2 \<le> Suc (peer_load d 9)"
proof -
  have d: "new_proposal 2 1 [5, 2, 9] = Some [(0, [2]), (1, [5])]"
    by (simp add: new_proposal_round_robin Let_def upt_rec)
  have "peer_load [(0, [2]), (1, [5])] 2 \<le> Suc (peer_load [(0, [2]), (1, [5])] 9)"
    by (rule new_proposal_balanced [OF _ d]) simp_all
  then show ?thesis using d by (auto simp: peer_load_def)
qed


end
