(* ===== verification/Rust_Text.thy ===== *)
theory Rust_Text
  imports Prelude
begin

text \<open>
  The string methods of the Rust standard library that the code calls, on strings as lists of bytes
  (all separators in the code are ASCII, so a split never cuts a multi-byte character), and the
  comparison operators of \<open>f64\<close>.
\<close>

section \<open>Strings\<close>

text \<open>\<open>str::split_once\<close>: the parts before and after the first occurrence of a separator.\<close>

definition split_once :: "char \<Rightarrow> string \<Rightarrow> (string \<times> string) option" where
  "split_once c s =
     (if c \<in> set s then Some (takeWhile (\<lambda>x. x \<noteq> c) s, tl (dropWhile (\<lambda>x. x \<noteq> c) s)) else None)"

text \<open>\<open>str::split\<close>: all the parts between occurrences of a separator.\<close>

fun split_on :: "char \<Rightarrow> string \<Rightarrow> string list" where
  "split_on c [] = [[]]"
| "split_on c (x # xs) =
     (if x = c then [] # split_on c xs
      else case split_on c xs of [] \<Rightarrow> [[x]] | p # ps \<Rightarrow> (x # p) # ps)"

text \<open>\<open>str::trim_matches\<close> with a character: it is stripped from both ends.\<close>

definition trim_matches :: "char \<Rightarrow> string \<Rightarrow> string" where
  "trim_matches c s = rev (dropWhile (\<lambda>x. x = c) (rev (dropWhile (\<lambda>x. x = c) s)))"

definition ends_with :: "char \<Rightarrow> string \<Rightarrow> bool" where
  "ends_with c s \<longleftrightarrow> s \<noteq> [] \<and> last s = c"

definition is_digit :: "char \<Rightarrow> bool" where
  "is_digit c \<longleftrightarrow> CHR ''0'' \<le> c \<and> c \<le> CHR ''9''"

definition digit_value :: "char \<Rightarrow> nat" where
  "digit_value c = of_char c - 48"

text \<open>The decimal digits \<open>Display\<close> prints for an unsigned integer.\<close>

fun display_usize :: "nat \<Rightarrow> string" where
  "display_usize n =
     (if n < 10 then [char_of (48 + n)] else display_usize (n div 10) @ [char_of (48 + n mod 10)])"

declare display_usize.simps [simp del]

text \<open>
  \<open>str::parse::<u32>\<close>: decimal digits with an optional leading plus; the empty string, a lone sign,
  any other character and a value of \<open>2 ^ 32\<close> or more are errors.
\<close>

definition parse_unsigned :: "nat \<Rightarrow> string \<Rightarrow> nat option" where
  "parse_unsigned bound s =
     (let ds = (case s of c # cs \<Rightarrow> if c = CHR ''+'' then cs else s | [] \<Rightarrow> [])
      in if ds = [] \<or> \<not> list_all is_digit ds then None
         else let n = foldl (\<lambda>n c. 10 * n + digit_value c) 0 ds
              in if n < bound then Some n else None)"

definition parse_u32 :: "string \<Rightarrow> nat option" where
  "parse_u32 s = parse_unsigned (2 ^ 32) s"

lemma split_once_length:
  "split_once c s = Some (a, b) \<Longrightarrow> length b < length s"
  by (induction s arbitrary: a b) (auto simp: split_once_def split: if_splits)

lemma split_once_None [simp]: "split_once c s = None \<longleftrightarrow> c \<notin> set s"
  by (simp add: split_once_def)

lemma split_once_append [simp]:
  "c \<notin> set a \<Longrightarrow> split_once c (a @ c # b) = Some (a, b)"
  by (induction a) (auto simp: split_once_def)

lemma split_once_Some_iff:
  "split_once c s = Some (a, b) \<longleftrightarrow> c \<notin> set a \<and> s = a @ c # b"
proof
  assume *: "split_once c s = Some (a, b)"
  then have "c \<in> set s" using split_once_None [of c s] by fastforce
  then obtain a' b' where "s = a' @ c # b'" "c \<notin> set a'" by (metis split_list_first)
  with * show "c \<notin> set a \<and> s = a @ c # b" by simp
qed simp

lemma split_on_ne [simp]: "split_on c s \<noteq> []"
  by (induction s) (auto split: list.splits)

lemma split_on_no_sep: "c \<notin> set s \<Longrightarrow> split_on c s = [s]"
  by (induction s) auto

lemma split_on_append:
  "c \<notin> set a \<Longrightarrow> split_on c (a @ c # b) = a # split_on c b"
  by (induction a) auto

section \<open>Comparison of doubles\<close>

text \<open>
  The values of \<open>f64\<close> as far as comparison can tell them apart: a finite value is its rational value,
  which identifies the two zeros as \<open>==\<close> does.
\<close>

datatype f64 = F64NaN | F64Inf bool | F64Fin rat
  \<comment> \<open>the flag of an infinity is its sign: \<open>True\<close> for minus\<close>

fun f64_lt :: "f64 \<Rightarrow> f64 \<Rightarrow> bool" where
  "f64_lt (F64Fin x) (F64Fin y) \<longleftrightarrow> x < y"
| "f64_lt (F64Fin x) (F64Inf neg) \<longleftrightarrow> \<not> neg"
| "f64_lt (F64Inf neg) (F64Fin y) \<longleftrightarrow> neg"
| "f64_lt (F64Inf a) (F64Inf b) \<longleftrightarrow> a \<and> \<not> b"
| "f64_lt F64NaN _ \<longleftrightarrow> False"
| "f64_lt _ F64NaN \<longleftrightarrow> False"

fun f64_eq :: "f64 \<Rightarrow> f64 \<Rightarrow> bool" where
  "f64_eq F64NaN _ \<longleftrightarrow> False"
| "f64_eq x y \<longleftrightarrow> x = y"

definition f64_le :: "f64 \<Rightarrow> f64 \<Rightarrow> bool" where
  "f64_le x y \<longleftrightarrow> f64_lt x y \<or> f64_eq x y"

lemma f64_lt_irrefl [simp]: "\<not> f64_lt x x"
  by (cases x) auto

lemma f64_lt_trans: "f64_lt x y \<Longrightarrow> f64_lt y z \<Longrightarrow> f64_lt x z"
  by (cases x; cases y; cases z) auto

lemma f64_le_lt_trans: "f64_le x y \<Longrightarrow> f64_lt y z \<Longrightarrow> f64_lt x z"
  by (cases x; cases y; cases z) (auto simp: f64_le_def)

lemma f64_lt_le_trans: "f64_lt x y \<Longrightarrow> f64_le y z \<Longrightarrow> f64_lt x z"
  by (cases x; cases y; cases z) (auto simp: f64_le_def)

lemma f64_NaN_incomparable [simp]:
  "\<not> f64_lt F64NaN y" "\<not> f64_lt x F64NaN" "\<not> f64_le F64NaN y" "\<not> f64_le x F64NaN"
  by (cases x; cases y; simp add: f64_le_def)+

end
