(* ===== verification/Json_Payload.thy ===== *)
theory Json_Payload
  imports Rust_Text
begin

text \<open>
  JSON payloads and the path language over them: \<open>lib/segment/src/common/utils.rs\<close> (\<open>MultiValue\<close>,
  reading and removing values by path) and the payload part of \<open>lib/segment/src/types.rs\<close>.

  A JSON value is the \<open>Value\<close> enum the code matches on; its objects are ordered maps (the crate is
  built without \<open>preserve_order\<close>). The representation of numbers is a parameter: the type variable
  \<open>'n\<close> with the accessors of \<open>number_api\<close>.
\<close>

section \<open>Values\<close>

datatype 'n json =
    JNull
  | JBool bool
  | JNumber 'n
  | JString string
  | JArray "'n json list"
  | JObject "(string \<times> 'n json) list"

type_synonym 'n json_map = "(string, 'n json) btree"

record 'n number_api =
  as_i64 :: "'n \<Rightarrow> int option"
  as_f64 :: "'n \<Rightarrow> f64 option"
  is_i64 :: "'n \<Rightarrow> bool"
  is_f64 :: "'n \<Rightarrow> bool"

text \<open>An instance of the number parameter: numbers that are integers.\<close>

definition int_numbers :: "int number_api" where
  "int_numbers = \<lparr>as_i64 = Some, as_f64 = (\<lambda>i. Some (F64Fin (of_int i))),
     is_i64 = (\<lambda>_. True), is_f64 = (\<lambda>_. False)\<rparr>"

fun is_null :: "'n json \<Rightarrow> bool" where
  "is_null JNull = True"
| "is_null _ = False"

section \<open>Values found at a path\<close>

datatype 'a multi_value = Single "'a option" | Multiple "'a list"

definition mv_default :: "'a multi_value" where
  "mv_default = Single None"

definition mv_one :: "'a \<Rightarrow> 'a multi_value" where
  "mv_one v = Single (Some v)"

definition mv_option :: "'a option \<Rightarrow> 'a multi_value" where
  "mv_option v = Single v"

fun mv_push :: "'a multi_value \<Rightarrow> 'a \<Rightarrow> 'a multi_value" where
  "mv_push (Single None) v = Single (Some v)"
| "mv_push (Single (Some w)) v = Multiple [w, v]"
| "mv_push (Multiple vs) v = Multiple (vs @ [v])"

text \<open>
  A \<open>MultiValue\<close> is its own iterator, and \<open>next\<close> pops from the end of the vector: iterating runs
  through the values backwards.
\<close>

fun mv_iter :: "'a multi_value \<Rightarrow> 'a list" where
  "mv_iter (Single None) = []"
| "mv_iter (Single (Some v)) = [v]"
| "mv_iter (Multiple vs) = rev vs"

fun mv_values :: "'a multi_value \<Rightarrow> 'a list" where
  "mv_values (Single None) = []"
| "mv_values (Single (Some v)) = [v]"
| "mv_values (Multiple vs) = vs"

definition mv_extend :: "'a multi_value \<Rightarrow> 'a list \<Rightarrow> 'a multi_value" where
  "mv_extend mv vs = foldl mv_push mv vs"

fun empty_or_null :: "'n json \<Rightarrow> bool" where
  "empty_or_null (JArray vs) = (vs = [])"
| "empty_or_null JNull = True"
| "empty_or_null _ = False"

fun check_is_empty :: "'n json multi_value \<Rightarrow> bool" where
  "check_is_empty (Multiple vs) = list_all empty_or_null vs"
| "check_is_empty (Single None) = True"
| "check_is_empty (Single (Some v)) = empty_or_null v"

fun check_is_null :: "'n json multi_value \<Rightarrow> bool" where
  "check_is_null (Single None) = False"
| "check_is_null (Single (Some v)) = is_null v"
| "check_is_null (Multiple vs) = list_ex is_null vs"

section \<open>Reading by path\<close>

definition parse_array_path :: "string \<Rightarrow> (string \<times> nat option) option" where
  "parse_array_path path =
     (if CHR ''['' \<notin> set path \<or> \<not> ends_with (CHR '']'') path then None
      else case split_on (CHR ''['') path of
             [] \<Rightarrow> None
           | [element] \<Rightarrow> Some (element, None)
           | element # index # _ \<Rightarrow>
               if index = '']'' then Some (element, None)
               else map_option (\<lambda>n. (element, Some n)) (parse_u32 (trim_matches (CHR '']'') index)))"

definition index_selected :: "nat option \<Rightarrow> nat \<Rightarrow> bool" where
  "index_selected array_index i \<longleftrightarrow> (case array_index of None \<Rightarrow> True | Some k \<Rightarrow> i = k)"

function (sequential) focus_array_path ::
    "string \<Rightarrow> nat option \<Rightarrow> string option \<Rightarrow> 'n json_map \<Rightarrow> 'n json multi_value"
  and get_value_from_json_map :: "string \<Rightarrow> 'n json_map \<Rightarrow> 'n json multi_value" where
  "focus_array_path array_path array_index rest_path value =
     (case bt_get value array_path of
        Some (JArray array) \<Rightarrow>
          mv_extend mv_default
            (concat (map (\<lambda>(i, v).
                case v of
                  JObject m \<Rightarrow>
                    if index_selected array_index i
                    then (case rest_path of
                            Some rest \<Rightarrow> mv_iter (get_value_from_json_map rest m)
                          | None \<Rightarrow> [v])
                    else []
                | _ \<Rightarrow> [])
              (enumerate 0 array)))
      | _ \<Rightarrow> mv_default)"
| "get_value_from_json_map path value =
     (case split_once (CHR ''.'') path of
        Some (element, rest_path) \<Rightarrow>
          (case parse_array_path element of
             Some (array_element_path, array_index) \<Rightarrow>
               focus_array_path array_element_path array_index (Some rest_path) value
           | None \<Rightarrow>
               (case bt_get value element of
                  Some (JObject m) \<Rightarrow> get_value_from_json_map rest_path m
                | Some v \<Rightarrow> if rest_path = [] then mv_one v else mv_default
                | None \<Rightarrow> mv_default))
      | None \<Rightarrow>
          (case parse_array_path path of
             Some (array_element_path, array_index) \<Rightarrow>
               focus_array_path array_element_path array_index None value
           | None \<Rightarrow> (case bt_get value path of Some v \<Rightarrow> mv_one v | None \<Rightarrow> mv_default)))"
  by pat_completeness auto
termination
  by (relation "measure (\<lambda>x. case x of
        Inl (_, _, rest, _) \<Rightarrow> (case rest of None \<Rightarrow> 0 | Some r \<Rightarrow> 2 * length r + 2)
      | Inr (path, _) \<Rightarrow> 2 * length path + 1)")
    (auto dest!: split_once_length)

section \<open>Removing by path\<close>

text \<open>
  The removal mutates the object in place and returns the removed values; the model returns both.
  The loop over an array rewrites each selected object and collects what was removed from it.
\<close>

function (sequential) delete_array_path ::
    "string \<Rightarrow> nat option \<Rightarrow> string option \<Rightarrow> 'n json_map \<Rightarrow> 'n json multi_value \<times> 'n json_map"
  and remove_value_from_json_map :: "string \<Rightarrow> 'n json_map \<Rightarrow> 'n json multi_value \<times> 'n json_map" where
  "delete_array_path array_path array_index rest_path value =
     (case bt_get value array_path of
        Some (JArray array) \<Rightarrow>
          (case rest_path of
             None \<Rightarrow>
               (case array_index of
                  Some k \<Rightarrow>
                    if k < length array
                    then (mv_one (array ! k),
                          bt_insert array_path (JArray (take k array @ drop (Suc k) array)) value)
                    else (mv_default, value)
                | None \<Rightarrow> (mv_one (JArray array), bt_insert array_path (JArray []) value))
           | Some rest \<Rightarrow>
               (let results =
                  map (\<lambda>(i, v).
                      case v of
                        JObject m \<Rightarrow>
                          if index_selected array_index i
                          then (let r = remove_value_from_json_map rest m
                                in (mv_iter (fst r), JObject (snd r)))
                          else ([], v)
                      | _ \<Rightarrow> ([], v))
                    (enumerate 0 array)
                in (mv_extend mv_default (concat (map fst results)),
                    bt_insert array_path (JArray (map snd results)) value)))
      | _ \<Rightarrow> (mv_default, value))"
| "remove_value_from_json_map path value =
     (case split_once (CHR ''.'') path of
        Some (element, rest_path) \<Rightarrow>
          (case parse_array_path element of
             Some (array_element_path, array_index) \<Rightarrow>
               delete_array_path array_element_path array_index (Some rest_path) value
           | None \<Rightarrow>
               if rest_path = []
               then (mv_option (bt_get value element), bt_remove element value)
               else (case bt_get value element of
                       None \<Rightarrow> (mv_default, value)
                     | Some (JObject m) \<Rightarrow>
                         (let r = remove_value_from_json_map rest_path m
                          in (fst r, bt_insert element (JObject (snd r)) value))
                     | Some _ \<Rightarrow> (mv_default, value)))
      | None \<Rightarrow>
          (case parse_array_path path of
             Some (array_element_path, array_index) \<Rightarrow>
               delete_array_path array_element_path array_index None value
           | None \<Rightarrow> (mv_option (bt_get value path), bt_remove path value)))"
  by pat_completeness auto
termination
  by (relation "measure (\<lambda>x. case x of
        Inl (_, _, rest, _) \<Rightarrow> (case rest of None \<Rightarrow> 0 | Some r \<Rightarrow> 2 * length r + 2)
      | Inr (path, _) \<Rightarrow> 2 * length path + 1)")
    (auto dest!: split_once_length)

declare focus_array_path.simps [simp del] get_value_from_json_map.simps [simp del]
  delete_array_path.simps [simp del] remove_value_from_json_map.simps [simp del]

section \<open>Payloads\<close>

type_synonym 'n payload = "'n json_map"

text \<open>\<open>Payload::merge\<close>: null values of the second payload delete a key, all others overwrite it.\<close>

definition payload_merge_entry :: "'n payload \<Rightarrow> string \<times> 'n json \<Rightarrow> 'n payload" where
  "payload_merge_entry p e = (if is_null (snd e) then bt_remove (fst e) p else bt_insert (fst e) (snd e) p)"

definition payload_merge :: "'n payload \<Rightarrow> 'n payload \<Rightarrow> 'n payload" where
  "payload_merge p value = foldl payload_merge_entry p value"

definition payload_get_value :: "'n payload \<Rightarrow> string \<Rightarrow> 'n json multi_value" where
  "payload_get_value p path = get_value_from_json_map path p"

definition payload_remove :: "'n payload \<Rightarrow> string \<Rightarrow> 'n json list \<times> 'n payload" where
  "payload_remove p path = (let r = remove_value_from_json_map path p in (mv_values (fst r), snd r))"

definition payload_default :: "'n payload" where
  "payload_default = []"

definition payload_is_empty :: "'n payload \<Rightarrow> bool" where
  "payload_is_empty p \<longleftrightarrow> p = []"

definition payload_contains_key :: "'n payload \<Rightarrow> string \<Rightarrow> bool" where
  "payload_contains_key p key \<longleftrightarrow> bt_get p key \<noteq> None"

datatype payload_selector = Include "string list" | Exclude "string list"

fun selector_check :: "payload_selector \<Rightarrow> string \<Rightarrow> bool" where
  "selector_check (Include keys) key = (key \<in> set keys)"
| "selector_check (Exclude keys) key = (key \<notin> set keys)"

definition selector_process :: "payload_selector \<Rightarrow> 'n payload \<Rightarrow> 'n payload" where
  "selector_process sel p = filter (\<lambda>e. selector_check sel (fst e)) p"

datatype with_payload_interface = WPBool bool | WPFields "string list" | WPSelector payload_selector

record with_payload =
  wp_enable :: bool
  payload_selector :: "payload_selector option"

fun with_payload_of_interface :: "with_payload_interface \<Rightarrow> with_payload" where
  "with_payload_of_interface (WPBool x) = \<lparr>wp_enable = x, payload_selector = None\<rparr>"
| "with_payload_of_interface (WPFields x) = \<lparr>wp_enable = True, payload_selector = Some (Include x)\<rparr>"
| "with_payload_of_interface (WPSelector x) = \<lparr>wp_enable = True, payload_selector = Some x\<rparr>"

fun with_payload_is_required :: "with_payload_interface \<Rightarrow> bool" where
  "with_payload_is_required (WPBool b) = b"
| "with_payload_is_required _ = True"

section \<open>Schema inference\<close>

datatype payload_schema_type = Keyword | Integer | Float | Geo | Text

fun json_as_f64 :: "'n number_api \<Rightarrow> 'n json \<Rightarrow> f64 option" where
  "json_as_f64 N (JNumber n) = as_f64 N n"
| "json_as_f64 N _ = None"

definition geo_coordinates :: "'n number_api \<Rightarrow> 'n json_map \<Rightarrow> (f64 \<times> f64) option" where
  "geo_coordinates N obj =
     (case (Option.bind (bt_get obj ''lon'') (json_as_f64 N), Option.bind (bt_get obj ''lat'') (json_as_f64 N)) of
        (Some lon, Some lat) \<Rightarrow> Some (lon, lat)
      | _ \<Rightarrow> None)"

fun value_type :: "'n number_api \<Rightarrow> 'n json \<Rightarrow> payload_schema_type option" where
  "value_type N JNull = None"
| "value_type N (JBool _) = None"
| "value_type N (JNumber num) =
     (if is_i64 N num then Some Integer else if is_f64 N num then Some Float else None)"
| "value_type N (JString _) = Some Keyword"
| "value_type N (JArray _) = None"
| "value_type N (JObject obj) = (if geo_coordinates N obj = None then None else Some Geo)"

definition infer_collection_value_type :: "'n number_api \<Rightarrow> 'n json list \<Rightarrow> payload_schema_type option" where
  "infer_collection_value_type N values =
     (let possible_types = remdups (map (value_type N) values)
      in if length possible_types \<noteq> 1 then None else hd possible_types)"

fun infer_value_type :: "'n number_api \<Rightarrow> 'n json \<Rightarrow> payload_schema_type option" where
  "infer_value_type N (JArray array) = infer_collection_value_type N array"
| "infer_value_type N value = value_type N value"

section \<open>Lemmas on multi values\<close>

lemma mv_values_push [simp]: "mv_values (mv_push mv v) = mv_values mv @ [v]"
  by (cases "(mv, v)" rule: mv_push.cases) auto

lemma mv_values_extend [simp]: "mv_values (mv_extend mv vs) = mv_values mv @ vs"
  unfolding mv_extend_def by (induction vs arbitrary: mv) auto

lemma mv_values_simps [simp]:
  "mv_values mv_default = []" "mv_values (mv_one v) = [v]" "mv_values (mv_option x) = (case x of None \<Rightarrow> [] | Some v \<Rightarrow> [v])"
  by (auto simp: mv_default_def mv_one_def mv_option_def split: option.splits)

lemma set_mv_iter [simp]: "set (mv_iter mv) = set (mv_values mv)"
  by (cases mv rule: mv_iter.cases) auto

lemma check_is_null_iff: "check_is_null mv \<longleftrightarrow> (\<exists>v \<in> set (mv_values mv). is_null v)"
  by (cases mv rule: mv_iter.cases) (auto simp: list_ex_iff)

lemma check_is_empty_iff: "check_is_empty mv \<longleftrightarrow> (\<forall>v \<in> set (mv_values mv). empty_or_null v)"
  by (cases mv rule: mv_iter.cases) (auto simp: list_all_iff)

section \<open>Plain paths\<close>

text \<open>
  A path of plain keys (no dot and no bracket in a key) names a nested entry. The reference
  operations \<open>lookup_path\<close> and \<open>delete_path\<close> walk a list of keys; the string-based operations of the
  code agree with them.
\<close>

definition plain_key :: "string \<Rightarrow> bool" where
  "plain_key k \<longleftrightarrow> k \<noteq> [] \<and> CHR ''.'' \<notin> set k \<and> CHR ''['' \<notin> set k"

fun join_path :: "string list \<Rightarrow> string" where
  "join_path [] = []"
| "join_path [k] = k"
| "join_path (k # ks) = k @ CHR ''.'' # join_path ks"

fun lookup_path :: "string list \<Rightarrow> 'n json_map \<Rightarrow> 'n json option" where
  "lookup_path [] m = None"
| "lookup_path [k] m = bt_get m k"
| "lookup_path (k # ks) m = (case bt_get m k of Some (JObject m') \<Rightarrow> lookup_path ks m' | _ \<Rightarrow> None)"

fun delete_path :: "string list \<Rightarrow> 'n json_map \<Rightarrow> 'n json_map" where
  "delete_path [] m = m"
| "delete_path [k] m = bt_remove k m"
| "delete_path (k # ks) m =
     (case bt_get m k of Some (JObject m') \<Rightarrow> bt_insert k (JObject (delete_path ks m')) m | _ \<Rightarrow> m)"

lemma parse_array_path_plain [simp]: "plain_key k \<Longrightarrow> parse_array_path k = None"
  by (simp add: parse_array_path_def plain_key_def)

lemma split_once_plain [simp]:
  "plain_key k \<Longrightarrow> split_once (CHR ''.'') k = None"
  "plain_key k \<Longrightarrow> split_once (CHR ''.'') (k @ CHR ''.'' # r) = Some (k, r)"
  by (simp_all add: plain_key_def)

lemma join_path_ne: "ks \<noteq> [] \<Longrightarrow> \<forall>k \<in> set ks. plain_key k \<Longrightarrow> join_path ks \<noteq> []"
  by (cases ks rule: join_path.cases) (auto simp: plain_key_def)

lemma get_plain_path:
  assumes "ks \<noteq> []" "\<forall>k \<in> set ks. plain_key k"
  shows "get_value_from_json_map (join_path ks) m = Single (lookup_path ks m)"
  using assms
proof (induction ks arbitrary: m rule: join_path.induct)
  case (2 k)
  then show ?case
    by (simp add: get_value_from_json_map.simps [of k] mv_one_def mv_default_def split: option.splits)
next
  case (3 k k' ks)
  then have ne: "join_path (k' # ks) \<noteq> []" by (intro join_path_ne) auto
  show ?case
    using 3 ne
    by (simp add: get_value_from_json_map.simps [of "k @ _"] mv_default_def
        split: option.splits json.splits)
qed simp

lemma remove_plain_path:
  assumes "ks \<noteq> []" "\<forall>k \<in> set ks. plain_key k"
  shows "remove_value_from_json_map (join_path ks) m = (Single (lookup_path ks m), delete_path ks m)"
  using assms
proof (induction ks arbitrary: m rule: join_path.induct)
  case (2 k)
  then show ?case
    by (simp add: remove_value_from_json_map.simps [of k] mv_option_def)
next
  case (3 k k' ks)
  then have ne: "join_path (k' # ks) \<noteq> []" by (intro join_path_ne) auto
  show ?case
    using 3 ne
    by (simp add: remove_value_from_json_map.simps [of "k @ _"] mv_default_def Let_def
        split: option.splits json.splits)
qed simp

lemma lookup_delete_path: "ks \<noteq> [] \<Longrightarrow> lookup_path ks (delete_path ks m) = None"
  by (induction ks m rule: delete_path.induct)
    (auto simp: bt_get_remove bt_get_insert split: option.splits json.splits)

lemma lookup_delete_path_other:
  assumes "\<not> (\<exists>r. qs = ks @ r)" "\<not> (\<exists>r. ks = qs @ r)"
  shows "lookup_path qs (delete_path ks m) = lookup_path qs m"
  using assms
proof (induction ks m arbitrary: qs rule: delete_path.induct)
  case (2 k m)
  then show ?case
    by (cases qs rule: join_path.cases) (auto simp: bt_get_remove split: option.splits json.splits)
next
  case (3 k k' ks m)
  show ?case
  proof (cases "\<exists>m'. bt_get m k = Some (JObject m')")
    case True
    then obtain m' where m': "bt_get m k = Some (JObject m')" by blast
    show ?thesis
    proof (cases qs)
      case (Cons q qs')
      with 3 m' show ?thesis by (cases qs'; cases "q = k") (auto simp: bt_get_insert)
    qed simp
  next
    case False
    then show ?thesis by (auto split: option.splits json.splits)
  qed
qed simp

section \<open>Well-formed values\<close>

fun json_wf :: "'n json \<Rightarrow> bool" where
  "json_wf (JArray vs) = list_all json_wf vs"
| "json_wf (JObject m) = (bt_wf m \<and> list_all (\<lambda>e. json_wf (snd e)) m)"
| "json_wf _ = True"

definition map_wf :: "'n json_map \<Rightarrow> bool" where
  "map_wf m \<longleftrightarrow> bt_wf m \<and> (\<forall>e \<in> set m. json_wf (snd e))"

lemma json_wf_JObject [simp]: "json_wf (JObject m) = map_wf m"
  by (simp add: map_wf_def list_all_iff)

declare json_wf.simps(2) [simp del]

lemma map_wf_get: "map_wf m \<Longrightarrow> bt_get m k = Some v \<Longrightarrow> json_wf v"
  by (force simp: map_wf_def dest: map_of_SomeD)

lemma map_wf_remove [simp]: "map_wf m \<Longrightarrow> map_wf (bt_remove k m)"
  by (simp add: map_wf_def)

lemma map_wf_insert [simp]: "map_wf m \<Longrightarrow> json_wf v \<Longrightarrow> map_wf (bt_insert k v m)"
  by (auto simp: map_wf_def set_bt_insert)

lemma map_wf_filter [simp]: "map_wf m \<Longrightarrow> map_wf (filter P m)"
  by (simp add: map_wf_def)

lemma json_wf_remove_step:
  assumes "\<And>m. map_wf m \<Longrightarrow> map_wf (snd (f m))" "json_wf v"
  shows "json_wf (case v of JObject m \<Rightarrow> if P then JObject (snd (f m)) else v | _ \<Rightarrow> v)"
  using assms by (cases v) auto

lemma remove_map_wf:
  "map_wf m \<Longrightarrow> map_wf (snd (delete_array_path ap ai rp m))"
  "map_wf m \<Longrightarrow> map_wf (snd (remove_value_from_json_map p m))"
proof (induction ap ai rp m and p m rule: delete_array_path_remove_value_from_json_map.induct)
  case (1 ap ai rp m)
  show ?case
  proof (cases "\<exists>array. bt_get m ap = Some (JArray array)")
    case True
    then obtain array where array: "bt_get m ap = Some (JArray array)" by blast
    have vs: "\<forall>v \<in> set array. json_wf v"
      using map_wf_get [OF 1(2) array] by (simp add: list_all_iff)
    show ?thesis
    proof (cases rp)
      case None
      have "list_all json_wf (take k array) \<and> list_all json_wf (drop (Suc k) array)" for k
        using vs by (auto simp: list_all_iff dest: in_set_takeD in_set_dropD)
      then show ?thesis using 1(2) array None
        by (subst delete_array_path.simps) (auto split: option.splits)
    next
      case (Some rest)
      let ?step = "\<lambda>(i, v). case v of
          JObject m' \<Rightarrow> if index_selected ai i then (let r = remove_value_from_json_map rest m' in
             (mv_iter (fst r), JObject (snd r))) else ([], v)
        | _ \<Rightarrow> ([], v)"
      have "json_wf (snd (?step (i, v)))" if iv: "(i, v) \<in> set (enumerate 0 array)" for i v
      proof -
        have "json_wf v" using vs in_set_enumerateD [OF iv] by blast
        then show ?thesis
          using 1(1) [OF array refl Some iv refl] by (cases v) (auto simp: Let_def)
      qed
      then have "list_all json_wf (map snd (map ?step (enumerate 0 array)))"
        by (auto simp: list_all_iff)
      then show ?thesis using 1(2) array Some
        by (subst delete_array_path.simps) (simp add: Let_def)
    qed
  next
    case False
    then show ?thesis using 1(2)
      by (subst delete_array_path.simps) (auto split: option.splits json.splits)
  qed
next
  case (2 p m)
  have sub: "map_wf x" if "bt_get m k = Some (JObject x)" for k x
    using map_wf_get [OF 2(4) that] by simp
  with 2 show ?case
    by (subst remove_value_from_json_map.simps)
      (auto simp: Let_def split: option.splits json.splits)
qed

section \<open>Properties\<close>

text \<open>
  C15. Reading a dotted path of plain keys gives exactly the nested entry that a walk over the list of
  keys finds, as a single value, and no value when the walk fails at any step.
\<close>

theorem get_value_plain_path:
  assumes "ks \<noteq> []" "\<forall>k \<in> set ks. plain_key k"
  shows "payload_get_value p (join_path ks) = Single (lookup_path ks p)"
  unfolding payload_get_value_def by (rule get_plain_path) fact+

theorem get_value_plain_path_witness:
  "payload_get_value [(''a'', JObject [(''b'', JNumber (7::nat))])] ''a.b'' = Single (Some (JNumber 7))"
proof -
  have "payload_get_value [(''a'', JObject [(''b'', JNumber (7::nat))])] (join_path [''a'', ''b'']) =
      Single (lookup_path [''a'', ''b''] [(''a'', JObject [(''b'', JNumber 7)])])"
    by (rule get_value_plain_path) (simp_all add: plain_key_def)
  then show ?thesis by simp
qed

text \<open>
  C16. Removing a dotted path of plain keys returns exactly the value that reading the path gave
  before; afterwards the path holds no value, a path that neither extends it nor is extended by it
  reads as before, and the payload's objects are still ordered maps with distinct keys.
\<close>

theorem payload_remove_spec:
  assumes ks: "ks \<noteq> []" "\<forall>k \<in> set ks. plain_key k" and wf: "map_wf p"
    and rm: "payload_remove p (join_path ks) = (removed, p')"
  shows "removed = mv_values (payload_get_value p (join_path ks))
    \<and> mv_values (payload_get_value p' (join_path ks)) = []
    \<and> map_wf p'
    \<and> (\<forall>qs. qs \<noteq> [] \<and> (\<forall>q \<in> set qs. plain_key q) \<and> (\<nexists>r. qs = ks @ r) \<and> (\<nexists>r. ks = qs @ r) \<longrightarrow>
          payload_get_value p' (join_path qs) = payload_get_value p (join_path qs))"
proof -
  have r: "removed = mv_values (Single (lookup_path ks p))" "p' = delete_path ks p"
    using rm by (simp_all add: payload_remove_def remove_plain_path [OF ks])
  have "map_wf p'"
    using remove_map_wf(2) [OF wf, of "join_path ks"] r(2) by (simp add: remove_plain_path [OF ks])
  then show ?thesis
    using r ks by (simp add: payload_get_value_def get_plain_path lookup_delete_path
        lookup_delete_path_other)
qed

theorem payload_remove_spec_witness:
  "payload_remove [(''a'', JObject [(''b'', JNumber (7::nat)), (''c'', JNull)])] ''a.b'' =
      ([JNumber 7], [(''a'', JObject [(''c'', JNull)])])
   \<and> payload_get_value [(''a'', JObject [(''c'', JNull)])] ''a.c'' =
       payload_get_value [(''a'', JObject [(''b'', JNumber (7::nat)), (''c'', JNull)])] ''a.c''"
proof -
  let ?p = "[(''a'', JObject [(''b'', JNumber (7::nat)), (''c'', JNull)])]"
  have keys: "\<forall>k \<in> set [''a'', ''b'']. plain_key k" "\<forall>k \<in> set [''a'', ''c'']. plain_key k"
    by (simp_all add: plain_key_def)
  have rm: "payload_remove ?p (join_path [''a'', ''b'']) = ([JNumber 7], [(''a'', JObject [(''c'', JNull)])])"
    unfolding payload_remove_def using keys(1)
    by (subst remove_plain_path) (simp_all add: bt_remove_def Let_def)
  have wf: "map_wf ?p" by (simp add: map_wf_def bt_wf_def)
  have "\<forall>qs. qs \<noteq> [] \<and> (\<forall>q \<in> set qs. plain_key q) \<and> (\<nexists>r. qs = [''a'', ''b''] @ r) \<and> (\<nexists>r. [''a'', ''b''] = qs @ r) \<longrightarrow>
      payload_get_value [(''a'', JObject [(''c'', JNull)])] (join_path qs) = payload_get_value ?p (join_path qs)"
    using payload_remove_spec [OF _ keys(1) wf rm] by blast
  from this [rule_format, of "[''a'', ''c'']"] keys(2) rm show ?thesis by simp
qed

lemma bt_get_merge_entry:
  "bt_get (payload_merge_entry p e) k =
     (if k = fst e then (if is_null (snd e) then None else Some (snd e)) else bt_get p k)"
  by (simp add: payload_merge_entry_def bt_get_insert bt_get_remove)

text \<open>
  C17. Merging a payload into a stored one is a per-key update: a key that the new payload does not
  have keeps its value, a key it maps to null is deleted, and any other key takes the new value.
\<close>

theorem payload_merge_lookup:
  assumes "bt_wf q"
  shows "bt_get (payload_merge p q) k =
    (case bt_get q k of None \<Rightarrow> bt_get p k | Some v \<Rightarrow> if is_null v then None else Some v)"
  using assms unfolding payload_merge_def
proof (induction q arbitrary: p)
  case (Cons e q)
  then have "bt_get q (fst e) = None" and wf: "bt_wf q"
    by (auto simp: bt_wf_def map_of_eq_None_iff)
  then show ?case
    using Cons.IH [OF wf, of "payload_merge_entry p e"]
    by (cases e) (auto simp: bt_get_merge_entry split: option.splits)
qed simp

theorem payload_merge_lookup_witness:
  "bt_get (payload_merge [(''a'', JBool True), (''b'', JNumber (1::nat))] [(''a'', JNull), (''b'', JNumber 2)]) ''a'' = None"
  by (subst payload_merge_lookup) (simp_all add: bt_wf_def)

text \<open>
  C18. The type inferred for an array of values is a schema type exactly when the array is not empty
  and every element has that type; any mixture, or an element without a type, gives no type.
\<close>

theorem infer_collection_value_type_iff:
  "infer_collection_value_type N vs = Some t \<longleftrightarrow> vs \<noteq> [] \<and> (\<forall>v \<in> set vs. value_type N v = Some t)"
proof
  assume L: "infer_collection_value_type N vs = Some t"
  then obtain x where x: "remdups (map (value_type N) vs) = [x]"
    by (auto simp: infer_collection_value_type_def Let_def length_Suc_conv split: if_splits)
  with L have "x = Some t" by (simp add: infer_collection_value_type_def)
  then have "set (map (value_type N) vs) = {Some t}"
    using arg_cong [OF x, of set] by simp
  then show "vs \<noteq> [] \<and> (\<forall>v \<in> set vs. value_type N v = Some t)" by auto
next
  assume R: "vs \<noteq> [] \<and> (\<forall>v \<in> set vs. value_type N v = Some t)"
  then have "map (value_type N) vs = replicate (length vs) (Some t)"
    by (intro replicate_eqI) auto
  moreover have "remdups (replicate n x) = (if n = 0 then [] else [x])" for n and x :: "payload_schema_type option"
    by (induction n) auto
  ultimately show "infer_collection_value_type N vs = Some t"
    using R by (simp add: infer_collection_value_type_def)
qed

theorem infer_collection_value_type_iff_witness:
  "infer_collection_value_type int_numbers [JString ''x'', JString ''y''] = Some Keyword"
  by (simp add: infer_collection_value_type_iff)

end
