(* ===== verification/Point_Types.thy ===== *)
theory Point_Types
  imports Json_Payload
begin

text \<open>
  The types every component shares: point identifiers with their order, the error type of segment
  operations (\<open>lib/segment/src/entry/entry_point.rs\<close>) and scored search results
  (\<open>lib/segment/src/types.rs\<close>).

  Sequence numbers (\<open>u64\<close>) and point offsets (\<open>u32\<close>) are natural numbers: the code only compares them
  and takes maxima, and the one narrowing cast is \<open>u32_of_usize\<close>. Scores are a linearly ordered type
  \<open>'s\<close>: the code orders them by \<open>OrderedFloat\<close> and computes nothing else with them here. An error
  carries the constant part of its message.
\<close>

section \<open>Point identifiers\<close>

datatype point_id = NumId "64 word" | Uuid "128 word"

text \<open>The derived order: every numeric id is below every UUID.\<close>

instantiation point_id :: linorder
begin

fun less_eq_point_id :: "point_id \<Rightarrow> point_id \<Rightarrow> bool" where
  "less_eq_point_id (NumId a) (NumId b) = (a \<le> b)"
| "less_eq_point_id (NumId _) (Uuid _) = True"
| "less_eq_point_id (Uuid _) (NumId _) = False"
| "less_eq_point_id (Uuid a) (Uuid b) = (a \<le> b)"

definition less_point_id :: "point_id \<Rightarrow> point_id \<Rightarrow> bool" where
  "less_point_id a b \<longleftrightarrow> a \<le> b \<and> \<not> b \<le> a"

instance
proof
  fix x y z :: point_id
  show "x < y \<longleftrightarrow> x \<le> y \<and> \<not> y \<le> x" by (rule less_point_id_def)
  show "x \<le> x" by (cases x) auto
  show "x \<le> y \<Longrightarrow> y \<le> z \<Longrightarrow> x \<le> z" by (cases x; cases y; cases z) auto
  show "x \<le> y \<Longrightarrow> y \<le> x \<Longrightarrow> x = y" by (cases x; cases y) auto
  show "x \<le> y \<or> y \<le> x" by (cases x; cases y) auto
qed

end

lemma point_id_less_simps [simp]:
  "NumId a < NumId b \<longleftrightarrow> a < b" "NumId a < Uuid v" "\<not> Uuid v < NumId a" "Uuid v < Uuid w \<longleftrightarrow> v < w"
  by (auto simp: less_point_id_def)

type_synonym point_offset = nat
type_synonym seq_number = nat

definition u32_of_usize :: "nat \<Rightarrow> point_offset" where
  "u32_of_usize n = n mod 2 ^ 32"

lemma u32_of_usize_id [simp]: "n < 2 ^ 32 \<Longrightarrow> u32_of_usize n = n"
  by (simp add: u32_of_usize_def)

section \<open>Errors\<close>

datatype op_error =
    WrongVector nat nat
  | VectorNameNotExists string
  | MissedVectorName string
  | PointIdError point_id
  | TypeError string string
  | TypeInferenceError string
  | ServiceError string
  | Cancelled string

record segment_failed_state =
  failed_version :: seq_number
  failed_point_id :: "point_id option"
  failed_error :: op_error

text \<open>\<open>get_service_error\<close>: the error of a result when it is a service error.\<close>

definition get_service_error :: "op_error + 'a \<Rightarrow> op_error option" where
  "get_service_error r =
     (case r of Inl (ServiceError d) \<Rightarrow> Some (ServiceError d) | _ \<Rightarrow> None)"

definition check_process_stopped :: "bool \<Rightarrow> op_error + unit" where
  "check_process_stopped stopped =
     (if stopped then Inl (Cancelled ''process cancelled by service'') else Inr ())"

lemma get_service_error_Inr [simp]: "get_service_error (Inr a) = None"
  by (simp add: get_service_error_def)

lemma get_service_error_eq_Some:
  "get_service_error r = Some e \<longleftrightarrow> (\<exists>d. r = Inl (ServiceError d) \<and> e = ServiceError d)"
  by (auto simp: get_service_error_def split: sum.splits op_error.splits)

section \<open>Search results\<close>

type_synonym 'f named_vectors = "(string \<times> 'f list) list"

record ('s, 'n, 'v) scored_point =
  sp_id :: point_id
  sp_version :: seq_number
  sp_score :: 's
  sp_payload :: "'n payload option"
  sp_vector :: "'v option"

end
