(* ===== verification/Filters.thy ===== *)
theory Filters
  imports Point_Types
begin

text \<open>
  Payload filters: the condition types of \<open>lib/segment/src/types.rs\<close> and their evaluation against a
  payload in \<open>lib/segment/src/payload_storage/condition_checker.rs\<close> and \<open>query_checker.rs\<close>.

  Two parameters stand for code outside the repository: \<open>N\<close>, the accessors of JSON numbers, and \<open>hav\<close>,
  the haversine distance of the geo crate.
\<close>

section \<open>Conditions\<close>

datatype value_variants = VKeyword string | VInteger int | VBool bool

datatype any_variants = Keywords "string list" | Integers "int list"

datatype match_cond = MatchValue value_variants | MatchText string | MatchAny any_variants

record range =
  range_lt :: "f64 option"
  range_gt :: "f64 option"
  range_gte :: "f64 option"
  range_lte :: "f64 option"

record values_count =
  count_lt :: "nat option"
  count_gt :: "nat option"
  count_gte :: "nat option"
  count_lte :: "nat option"

record geo_point =
  geo_lon :: f64
  geo_lat :: f64

record geo_bounding_box =
  top_left :: geo_point
  bottom_right :: geo_point

record geo_radius =
  geo_center :: geo_point
  radius :: f64

record field_condition =
  fc_key :: string
  fc_match :: "match_cond option"
  fc_range :: "range option"
  fc_geo_bounding_box :: "geo_bounding_box option"
  fc_geo_radius :: "geo_radius option"
  fc_values_count :: "values_count option"

datatype condition =
    CField field_condition
  | CIsEmpty string
  | CIsNull string
  | CHasId "point_id set"
  | CFilter filter_query
and filter_query =
  FilterQuery (f_should: "condition list option") (f_must: "condition list option")
    (f_must_not: "condition list option")

type_synonym haversine = "f64 \<times> f64 \<Rightarrow> f64 \<times> f64 \<Rightarrow> f64"

definition match_of_bool :: "bool \<Rightarrow> match_cond" where
  "match_of_bool flag = MatchValue (VBool flag)"

definition match_of_string :: "string \<Rightarrow> match_cond" where
  "match_of_string keyword = MatchValue (VKeyword keyword)"

definition match_of_int :: "int \<Rightarrow> match_cond" where
  "match_of_int integer = MatchValue (VInteger integer)"

definition match_of_strings :: "string list \<Rightarrow> match_cond" where
  "match_of_strings keywords = MatchAny (Keywords keywords)"

definition match_of_ints :: "int list \<Rightarrow> match_cond" where
  "match_of_ints integers = MatchAny (Integers integers)"

definition new_match :: "string \<Rightarrow> match_cond \<Rightarrow> field_condition" where
  "new_match key m =
     \<lparr>fc_key = key, fc_match = Some m, fc_range = None,
      fc_geo_bounding_box = None, fc_geo_radius = None, fc_values_count = None\<rparr>"

definition new_range :: "string \<Rightarrow> range \<Rightarrow> field_condition" where
  "new_range key r =
     \<lparr>fc_key = key, fc_match = None, fc_range = Some r,
      fc_geo_bounding_box = None, fc_geo_radius = None, fc_values_count = None\<rparr>"

definition new_geo_bounding_box :: "string \<Rightarrow> geo_bounding_box \<Rightarrow> field_condition" where
  "new_geo_bounding_box key b =
     \<lparr>fc_key = key, fc_match = None, fc_range = None,
      fc_geo_bounding_box = Some b, fc_geo_radius = None, fc_values_count = None\<rparr>"

definition new_geo_radius :: "string \<Rightarrow> geo_radius \<Rightarrow> field_condition" where
  "new_geo_radius key r =
     \<lparr>fc_key = key, fc_match = None, fc_range = None,
      fc_geo_bounding_box = None, fc_geo_radius = Some r, fc_values_count = None\<rparr>"

definition new_values_count :: "string \<Rightarrow> values_count \<Rightarrow> field_condition" where
  "new_values_count key c =
     \<lparr>fc_key = key, fc_match = None, fc_range = None,
      fc_geo_bounding_box = None, fc_geo_radius = None, fc_values_count = Some c\<rparr>"

definition new_should :: "condition \<Rightarrow> filter_query" where
  "new_should c = FilterQuery (Some [c]) None None"

definition new_must :: "condition \<Rightarrow> filter_query" where
  "new_must c = FilterQuery None (Some [c]) None"

definition new_must_not :: "condition \<Rightarrow> filter_query" where
  "new_must_not c = FilterQuery None None (Some [c])"

section \<open>Checks on single values\<close>

definition opt_bound :: "('a \<Rightarrow> bool) \<Rightarrow> 'a option \<Rightarrow> bool" where
  "opt_bound f x = (case x of None \<Rightarrow> True | Some a \<Rightarrow> f a)"

definition check_range :: "range \<Rightarrow> f64 \<Rightarrow> bool" where
  "check_range r number \<longleftrightarrow>
     opt_bound (\<lambda>x. f64_lt number x) (range_lt r)
     \<and> opt_bound (\<lambda>x. f64_lt x number) (range_gt r)
     \<and> opt_bound (\<lambda>x. f64_le number x) (range_lte r)
     \<and> opt_bound (\<lambda>x. f64_le x number) (range_gte r)"

fun value_count :: "'n json \<Rightarrow> nat" where
  "value_count JNull = 0"
| "value_count (JArray array) = length array"
| "value_count _ = 1"

definition check_count :: "values_count \<Rightarrow> 'n json \<Rightarrow> bool" where
  "check_count vc v \<longleftrightarrow>
     (let count = value_count v
      in opt_bound (\<lambda>x. count < x) (count_lt vc) \<and> opt_bound (\<lambda>x. x < count) (count_gt vc)
         \<and> opt_bound (\<lambda>x. count \<le> x) (count_lte vc) \<and> opt_bound (\<lambda>x. x \<le> count) (count_gte vc))"

definition box_check_point :: "geo_bounding_box \<Rightarrow> f64 \<Rightarrow> f64 \<Rightarrow> bool" where
  "box_check_point b lon lat \<longleftrightarrow>
     f64_lt (geo_lon (top_left b)) lon \<and> f64_lt lon (geo_lon (bottom_right b))
     \<and> f64_lt (geo_lat (bottom_right b)) lat \<and> f64_lt lat (geo_lat (top_left b))"

definition radius_check_point :: "haversine \<Rightarrow> geo_radius \<Rightarrow> f64 \<Rightarrow> f64 \<Rightarrow> bool" where
  "radius_check_point hav r lon lat \<longleftrightarrow>
     f64_lt (hav (geo_lon (geo_center r), geo_lat (geo_center r)) (lon, lat)) (radius r)"

text \<open>\<open>str::contains\<close>\<close>

definition str_contains :: "string \<Rightarrow> string \<Rightarrow> bool" where
  "str_contains s t \<longleftrightarrow> list_ex (\<lambda>i. take (length t) (drop i s) = t) [0..<Suc (length s)]"

fun match_check_match :: "'n number_api \<Rightarrow> match_cond \<Rightarrow> 'n json \<Rightarrow> bool" where
  "match_check_match N (MatchValue (VBool val)) (JBool stored) = (stored = val)"
| "match_check_match N (MatchValue (VKeyword val)) (JString stored) = (stored = val)"
| "match_check_match N (MatchValue (VInteger val)) (JNumber stored) = (as_i64 N stored = Some val)"
| "match_check_match N (MatchText text) (JString stored) = str_contains stored text"
| "match_check_match N (MatchAny (Keywords list)) (JString stored) = (stored \<in> set list)"
| "match_check_match N (MatchAny (Integers list)) (JNumber stored) =
     (case as_i64 N stored of None \<Rightarrow> False | Some num \<Rightarrow> num \<in> set list)"
| "match_check_match N _ _ = False"

fun range_check_match :: "'n number_api \<Rightarrow> range \<Rightarrow> 'n json \<Rightarrow> bool" where
  "range_check_match N r (JNumber num) =
     (case as_f64 N num of None \<Rightarrow> False | Some number \<Rightarrow> check_range r number)"
| "range_check_match N r _ = False"

fun box_check_match :: "'n number_api \<Rightarrow> geo_bounding_box \<Rightarrow> 'n json \<Rightarrow> bool" where
  "box_check_match N b (JObject obj) =
     (case geo_coordinates N obj of None \<Rightarrow> False | Some (lon, lat) \<Rightarrow> box_check_point b lon lat)"
| "box_check_match N b _ = False"

fun radius_check_match :: "'n number_api \<Rightarrow> haversine \<Rightarrow> geo_radius \<Rightarrow> 'n json \<Rightarrow> bool" where
  "radius_check_match N hav r (JObject obj) =
     (case geo_coordinates N obj of None \<Rightarrow> False | Some (lon, lat) \<Rightarrow> radius_check_point hav r lon lat)"
| "radius_check_match N hav r _ = False"

text \<open>The default method \<open>ValueChecker::check\<close>: an array matches when one of its elements does.\<close>

fun value_check :: "('n json \<Rightarrow> bool) \<Rightarrow> 'n json \<Rightarrow> bool" where
  "value_check check_match (JArray values) = list_ex check_match values"
| "value_check check_match payload = check_match payload"

section \<open>Checks on payloads\<close>

definition opt_check :: "('c \<Rightarrow> bool) \<Rightarrow> 'c option \<Rightarrow> bool" where
  "opt_check f x = (case x of None \<Rightarrow> False | Some c \<Rightarrow> f c)"

definition check_field_value ::
    "'n number_api \<Rightarrow> haversine \<Rightarrow> field_condition \<Rightarrow> bool \<Rightarrow> 'n json \<Rightarrow> bool" where
  "check_field_value N hav fc res p =
     (res \<or> opt_check (\<lambda>c. value_check (match_check_match N c) p) (fc_match fc)
      \<or> opt_check (\<lambda>c. value_check (range_check_match N c) p) (fc_range fc)
      \<or> opt_check (\<lambda>c. value_check (radius_check_match N hav c) p) (fc_geo_radius fc)
      \<or> opt_check (\<lambda>c. value_check (box_check_match N c) p) (fc_geo_bounding_box fc)
      \<or> opt_check (\<lambda>c. check_count c p) (fc_values_count fc))"

definition check_field_condition ::
    "'n number_api \<Rightarrow> haversine \<Rightarrow> field_condition \<Rightarrow> 'n payload \<Rightarrow> bool" where
  "check_field_condition N hav fc payload =
     foldl (check_field_value N hav fc) False (mv_iter (payload_get_value payload (fc_key fc)))"

definition check_is_empty_condition :: "string \<Rightarrow> 'n payload \<Rightarrow> bool" where
  "check_is_empty_condition key payload = check_is_empty (payload_get_value payload key)"

definition check_is_null_condition :: "string \<Rightarrow> 'n payload \<Rightarrow> bool" where
  "check_is_null_condition key payload = check_is_null (payload_get_value payload key)"

lemma size_le_size_list: "x \<in> set xs \<Longrightarrow> size x \<le> size_list size xs"
  by (induction xs) auto

function (sequential) check_condition :: "(condition \<Rightarrow> bool) \<Rightarrow> condition \<Rightarrow> bool"
  and check_filter :: "(condition \<Rightarrow> bool) \<Rightarrow> filter_query \<Rightarrow> bool" where
  "check_condition checker (CFilter f) = check_filter checker f"
| "check_condition checker c = checker c"
| "check_filter checker (FilterQuery should must must_not) \<longleftrightarrow>
     (case should of None \<Rightarrow> True | Some cs \<Rightarrow> list_ex (check_condition checker) cs)
     \<and> (case must of None \<Rightarrow> True | Some cs \<Rightarrow> list_all (check_condition checker) cs)
     \<and> (case must_not of None \<Rightarrow> True | Some cs \<Rightarrow> list_all (\<lambda>c. \<not> check_condition checker c) cs)"
  by pat_completeness auto
termination
  by (relation "measure (\<lambda>x. case x of Inl (_, c) \<Rightarrow> size c | Inr (_, f) \<Rightarrow> size f)")
    (auto simp: less_Suc_eq_le dest!: size_le_size_list)

text \<open>
  The closure passed to \<open>check_filter\<close>. Its \<open>unreachable!()\<close> arm for nested filters is the last
  equation; \<open>check_filter_leaves\<close> below shows that it never contributes to a result.
\<close>

fun payload_checker ::
    "'n number_api \<Rightarrow> haversine \<Rightarrow> 'n payload \<Rightarrow> point_id option \<Rightarrow> condition \<Rightarrow> bool" where
  "payload_checker N hav payload ext (CField fc) = check_field_condition N hav fc payload"
| "payload_checker N hav payload ext (CIsEmpty key) = check_is_empty_condition key payload"
| "payload_checker N hav payload ext (CIsNull key) = check_is_null_condition key payload"
| "payload_checker N hav payload ext (CHasId ids) =
     (case ext of None \<Rightarrow> False | Some external_id \<Rightarrow> external_id \<in> ids)"
| "payload_checker N hav payload ext (CFilter f) = False"

definition check_payload ::
    "'n number_api \<Rightarrow> haversine \<Rightarrow> 'n payload \<Rightarrow> (nat \<Rightarrow> point_id option) \<Rightarrow> filter_query \<Rightarrow> nat \<Rightarrow> bool" where
  "check_payload N hav payload external_id query point =
     check_filter (payload_checker N hav payload (external_id point)) query"

section \<open>The value checkers\<close>

text \<open>
  The contract of the trait \<open>ValueChecker\<close> for the implementations that keep its default method \<open>check\<close>:
  \<open>check_match\<close> only accepts scalar values and objects. \<open>ValuesCount\<close> overrides \<open>check\<close> and counts the
  elements of the array instead.
\<close>

fun json_elements :: "'n json \<Rightarrow> 'n json list" where
  "json_elements (JArray vs) = vs"
| "json_elements v = [v]"

locale value_checker =
  fixes check_match :: "'n json \<Rightarrow> bool"
  assumes no_array: "\<not> check_match (JArray vs)"
begin

lemma check_iff: "value_check check_match v \<longleftrightarrow> (\<exists>x \<in> set (json_elements v). check_match x)"
  by (cases v) (auto simp: list_ex_iff)

lemma check_nested_array: "\<not> value_check check_match (JArray [JArray vs])"
  by (simp add: no_array)

lemma check_empty_array: "\<not> value_check check_match (JArray [])"
  by simp

lemma check_append:
  "value_check check_match (JArray (vs @ ws))
     \<longleftrightarrow> value_check check_match (JArray vs) \<or> value_check check_match (JArray ws)"
  by simp

end

lemma match_check_no_array [simp]: "\<not> match_check_match N m (JArray vs)"
  by (cases m rule: match_cond.exhaust)
    (auto split: value_variants.split any_variants.split simp: match_check_match.simps
      elim!: match_check_match.elims)

interpretation match_vc: value_checker "match_check_match N m"
  by unfold_locales simp

interpretation range_vc: value_checker "range_check_match N r"
  by unfold_locales simp

interpretation box_vc: value_checker "box_check_match N b"
  by unfold_locales simp

interpretation radius_vc: value_checker "radius_check_match N hav r"
  by unfold_locales simp

section \<open>Meaning of conditions and filters\<close>

lemma opt_check_iff: "opt_check f x \<longleftrightarrow> (\<exists>c. x = Some c \<and> f c)"
  by (cases x) (simp_all add: opt_check_def)

lemma foldl_check_field_value:
  "foldl (check_field_value N hav fc) res ps
     \<longleftrightarrow> res \<or> (\<exists>p \<in> set ps. check_field_value N hav fc False p)"
  by (induction ps arbitrary: res) (auto simp: check_field_value_def)

lemma check_field_condition_iff:
  "check_field_condition N hav fc payload
     \<longleftrightarrow> (\<exists>p \<in> set (mv_values (payload_get_value payload (fc_key fc))).
           check_field_value N hav fc False p)"
  by (simp add: check_field_condition_def foldl_check_field_value)

lemma check_filter_new [simp]:
  "check_filter checker (new_must c) = check_condition checker c"
  "check_filter checker (new_should c) = check_condition checker c"
  "check_filter checker (new_must_not c) = (\<not> check_condition checker c)"
  by (simp_all add: new_must_def new_should_def new_must_not_def)

text \<open>The leaf conditions of a filter: the ones the checker is called on.\<close>

function (sequential) condition_leaves :: "condition \<Rightarrow> condition list"
  and filter_leaves :: "filter_query \<Rightarrow> condition list" where
  "condition_leaves (CFilter f) = filter_leaves f"
| "condition_leaves c = [c]"
| "filter_leaves (FilterQuery should must must_not) =
     concat (map condition_leaves (case should of None \<Rightarrow> [] | Some cs \<Rightarrow> cs))
     @ concat (map condition_leaves (case must of None \<Rightarrow> [] | Some cs \<Rightarrow> cs))
     @ concat (map condition_leaves (case must_not of None \<Rightarrow> [] | Some cs \<Rightarrow> cs))"
  by pat_completeness auto
termination
  by (relation "measure (\<lambda>x. case x of Inl c \<Rightarrow> size c | Inr f \<Rightarrow> size f)")
    (auto simp: less_Suc_eq_le split: option.splits dest!: size_le_size_list)

fun is_leaf :: "condition \<Rightarrow> bool" where
  "is_leaf (CFilter f) = False"
| "is_leaf _ = True"

lemma condition_leaves_are_leaves:
  "c' \<in> set (condition_leaves c) \<Longrightarrow> is_leaf c'"
  "c' \<in> set (filter_leaves f) \<Longrightarrow> is_leaf c'"
  by (induction c and f rule: condition_leaves_filter_leaves.induct) (auto split: option.splits)

lemma check_filter_leaves_cong:
  "(\<And>x. x \<in> set (condition_leaves c) \<Longrightarrow> p x = q x) \<Longrightarrow> check_condition p c = check_condition q c"
  "(\<And>x. x \<in> set (filter_leaves f) \<Longrightarrow> p x = q x) \<Longrightarrow> check_filter p f = check_filter q f"
proof (induction c and f rule: condition_leaves_filter_leaves.induct)
  case (3 should must must_not)
  have "check_condition p c = check_condition q c"
    if "c \<in> set (case should of None \<Rightarrow> [] | Some cs \<Rightarrow> cs)" for c
    by (rule "3.IH"(1) [OF that]) (use that in \<open>auto intro!: "3.prems"\<close>)
  moreover have "check_condition p c = check_condition q c"
    if "c \<in> set (case must of None \<Rightarrow> [] | Some cs \<Rightarrow> cs)" for c
    by (rule "3.IH"(2) [OF that]) (use that in \<open>auto intro!: "3.prems"\<close>)
  moreover have "check_condition p c = check_condition q c"
    if "c \<in> set (case must_not of None \<Rightarrow> [] | Some cs \<Rightarrow> cs)" for c
    by (rule "3.IH"(3) [OF that]) (use that in \<open>auto intro!: "3.prems"\<close>)
  ultimately show ?case
    by (simp add: list_ex_iff list_all_iff split: option.splits)
qed auto

text \<open>
  C19. The verdict of \<open>check_filter\<close> depends on the checker only through its answers on the leaf
  conditions of the filter, none of which is a nested filter: the \<open>unreachable!()\<close> arm of the checkers
  built by \<open>check_payload\<close> is never reached.
\<close>

theorem check_filter_leaves:
  "\<forall>c. is_leaf c \<longrightarrow> p c = q c \<Longrightarrow> check_filter p f = check_filter q f"
  using check_filter_leaves_cong(2) [of f p q] condition_leaves_are_leaves(2) by blast

theorem check_filter_leaves_witness:
  "check_filter (\<lambda>c. True) (new_must_not (CFilter (new_should (CIsNull ''a''))))
     = check_filter is_leaf (new_must_not (CFilter (new_should (CIsNull ''a''))))"
  by (rule check_filter_leaves) simp

text \<open>
  C20. A field condition accepts a payload exactly when some value found at its key is accepted by one of
  the condition's parts: by a match, range, radius or bounding box condition through the value itself or
  through one element of the array it is, by the values count through the number of its elements.
\<close>

theorem check_field_condition_spec:
  "check_field_condition N hav fc payload \<longleftrightarrow>
     (\<exists>v \<in> set (mv_values (payload_get_value payload (fc_key fc))).
        (\<exists>c. fc_values_count fc = Some c \<and> check_count c v)
        \<or> (\<exists>x \<in> set (json_elements v).
             (\<exists>m. fc_match fc = Some m \<and> match_check_match N m x)
             \<or> (\<exists>r. fc_range fc = Some r \<and> range_check_match N r x)
             \<or> (\<exists>r. fc_geo_radius fc = Some r \<and> radius_check_match N hav r x)
             \<or> (\<exists>b. fc_geo_bounding_box fc = Some b \<and> box_check_match N b x)))"
proof -
  have "check_field_value N hav fc False v \<longleftrightarrow>
      (\<exists>c. fc_values_count fc = Some c \<and> check_count c v)
      \<or> (\<exists>x \<in> set (json_elements v).
           (\<exists>m. fc_match fc = Some m \<and> match_check_match N m x)
           \<or> (\<exists>r. fc_range fc = Some r \<and> range_check_match N r x)
           \<or> (\<exists>r. fc_geo_radius fc = Some r \<and> radius_check_match N hav r x)
           \<or> (\<exists>b. fc_geo_bounding_box fc = Some b \<and> box_check_match N b x))" for v
    unfolding check_field_value_def opt_check_iff match_vc.check_iff range_vc.check_iff
      box_vc.check_iff radius_vc.check_iff
    by blast
  then show ?thesis
    unfolding check_field_condition_iff by blast
qed

end
