(* ===== verification/Key_Encoding.thy ===== *)
theory Key_Encoding
  imports Prelude
begin

text \<open>
  Order preserving keys of the numeric payload index (\<open>lib/segment/src/index/key_encoding.rs\<close>). A key is a
  byte vector, compared lexicographically by the B-tree map and by the key value store. Machine numbers
  keep their width: an \<open>i64\<close> is a 64 bit word read with \<open>sint\<close>, an \<open>f64\<close> is the word of its IEEE 754 bits.
\<close>

unbundle bit_operations_syntax

section \<open>Big-endian bytes\<close>

type_synonym u8 = "8 word"
type_synonym u32 = "32 word"
type_synonym u64 = "64 word"
type_synonym bytes = "u8 list"

primrec be_bytes :: "nat \<Rightarrow> nat \<Rightarrow> bytes" where
  "be_bytes 0 x = []"
| "be_bytes (Suc n) x = word_of_nat (x div 256 ^ n) # be_bytes n (x mod 256 ^ n)"

definition be_value :: "bytes \<Rightarrow> nat" where
  "be_value bs = foldl (\<lambda>acc b. 256 * acc + unat b) 0 bs"

definition u64_to_be_bytes :: "u64 \<Rightarrow> bytes" where
  "u64_to_be_bytes w = be_bytes 8 (unat w)"

definition u32_to_be_bytes :: "u32 \<Rightarrow> bytes" where
  "u32_to_be_bytes w = be_bytes 4 (unat w)"

definition u64_from_be_bytes :: "bytes \<Rightarrow> u64" where
  "u64_from_be_bytes bs = word_of_nat (be_value bs)"

definition u32_from_be_bytes :: "bytes \<Rightarrow> u32" where
  "u32_from_be_bytes bs = word_of_nat (be_value bs)"

lemma length_be_bytes [simp]: "length (be_bytes n x) = n"
  by (induction n arbitrary: x) auto

lemma unat_byte: "x < 256 \<Longrightarrow> unat (word_of_nat x :: u8) = x"
  by (simp add: unat_of_nat)

lemma be_bytes_head: "x < 256 ^ Suc n \<Longrightarrow> x div 256 ^ n < (256::nat)"
  by (simp add: less_mult_imp_div_less mult.commute)

lemma foldl_be_value:
  fixes bs :: bytes
  shows "foldl (\<lambda>acc b. 256 * acc + unat b) a bs
    = a * 256 ^ length bs + foldl (\<lambda>acc b. 256 * acc + unat b) 0 bs"
proof (induction bs arbitrary: a)
  case (Cons b bs)
  show ?case
    unfolding foldl_Cons Cons.IH [of "256 * a + unat b"] Cons.IH [of "256 * 0 + unat b"]
    by (simp add: algebra_simps)
qed simp

lemma be_value_Cons: "be_value (b # bs) = unat b * 256 ^ length bs + be_value bs"
  by (simp add: be_value_def foldl_be_value [of "unat b"])

lemma be_value_bytes: "x < 256 ^ n \<Longrightarrow> be_value (be_bytes n x) = x"
proof (induction n arbitrary: x)
  case (Suc n)
  then show ?case
    by (simp add: be_value_Cons unat_byte be_bytes_head del: power_Suc) (simp add: div_mult_mod_eq)
qed (simp add: be_value_def)

lemma byte_less_iff:
  "\<lbrakk>x < 256; y < 256\<rbrakk> \<Longrightarrow> (word_of_nat x :: u8) < word_of_nat y \<longleftrightarrow> x < y"
  by (simp add: word_less_nat_alt unat_byte)

lemma byte_eq_iff:
  "\<lbrakk>x < 256; y < 256\<rbrakk> \<Longrightarrow> (word_of_nat x :: u8) = word_of_nat y \<longleftrightarrow> x = y"
  by (metis unat_byte)

lemma div_mod_less_iff:
  "(x::nat) < y \<longleftrightarrow> x div b < y div b \<or> x div b = y div b \<and> x mod b < y mod b" if "0 < b"
proof (cases "x div b = y div b")
  case True
  then show ?thesis
    by (metis div_mult_mod_eq nat_add_left_cancel_less less_irrefl)
next
  case False
  then show ?thesis
    by (metis div_le_mono le_neq_implies_less less_imp_le linorder_not_le)
qed

lemma be_bytes_less_iff:
  "\<lbrakk>x < 256 ^ n; y < 256 ^ n\<rbrakk> \<Longrightarrow> be_bytes n x < be_bytes n y \<longleftrightarrow> x < y"
proof (induction n arbitrary: x y)
  case (Suc n)
  have "be_bytes n (x mod 256 ^ n) < be_bytes n (y mod 256 ^ n) \<longleftrightarrow> x mod 256 ^ n < y mod 256 ^ n"
    by (rule Suc.IH) simp_all
  then show ?case
    using Suc.prems div_mod_less_iff [of "256 ^ n" x y]
    by (simp add: byte_less_iff byte_eq_iff be_bytes_head)
qed simp

lemma append_less_iff:
  fixes xs ys :: "'a::linorder list"
  assumes "length xs = length ys"
  shows "xs @ us < ys @ vs \<longleftrightarrow> xs < ys \<or> xs = ys \<and> us < vs"
  using assms by (induction xs ys rule: list_induct2) auto

lemma unat_less_256_power:
  "unat (v :: u64) < 256 ^ 8" "unat (w :: u32) < 256 ^ 4"
proof -
  have "unat v < 2 ^ LENGTH(64)" "unat w < 2 ^ LENGTH(32)"
    by (rule unsigned_less)+
  then show "unat v < 256 ^ 8" "unat w < 256 ^ 4"
    by simp_all
qed

lemma u64_bytes_less_iff [simp]: "u64_to_be_bytes a < u64_to_be_bytes b \<longleftrightarrow> a < b"
  using unat_less_256_power
  by (simp add: u64_to_be_bytes_def be_bytes_less_iff word_less_nat_alt)

lemma u32_bytes_less_iff [simp]: "u32_to_be_bytes a < u32_to_be_bytes b \<longleftrightarrow> a < b"
  using unat_less_256_power
  by (simp add: u32_to_be_bytes_def be_bytes_less_iff word_less_nat_alt)

lemma u64_from_to_be_bytes [simp]: "u64_from_be_bytes (u64_to_be_bytes w) = w"
  using unat_less_256_power
  by (simp add: u64_from_be_bytes_def u64_to_be_bytes_def be_value_bytes)

lemma u32_from_to_be_bytes [simp]: "u32_from_be_bytes (u32_to_be_bytes w) = w"
  using unat_less_256_power
  by (simp add: u32_from_be_bytes_def u32_to_be_bytes_def be_value_bytes)

lemma length_to_be_bytes [simp]:
  "length (u64_to_be_bytes v) = 8" "length (u32_to_be_bytes w) = 4"
  by (simp_all add: u64_to_be_bytes_def u32_to_be_bytes_def)

lemma u64_bytes_eq_iff [simp]: "u64_to_be_bytes a = u64_to_be_bytes b \<longleftrightarrow> a = b"
  by (metis u64_from_to_be_bytes)

section \<open>Signed integers\<close>

definition i64_MIN :: u64 where
  "i64_MIN = push_bit 63 1"

definition encode_i64_ascending :: "u64 \<Rightarrow> bytes" where
  "encode_i64_ascending val = u64_to_be_bytes (val XOR i64_MIN)"

text \<open>\<open>None\<close> is the panic of the decoders on a buffer of the wrong length.\<close>

definition decode_i64_ascending :: "bytes \<Rightarrow> u64 option" where
  "decode_i64_ascending buf =
     (if length buf < 8 then None else Some (u64_from_be_bytes (take 8 buf) XOR i64_MIN))"

definition encode_i64_key_ascending :: "u64 \<Rightarrow> u32 \<Rightarrow> bytes" where
  "encode_i64_key_ascending key_val point_offset =
     encode_i64_ascending key_val @ u32_to_be_bytes point_offset"

definition decode_i64_key_ascending :: "bytes \<Rightarrow> (u32 \<times> u64) option" where
  "decode_i64_key_ascending buf =
     (if length buf \<noteq> 12 then None
      else map_option (\<lambda>v. (u32_from_be_bytes (drop (12 - 4) buf), v)) (decode_i64_ascending buf))"

lemma uint_xor_sign: "uint (v XOR i64_MIN) = sint v + 2 ^ 63" for v :: u64
proof -
  have "uint i64_MIN = push_bit 63 1"
    by (simp add: i64_MIN_def)
  then have flip: "uint (v XOR i64_MIN) = flip_bit 63 (uint v)"
    by (simp add: unsigned_xor_eq flip_bit_eq_xor)
  have "uint v < 2 ^ LENGTH(64)"
    by (rule unsigned_less)
  then show ?thesis
    using signed_take_bit_eq_take_bit_minus [of 63 "uint v"]
    by (simp add: flip flip_bit_eq_if set_bit_eq unset_bit_eq sint_uint take_bit_int_eq_self)
qed

lemma xor_sign_less_iff: "v XOR i64_MIN < w XOR i64_MIN \<longleftrightarrow> sint v < sint w" for v w :: u64
  by (simp add: word_less_def uint_xor_sign)

lemma encode_i64_less_iff: "encode_i64_ascending v < encode_i64_ascending w \<longleftrightarrow> sint v < sint w"
  by (simp add: encode_i64_ascending_def xor_sign_less_iff)

lemma xor_sign_inj: "v XOR i64_MIN = w XOR i64_MIN \<longleftrightarrow> v = w" for v w :: u64
  by (metis uint_xor_sign add_right_cancel signed_word_eqI)

lemma length_encode_i64 [simp]: "length (encode_i64_ascending v) = 8"
  by (simp add: encode_i64_ascending_def)

text \<open>
  C24. Integer keys sort like the pairs of signed value and point offset: the byte order of two encoded keys
  is the order of the values, and of the offsets where the values agree.
\<close>

theorem encode_i64_key_order:
  "encode_i64_key_ascending v i < encode_i64_key_ascending w j \<longleftrightarrow>
     sint v < sint w \<or> v = w \<and> i < j"
  by (simp add: encode_i64_key_ascending_def append_less_iff encode_i64_less_iff)
    (simp add: encode_i64_ascending_def xor_sign_inj)

lemma decode_encode_i64_key [simp]:
  "decode_i64_key_ascending (encode_i64_key_ascending v i) = Some (i, v)"
  by (simp add: decode_i64_key_ascending_def encode_i64_key_ascending_def decode_i64_ascending_def)
    (simp add: encode_i64_ascending_def xor.assoc)

section \<open>Floating point numbers\<close>

text \<open>
  IEEE 754 binary64 by its bits: \<open>f64_is_nan\<close> and the order \<open>f64_bits_less\<close> of the numbers that are not
  NaN. The magnitude of a float grows with its lower 63 bits, and the sign bit negates it, so that both
  zeros have rank zero.
\<close>

definition f64_sign :: "u64 \<Rightarrow> bool" where
  "f64_sign w = bit w 63"

definition f64_magnitude :: "u64 \<Rightarrow> u64" where
  "f64_magnitude w = take_bit 63 w"

definition f64_is_nan :: "u64 \<Rightarrow> bool" where
  "f64_is_nan w \<longleftrightarrow> 0x7FF0000000000000 < f64_magnitude w"

definition f64_is_zero :: "u64 \<Rightarrow> bool" where
  "f64_is_zero w \<longleftrightarrow> f64_magnitude w = 0"

definition f64_rank :: "u64 \<Rightarrow> int" where
  "f64_rank w = (if f64_sign w then - uint (f64_magnitude w) else uint (f64_magnitude w))"

definition FLOAT_NAN :: u8 where "FLOAT_NAN = 0"
definition FLOAT_NEG :: u8 where "FLOAT_NEG = 1"
definition FLOAT_ZERO :: u8 where "FLOAT_ZERO = 2"
definition FLOAT_POS :: u8 where "FLOAT_POS = 3"

definition encode_f64_ascending :: "u64 \<Rightarrow> bytes" where
  "encode_f64_ascending val =
     (if f64_is_nan val then FLOAT_NAN # replicate 8 0
      else if f64_is_zero val then FLOAT_ZERO # replicate 8 0
      else if val AND push_bit 63 1 \<noteq> 0 then FLOAT_NEG # u64_to_be_bytes (NOT val)
      else FLOAT_POS # u64_to_be_bytes val)"

definition f64_NAN :: u64 where
  "f64_NAN = 0x7FF8000000000000"

text \<open>\<open>None\<close> is the panic on an empty buffer, a short one or an unknown prefix.\<close>

definition decode_f64_ascending :: "bytes \<Rightarrow> u64 option" where
  "decode_f64_ascending buf =
     (case buf of
        [] \<Rightarrow> None
      | tag # rest \<Rightarrow>
          if tag = FLOAT_NAN then Some f64_NAN
          else if tag = FLOAT_NEG then
            (if length rest < 8 then None else Some (NOT (u64_from_be_bytes (take 8 rest))))
          else if tag = FLOAT_ZERO then Some 0
          else if tag = FLOAT_POS then
            (if length rest < 8 then None else Some (u64_from_be_bytes (take 8 rest)))
          else None)"

definition encode_f64_key_ascending :: "u64 \<Rightarrow> u32 \<Rightarrow> bytes" where
  "encode_f64_key_ascending key_val point_offset =
     encode_f64_ascending key_val @ u32_to_be_bytes point_offset"

definition decode_f64_key_ascending :: "bytes \<Rightarrow> (u32 \<times> u64) option" where
  "decode_f64_key_ascending buf =
     (if length buf \<noteq> 13 then None
      else map_option (\<lambda>v. (u32_from_be_bytes (drop (13 - 4) buf), v)) (decode_f64_ascending buf))"

lemma sign_bit_test: "w AND push_bit 63 1 \<noteq> 0 \<longleftrightarrow> f64_sign w" for w :: u64
  by (simp add: f64_sign_def bit_iff_and_push_bit_not_eq_0)

lemma uint_sign_magnitude: "uint w = of_bool (f64_sign w) * 2 ^ 63 + uint (f64_magnitude w)" for w :: u64
proof -
  have "uint w < 2 ^ LENGTH(64)"
    by (rule unsigned_less)
  then have "take_bit (Suc 63) (uint w) = uint w"
    by (simp add: take_bit_int_eq_self)
  moreover have "take_bit (Suc 63) (uint w) = of_bool (bit (uint w) 63) * 2 ^ 63 + take_bit 63 (uint w)"
    by (subst take_bit_Suc_from_most) simp
  ultimately show ?thesis
    by (simp add: f64_sign_def f64_magnitude_def bit_uint_iff unsigned_take_bit_eq)
qed

lemma f64_less_same_sign:
  assumes "f64_sign v = f64_sign w"
  shows "v < w \<longleftrightarrow> f64_magnitude v < f64_magnitude w"
  using assms by (simp add: word_less_def uint_sign_magnitude [of v] uint_sign_magnitude [of w])

lemma f64_bits_eqI: "\<lbrakk>f64_sign v = f64_sign w; f64_magnitude v = f64_magnitude w\<rbrakk> \<Longrightarrow> v = w"
  by (simp add: word_uint_eq_iff [of v] uint_sign_magnitude [of v] uint_sign_magnitude [of w])

text \<open>The class of a float by its tag byte, and the word that follows the tag.\<close>

definition f64_tag :: "u64 \<Rightarrow> u8" where
  "f64_tag val = (if f64_is_nan val then FLOAT_NAN else if f64_is_zero val then FLOAT_ZERO
     else if f64_sign val then FLOAT_NEG else FLOAT_POS)"

definition f64_tail :: "u64 \<Rightarrow> u64" where
  "f64_tail val = (if f64_is_nan val \<or> f64_is_zero val then 0 else if f64_sign val then NOT val else val)"

lemma be_bytes_0: "be_bytes n 0 = replicate n 0"
  by (induction n) auto

lemma u64_zero_bytes: "u64_to_be_bytes 0 = replicate 8 0"
  by (simp add: u64_to_be_bytes_def be_bytes_0)

lemma encode_f64_tag_tail: "encode_f64_ascending v = f64_tag v # u64_to_be_bytes (f64_tail v)"
  unfolding encode_f64_ascending_def sign_bit_test
  by (simp add: f64_tag_def f64_tail_def u64_zero_bytes)

lemma length_encode_f64 [simp]: "length (encode_f64_ascending v) = 9"
  by (simp add: encode_f64_tag_tail)

lemma uint_not: "uint (NOT v) = 2 ^ 64 - 1 - uint v" for v :: u64
proof -
  have "uint v < 2 ^ LENGTH(64)"
    by (rule unsigned_less)
  then have bounds: "0 \<le> uint v" "uint v < 2 ^ 64"
    by simp_all
  have "uint (NOT v) = (- uint v - 1) mod 2 ^ 64"
    unfolding unsigned_not_eq by (simp add: take_bit_eq_mod not_eq_complement)
  also have "\<dots> = (2 ^ 64 - 1 - uint v) mod 2 ^ 64"
    using mod_add_self1 [of "2 ^ 64" "- uint v - 1"] by (simp add: algebra_simps)
  also have "\<dots> = 2 ^ 64 - 1 - uint v"
    by (rule mod_pos_pos_trivial) (use bounds in linarith)+
  finally show ?thesis .
qed

lemma not_less_iff: "NOT v < NOT w \<longleftrightarrow> w < v" for v w :: u64
  by (simp add: word_less_def uint_not)

lemma f64_magnitude_pos: "\<not> f64_is_zero v \<Longrightarrow> 0 < uint (f64_magnitude v)"
  by (simp add: f64_is_zero_def word_neq_0_conv word_less_def [of 0])

lemma f64_rank_class:
  "f64_is_zero v \<Longrightarrow> f64_rank v = 0"
  "\<lbrakk>\<not> f64_is_zero v; f64_sign v\<rbrakk> \<Longrightarrow> f64_rank v < 0"
  "\<lbrakk>\<not> f64_is_zero v; \<not> f64_sign v\<rbrakk> \<Longrightarrow> 0 < f64_rank v"
  using f64_magnitude_pos [of v] by (auto simp: f64_rank_def f64_is_zero_def)

lemma f64_rank_less_same_sign:
  "f64_sign v = f64_sign w \<Longrightarrow>
    f64_rank v < f64_rank w \<longleftrightarrow> (if f64_sign v then w < v else v < w)"
  by (auto simp: f64_rank_def f64_less_same_sign word_less_def [of "f64_magnitude _"])

lemma f64_rank_eq_iff:
  "\<not> f64_is_zero v \<Longrightarrow> f64_rank v = f64_rank w \<longleftrightarrow> v = w"
  using f64_rank_class [of v] f64_rank_class [of w]
  by (cases "f64_is_zero w"; cases "f64_sign v"; cases "f64_sign w")
    (auto simp: f64_rank_def word_uint_eq_iff [of "f64_magnitude _"] intro: f64_bits_eqI)

lemmas f64_tags = FLOAT_NAN_def FLOAT_NEG_def FLOAT_ZERO_def FLOAT_POS_def

lemma encode_f64_less_iff:
  assumes "\<not> f64_is_nan v" "\<not> f64_is_nan w"
  shows "encode_f64_ascending v < encode_f64_ascending w \<longleftrightarrow> f64_rank v < f64_rank w"
  using assms f64_rank_class [of v] f64_rank_class [of w] f64_rank_less_same_sign [of v w]
  by (cases "f64_is_zero v"; cases "f64_is_zero w"; cases "f64_sign v"; cases "f64_sign w")
    (auto simp: encode_f64_tag_tail f64_tag_def f64_tail_def f64_tags not_less_iff)

text \<open>
  C23. Float keys sort like the pairs of number and point offset. For numbers that are not NaN the byte order
  of two encoded keys is the IEEE order of the numbers (both zeros being the same number), and the order
  of the offsets where the numbers are equal.
\<close>

theorem encode_f64_key_order:
  assumes "\<not> f64_is_nan v" "\<not> f64_is_nan w"
  shows "encode_f64_key_ascending v i < encode_f64_key_ascending w j \<longleftrightarrow>
     f64_rank v < f64_rank w \<or> f64_rank v = f64_rank w \<and> i < j"
proof -
  have "encode_f64_ascending v = encode_f64_ascending w \<longleftrightarrow> f64_rank v = f64_rank w"
    using encode_f64_less_iff [OF assms] encode_f64_less_iff [OF assms(2,1)]
    by (metis linorder_less_linear order_less_irrefl)
  then show ?thesis
    using assms by (simp add: encode_f64_key_ascending_def append_less_iff encode_f64_less_iff)
qed

theorem encode_f64_key_order_witness:
  "encode_f64_key_ascending 0xBFF0000000000000 7 < encode_f64_key_ascending 0x3FF0000000000000 2"
  using encode_f64_key_order [of "0xBFF0000000000000" "0x3FF0000000000000" 7 2]
  by (simp add: f64_is_nan_def f64_magnitude_def f64_rank_def f64_sign_def)

text \<open>
  C25. Decoding an encoded float key gives back the point offset and the number: the same bits, except that
  the negative zero comes back as the positive one and every NaN as the standard NaN.
\<close>

theorem decode_encode_f64_key:
  "decode_f64_key_ascending (encode_f64_key_ascending v i) =
     Some (i, if f64_is_nan v then f64_NAN else if f64_is_zero v then 0 else v)"
  by (simp add: decode_f64_key_ascending_def encode_f64_key_ascending_def decode_f64_ascending_def
      encode_f64_tag_tail f64_tag_def f64_tail_def f64_tags)

end
