(* ===== verification/Db_Column.thy ===== *)
theory Db_Column
  imports Key_Encoding Point_Types
begin

text \<open>
  The column wrapper over the key value store (\<open>lib/segment/src/common/rocksdb_wrapper.rs\<close>). RocksDB is
  not part of the repository: \<open>'d rocksdb\<close> is the record of its calls on a database state \<open>'d\<close>, and
  \<open>rocks_ok\<close> states what its documentation promises about them. An error of RocksDB is its message.
\<close>

section \<open>The RocksDB interface\<close>

record 'd rocksdb =
  cf_handle :: "string \<Rightarrow> 'd \<Rightarrow> bool"
  put_cf :: "string \<Rightarrow> bytes \<Rightarrow> bytes \<Rightarrow> ('d, string, unit) st_op"
  get_cf :: "string \<Rightarrow> bytes \<Rightarrow> 'd \<Rightarrow> string + bytes option"
  delete_cf :: "string \<Rightarrow> bytes \<Rightarrow> ('d, string, unit) st_op"
  create_cf :: "string \<Rightarrow> ('d, string, unit) st_op"
  drop_cf :: "string \<Rightarrow> ('d, string, unit) st_op"
  flush_cf :: "string \<Rightarrow> ('d, string, unit) st_op"
  scan_cf :: "string \<Rightarrow> 'd \<Rightarrow> (bytes \<times> bytes) list"

text \<open>
  The documented behaviour, over the contents \<open>con d cf\<close> of the column families of a database: a call
  that fails changes nothing, one that succeeds has its effect on the named family only, and a scan from
  the first key returns the whole family in key order.
\<close>

type_synonym 'd db_contents = "'d \<Rightarrow> string \<Rightarrow> (bytes \<rightharpoonup> bytes) option"

definition cf_update ::
    "'d db_contents \<Rightarrow> string \<Rightarrow> (bytes \<rightharpoonup> bytes) option \<Rightarrow> 'd \<Rightarrow> ('e + unit) \<times> 'd \<Rightarrow> bool" where
  "cf_update con cf m d r \<longleftrightarrow>
     (case fst r of Inl _ \<Rightarrow> con (snd r) = con d | Inr _ \<Rightarrow> con (snd r) = (con d)(cf := m))"

definition rocks_ok :: "'d rocksdb \<Rightarrow> 'd db_contents \<Rightarrow> bool" where
  "rocks_ok R con \<longleftrightarrow>
     (\<forall>d cf. cf_handle R cf d = (con d cf \<noteq> None)
       \<and> cf_update con cf (Some Map.empty) d (create_cf R cf d)
       \<and> cf_update con cf None d (drop_cf R cf d)
       \<and> con (snd (flush_cf R cf d)) = con d
       \<and> (\<forall>m. con d cf = Some m \<longrightarrow>
             sorted_wrt (<) (map fst (scan_cf R cf d)) \<and> map_of (scan_cf R cf d) = m
             \<and> (\<forall>k v. cf_update con cf (Some (m(k \<mapsto> v))) d (put_cf R cf k v d)
                  \<and> cf_update con cf (Some (m(k := None))) d (delete_cf R cf k d)
                  \<and> (\<forall>r. get_cf R cf k d = Inr r \<longrightarrow> r = m k))))"

section \<open>The column wrapper\<close>

definition map_db_err :: "string \<Rightarrow> string + 'a \<Rightarrow> op_error + 'a" where
  "map_db_err msg r = (case r of Inl err \<Rightarrow> Inl (ServiceError (msg @ err)) | Inr a \<Rightarrow> Inr a)"

definition get_column_family :: "'d rocksdb \<Rightarrow> string \<Rightarrow> 'd \<Rightarrow> op_error + unit" where
  "get_column_family R cf d =
     (if cf_handle R cf d then Inr ()
      else Inl (ServiceError (''RocksDB cf_handle error: Cannot find column family '' @ cf)))"

definition col_put :: "'d rocksdb \<Rightarrow> string \<Rightarrow> bytes \<Rightarrow> bytes \<Rightarrow> ('d, op_error, unit) st_op" where
  "col_put R cf key val d =
     (case get_column_family R cf d of
        Inl e \<Rightarrow> (Inl e, d)
      | Inr _ \<Rightarrow> apfst (map_db_err ''RocksDB put_cf error: '') (put_cf R cf key val d))"

definition col_get_pinned ::
    "'d rocksdb \<Rightarrow> string \<Rightarrow> bytes \<Rightarrow> (bytes \<Rightarrow> 't) \<Rightarrow> 'd \<Rightarrow> op_error + 't option" where
  "col_get_pinned R cf key f d =
     res_bind (get_column_family R cf d) (\<lambda>_.
     res_bind (map_db_err ''RocksDB get_pinned_cf error: '' (get_cf R cf key d)) (\<lambda>r.
     Inr (map_option f r)))"

definition col_remove :: "'d rocksdb \<Rightarrow> string \<Rightarrow> bytes \<Rightarrow> ('d, op_error, unit) st_op" where
  "col_remove R cf key d =
     (case get_column_family R cf d of
        Inl e \<Rightarrow> (Inl e, d)
      | Inr _ \<Rightarrow> apfst (map_db_err ''RocksDB delete_cf error: '') (delete_cf R cf key d))"

definition col_flusher :: "'d rocksdb \<Rightarrow> string \<Rightarrow> ('d, op_error, unit) st_op" where
  "col_flusher R cf d =
     (case get_column_family R cf d of
        Inl e \<Rightarrow> (Inl e, d)
      | Inr _ \<Rightarrow> apfst (map_db_err ''RocksDB flush_cf error: '') (flush_cf R cf d))"

definition create_column_family_if_not_exists :: "'d rocksdb \<Rightarrow> string \<Rightarrow> ('d, op_error, unit) st_op" where
  "create_column_family_if_not_exists R cf d =
     (if cf_handle R cf d then (Inr (), d)
      else apfst (map_db_err ''RocksDB create_cf error: '') (create_cf R cf d))"

definition remove_column_family :: "'d rocksdb \<Rightarrow> string \<Rightarrow> ('d, op_error, unit) st_op" where
  "remove_column_family R cf d =
     (if cf_handle R cf d then apfst (map_db_err ''RocksDB drop_cf error: '') (drop_cf R cf d)
      else (Inr (), d))"

definition recreate_column_family :: "'d rocksdb \<Rightarrow> string \<Rightarrow> ('d, op_error, unit) st_op" where
  "recreate_column_family R cf =
     st_bind (remove_column_family R cf) (\<lambda>_. create_column_family_if_not_exists R cf)"

definition has_column_family :: "'d rocksdb \<Rightarrow> string \<Rightarrow> 'd \<Rightarrow> op_error + bool" where
  "has_column_family R cf d = Inr (cf_handle R cf d)"

definition col_iter :: "'d rocksdb \<Rightarrow> string \<Rightarrow> 'd \<Rightarrow> op_error + (bytes \<times> bytes) list" where
  "col_iter R cf d = res_bind (get_column_family R cf d) (\<lambda>_. Inr (scan_cf R cf d))"

text \<open>A database call of a component whose own state stands next to the shared database.\<close>

definition on_db :: "('d \<Rightarrow> ('e + 'a) \<times> 'd) \<Rightarrow> ('t \<times> 'd, 'e, 'a) st_op" where
  "on_db f s = (case f (snd s) of (r, d') \<Rightarrow> (r, (fst s, d')))"

lemma on_db_Inr: "on_db f s = (Inr u, s') \<longleftrightarrow> f (snd s) = (Inr u, snd s') \<and> fst s' = fst s"
  by (cases s') (auto simp: on_db_def split: prod.splits)

lemma fst_on_db [simp]: "fst (snd (on_db f s)) = fst s"
  by (simp add: on_db_def split: prod.splits)

section \<open>The wrapper on a store that keeps its promises\<close>

lemma rocks_okD:
  assumes "rocks_ok R con"
  shows "cf_handle R cf d \<longleftrightarrow> con d cf \<noteq> None"
    and "cf_update con cf (Some Map.empty) d (create_cf R cf d)"
    and "cf_update con cf None d (drop_cf R cf d)"
    and "con (snd (flush_cf R cf d)) = con d"
    and "con d cf = Some m \<Longrightarrow> sorted_wrt (<) (map fst (scan_cf R cf d))"
    and "con d cf = Some m \<Longrightarrow> map_of (scan_cf R cf d) = m"
    and "con d cf = Some m \<Longrightarrow> cf_update con cf (Some (m(k \<mapsto> v))) d (put_cf R cf k v d)"
    and "con d cf = Some m \<Longrightarrow> cf_update con cf (Some (m(k := None))) d (delete_cf R cf k d)"
    and "\<lbrakk>con d cf = Some m; get_cf R cf k d = Inr r\<rbrakk> \<Longrightarrow> r = m k"
  using assms unfolding rocks_ok_def by blast+

lemma col_put_ok:
  assumes "rocks_ok R con" "col_put R cf k v d = (Inr u, d')"
  shows "\<exists>m. con d cf = Some m \<and> con d' = (con d)(cf \<mapsto> m(k \<mapsto> v))"
proof -
  obtain m where m: "con d cf = Some m"
    using assms rocks_okD(1) [OF assms(1), of cf d]
    by (auto simp: col_put_def get_column_family_def split: if_splits)
  then show ?thesis
    using assms(2) rocks_okD(7) [OF assms(1) m, of k v] rocks_okD(1) [OF assms(1), of cf d]
    by (cases "put_cf R cf k v d")
      (auto simp: col_put_def get_column_family_def cf_update_def map_db_err_def split: sum.splits)
qed

lemma col_put_err:
  assumes "rocks_ok R con" "col_put R cf k v d = (Inl e, d')"
  shows "con d' = con d"
  using assms(2) rocks_okD(7) [OF assms(1), of d cf _ k v] rocks_okD(1) [OF assms(1), of cf d]
  by (cases "put_cf R cf k v d")
    (auto simp: col_put_def get_column_family_def cf_update_def map_db_err_def
      split: sum.splits if_splits)

lemma col_remove_ok:
  assumes "rocks_ok R con" "col_remove R cf k d = (Inr u, d')"
  shows "\<exists>m. con d cf = Some m \<and> con d' = (con d)(cf \<mapsto> m(k := None))"
proof -
  obtain m where m: "con d cf = Some m"
    using assms rocks_okD(1) [OF assms(1), of cf d]
    by (auto simp: col_remove_def get_column_family_def split: if_splits)
  then show ?thesis
    using assms(2) rocks_okD(8) [OF assms(1) m, of k] rocks_okD(1) [OF assms(1), of cf d]
    by (cases "delete_cf R cf k d")
      (auto simp: col_remove_def get_column_family_def cf_update_def map_db_err_def split: sum.splits)
qed

lemma col_iter_ok:
  assumes "rocks_ok R con" "con d cf = Some m"
  shows "\<exists>kvs. col_iter R cf d = Inr kvs \<and> map_of kvs = m \<and> sorted_wrt (<) (map fst kvs)"
  using assms(2) rocks_okD(1) [OF assms(1), of cf d] rocks_okD(5,6) [OF assms]
  by (auto simp: col_iter_def get_column_family_def)

section \<open>A store in memory\<close>

text \<open>
  A store that keeps the promises: association lists, with scans through a sorted copy. It instantiates
  the parameter where a concrete database is evaluated.
\<close>

type_synonym mem_db = "(string \<times> (bytes \<times> bytes) list) list"

definition mem_contents :: "mem_db db_contents" where
  "mem_contents d cf = map_option map_of (map_of d cf)"

definition mem_family :: "mem_db \<Rightarrow> string \<Rightarrow> (bytes \<times> bytes) list" where
  "mem_family d cf = (case map_of d cf of None \<Rightarrow> [] | Some kvs \<Rightarrow> kvs)"

definition mem_rocksdb :: "mem_db rocksdb" where
  "mem_rocksdb =
     \<lparr>cf_handle = (\<lambda>cf d. map_of d cf \<noteq> None),
      put_cf = (\<lambda>cf k v d. (Inr (), (cf, (k, v) # mem_family d cf) # d)),
      get_cf = (\<lambda>cf k d. Inr (map_of (mem_family d cf) k)),
      delete_cf = (\<lambda>cf k d. (Inr (), (cf, filter (\<lambda>kv. fst kv \<noteq> k) (mem_family d cf)) # d)),
      create_cf = (\<lambda>cf d. (Inr (), (cf, []) # d)),
      drop_cf = (\<lambda>cf d. (Inr (), filter (\<lambda>f. fst f \<noteq> cf) d)),
      flush_cf = (\<lambda>cf d. (Inr (), d)),
      scan_cf = (\<lambda>cf d. foldr (\<lambda>(k, v). bt_insert k v) (mem_family d cf) [])\<rparr>"

lemma map_of_filter_ne: "map_of (filter (\<lambda>kv. fst kv \<noteq> k) kvs) = (map_of kvs)(k := None)"
  by (induction kvs) auto

lemma mem_scan:
  fixes kvs :: "('k::linorder \<times> 'v) list"
  shows "bt_wf (foldr (\<lambda>(k, v). bt_insert k v) kvs [])
    \<and> map_of (foldr (\<lambda>(k, v). bt_insert k v) kvs []) = map_of kvs"
  by (induction kvs) (auto simp: bt_wf_insert bt_get_insert)

lemma rocks_ok_mem: "rocks_ok mem_rocksdb mem_contents"
proof -
  have "sorted_wrt (<) (map fst (foldr (\<lambda>(k, v). bt_insert k v) kvs []))" for kvs :: "(bytes \<times> bytes) list"
    using mem_scan [of kvs] by (simp add: bt_wf_def)
  then show ?thesis
    unfolding rocks_ok_def
    by (auto simp: mem_rocksdb_def mem_contents_def mem_family_def cf_update_def mem_scan
        map_of_filter_ne fun_eq_iff)
qed

lemma recreate_column_family_ok:
  assumes "rocks_ok R con" "recreate_column_family R cf d = (Inr u, d')"
  shows "con d' = (con d)(cf \<mapsto> Map.empty)"
proof -
  obtain d1 where d1: "remove_column_family R cf d = (Inr (), d1)"
    and d': "create_column_family_if_not_exists R cf d1 = (Inr u, d')"
    using assms(2) by (auto simp: recreate_column_family_def st_bind_def split: prod.splits sum.splits)
  have "con d1 = (con d)(cf := None)"
    using d1 rocks_okD(1,3) [OF assms(1), of cf d]
    by (cases "drop_cf R cf d")
      (auto simp: remove_column_family_def cf_update_def map_db_err_def split: sum.splits if_splits)
  then show ?thesis
    using d' rocks_okD(1,2) [OF assms(1), of cf d1]
    by (cases "create_cf R cf d1")
      (auto simp: create_column_family_if_not_exists_def cf_update_def map_db_err_def
        split: sum.splits if_splits)
qed

end
