(* ===== verification/Id_Tracker.thy ===== *)
theory Id_Tracker
  imports Db_Column
begin

text \<open>
  The id tracker of a segment (\<open>lib/segment/src/id_tracker/simple_id_tracker.rs\<close>): it maps the external
  ids of points to internal offsets and back, keeps a version per point, and persists both in the key value
  store. The serialisation crate bincode is a parameter \<open>B\<close>; the database \<open>d\<close> is shared with the other
  components of the segment, so that it is a state of its own next to the tracker.
\<close>

section \<open>Stored ids and serialisation\<close>

datatype stored_point_id = StoredNumId "64 word" | StoredUuid "128 word" | StoredString string

fun external_to_stored_id :: "point_id \<Rightarrow> stored_point_id" where
  "external_to_stored_id (NumId idx) = StoredNumId idx"
| "external_to_stored_id (Uuid uuid) = StoredUuid uuid"

text \<open>\<open>None\<close> is the \<open>unimplemented!()\<close> panic.\<close>

fun stored_to_external_id :: "stored_point_id \<Rightarrow> point_id option" where
  "stored_to_external_id (StoredNumId idx) = Some (NumId idx)"
| "stored_to_external_id (StoredUuid uuid) = Some (Uuid uuid)"
| "stored_to_external_id (StoredString _) = None"

record bincode =
  ser_point_id :: "stored_point_id \<Rightarrow> bytes"
  de_point_id :: "bytes \<Rightarrow> stored_point_id option"
  ser_usize :: "nat \<Rightarrow> bytes"
  de_u32 :: "bytes \<Rightarrow> nat option"
  ser_u64 :: "nat \<Rightarrow> bytes"
  de_u64 :: "bytes \<Rightarrow> nat option"

text \<open>
  What the tracker needs of bincode: values come back, and a \<open>u32\<close> is the low half of the little-endian
  \<open>usize\<close> that \<open>set_link\<close> writes.
\<close>

definition bincode_ok :: "bincode \<Rightarrow> bool" where
  "bincode_ok B \<longleftrightarrow>
     (\<forall>p. de_point_id B (ser_point_id B p) = Some p)
     \<and> (\<forall>n < 2 ^ 64. de_u32 B (ser_usize B n) = Some (n mod 2 ^ 32))
     \<and> (\<forall>n < 2 ^ 64. de_u64 B (ser_u64 B n) = Some n)"

definition DB_MAPPING_CF :: string where "DB_MAPPING_CF = ''mapping''"
definition DB_VERSIONS_CF :: string where "DB_VERSIONS_CF = ''version''"

definition store_key :: "bincode \<Rightarrow> point_id \<Rightarrow> bytes" where
  "store_key B external_id = ser_point_id B (external_to_stored_id external_id)"

definition restore_key :: "bincode \<Rightarrow> bytes \<Rightarrow> point_id option" where
  "restore_key B data = Option.bind (de_point_id B data) stored_to_external_id"

lemma restore_store_key [simp]: "bincode_ok B \<Longrightarrow> restore_key B (store_key B ext) = Some ext"
  by (cases ext) (simp_all add: bincode_ok_def store_key_def restore_key_def)

lemma store_key_inj: "bincode_ok B \<Longrightarrow> store_key B a = store_key B b \<longleftrightarrow> a = b"
  by (metis option.inject restore_store_key)

section \<open>State and operations\<close>

record id_tracker =
  it_deleted :: "bool list"
  it_internal_to_external :: "point_id list"
  it_internal_to_version :: "seq_number list"
  it_num :: "(64 word, point_offset) btree"
  it_uuid :: "(128 word, point_offset) btree"

definition no_external_id :: point_id where
  "no_external_id = NumId (- 1)"

fun internal_id :: "id_tracker \<Rightarrow> point_id \<Rightarrow> point_offset option" where
  "internal_id T (NumId idx) = bt_get (it_num T) idx"
| "internal_id T (Uuid uuid) = bt_get (it_uuid T) uuid"

fun insert_internal_id :: "point_id \<Rightarrow> point_offset \<Rightarrow> id_tracker \<Rightarrow> id_tracker" where
  "insert_internal_id (NumId idx) i T = T\<lparr>it_num := bt_insert idx i (it_num T)\<rparr>"
| "insert_internal_id (Uuid uuid) i T = T\<lparr>it_uuid := bt_insert uuid i (it_uuid T)\<rparr>"

fun remove_internal_id :: "point_id \<Rightarrow> id_tracker \<Rightarrow> id_tracker" where
  "remove_internal_id (NumId idx) T = T\<lparr>it_num := bt_remove idx (it_num T)\<rparr>"
| "remove_internal_id (Uuid uuid) T = T\<lparr>it_uuid := bt_remove uuid (it_uuid T)\<rparr>"

definition external_id :: "id_tracker \<Rightarrow> point_offset \<Rightarrow> point_id option" where
  "external_id T i =
     (case vec_get (it_deleted T) i of
        Some deleted \<Rightarrow> if \<not> deleted then vec_get (it_internal_to_external T) i else None
      | None \<Rightarrow> None)"

definition internal_version :: "id_tracker \<Rightarrow> point_offset \<Rightarrow> seq_number option" where
  "internal_version T i = vec_get (it_internal_to_version T) i"

type_synonym 'd tracker_state = "id_tracker \<times> 'd"

definition set_internal_version ::
    "'d rocksdb \<Rightarrow> bincode \<Rightarrow> point_offset \<Rightarrow> seq_number \<Rightarrow> ('d tracker_state, op_error, unit) st_op" where
  "set_internal_version R B i version s =
     (case external_id (fst s) i of
        None \<Rightarrow> (Inr (), s)
      | Some ext \<Rightarrow>
          let T = fst s;
              T' = T\<lparr>it_internal_to_version := (vec_grow 0 i (it_internal_to_version T))[i := version]\<rparr>
          in on_db (col_put R DB_VERSIONS_CF (store_key B ext) (ser_u64 B version)) (T', snd s))"

definition link_external :: "point_id \<Rightarrow> point_offset \<Rightarrow> id_tracker \<Rightarrow> id_tracker" where
  "link_external ext i T =
     (let T1 = insert_internal_id ext i T
      in T1\<lparr>it_internal_to_external := (vec_grow no_external_id i (it_internal_to_external T1))[i := ext],
            it_deleted := (vec_grow True i (it_deleted T1))[i := False]\<rparr>)"

definition set_link ::
    "'d rocksdb \<Rightarrow> bincode \<Rightarrow> point_id \<Rightarrow> point_offset \<Rightarrow> ('d tracker_state, op_error, unit) st_op" where
  "set_link R B ext i s =
     on_db (col_put R DB_MAPPING_CF (store_key B ext) (ser_usize B i)) (link_external ext i (fst s), snd s)"

definition unlink_external :: "point_id \<Rightarrow> id_tracker \<Rightarrow> id_tracker" where
  "unlink_external ext T =
     (let T1 = remove_internal_id ext T
      in case internal_id T ext of
           None \<Rightarrow> T1
         | Some i \<Rightarrow> T1\<lparr>it_deleted := (it_deleted T1)[i := True],
                       it_internal_to_external := (it_internal_to_external T1)[i := no_external_id]\<rparr>)"

definition it_drop :: "'d rocksdb \<Rightarrow> bincode \<Rightarrow> point_id \<Rightarrow> ('d tracker_state, op_error, unit) st_op" where
  "it_drop R B ext s =
     st_bind (on_db (col_remove R DB_MAPPING_CF (store_key B ext)))
       (\<lambda>_. on_db (col_remove R DB_VERSIONS_CF (store_key B ext)))
       (unlink_external ext (fst s), snd s)"

definition iter_external :: "id_tracker \<Rightarrow> point_id list" where
  "iter_external T = map (\<lambda>e. NumId (fst e)) (it_num T) @ map (\<lambda>e. Uuid (fst e)) (it_uuid T)"

definition iter_internal :: "id_tracker \<Rightarrow> point_offset list" where
  "iter_internal T =
     filter (\<lambda>i. \<not> it_deleted T ! i) [0..<u32_of_usize (length (it_internal_to_external T))]"

definition num_entries :: "(64 word, point_offset) btree \<Rightarrow> (point_id \<times> point_offset) list" where
  "num_entries m = map (\<lambda>(k, v). (NumId k, v)) m"

definition uuid_entries :: "(128 word, point_offset) btree \<Rightarrow> (point_id \<times> point_offset) list" where
  "uuid_entries m = map (\<lambda>(k, v). (Uuid k, v)) m"

definition iter_from :: "id_tracker \<Rightarrow> point_id option \<Rightarrow> (point_id \<times> point_offset) list" where
  "iter_from T ext =
     (case ext of
        None \<Rightarrow> num_entries (it_num T) @ uuid_entries (it_uuid T)
      | Some (NumId idx) \<Rightarrow> num_entries (bt_range_from idx (it_num T)) @ uuid_entries (it_uuid T)
      | Some (Uuid uuid) \<Rightarrow> uuid_entries (bt_range_from uuid (it_uuid T)))"

definition points_count :: "id_tracker \<Rightarrow> nat" where
  "points_count T = length (it_num T) + length (it_uuid T)"

definition internal_size :: "id_tracker \<Rightarrow> nat" where
  "internal_size T = length (it_internal_to_external T)"

definition is_deleted :: "id_tracker \<Rightarrow> point_offset \<Rightarrow> bool" where
  "is_deleted T key = (if length (it_deleted T) \<le> key then True else it_deleted T ! key)"

definition deleted_count :: "id_tracker \<Rightarrow> nat" where
  "deleted_count T = internal_size T - points_count T"

section \<open>Opening a stored tracker\<close>

definition empty_tracker :: id_tracker where
  "empty_tracker =
     \<lparr>it_deleted = [], it_internal_to_external = [], it_internal_to_version = [],
      it_num = [], it_uuid = []\<rparr>"

text \<open>One record of the mapping column. \<open>None\<close> is a panic of a failed \<open>unwrap\<close>.\<close>

definition load_mapping :: "bincode \<Rightarrow> id_tracker option \<Rightarrow> bytes \<times> bytes \<Rightarrow> id_tracker option" where
  "load_mapping B st kv =
     Option.bind st (\<lambda>T.
     Option.bind (restore_key B (fst kv)) (\<lambda>ext.
     Option.bind (de_u32 B (snd kv)) (\<lambda>i.
       let i2e = vec_grow no_external_id i (it_internal_to_external T);
           deleted = vec_grow True i (it_deleted T);
           T1 = T\<lparr>it_internal_to_external := i2e[i := ext], it_deleted := deleted\<rparr>;
           T2 = (if \<not> deleted ! i then remove_internal_id ext T1 else T1)
       in Some (insert_internal_id ext i (T2\<lparr>it_deleted := deleted[i := False]\<rparr>)))))"

definition load_version :: "bincode \<Rightarrow> id_tracker option \<Rightarrow> bytes \<times> bytes \<Rightarrow> id_tracker option" where
  "load_version B st kv =
     Option.bind st (\<lambda>T.
     Option.bind (restore_key B (fst kv)) (\<lambda>ext.
     Option.bind (de_u64 B (snd kv)) (\<lambda>version.
       case internal_id T ext of
         Some i \<Rightarrow> Some (T\<lparr>it_internal_to_version :=
                       (vec_grow 0 i (it_internal_to_version T))[i := version]\<rparr>)
       | None \<Rightarrow> Some T)))"

definition it_open :: "'d rocksdb \<Rightarrow> bincode \<Rightarrow> 'd \<Rightarrow> (op_error + id_tracker) option" where
  "it_open R B d =
     (case col_iter R DB_MAPPING_CF d of
        Inl e \<Rightarrow> Some (Inl e)
      | Inr mappings \<Rightarrow>
          Option.bind (foldl (load_mapping B) (Some empty_tracker) mappings) (\<lambda>T.
            case col_iter R DB_VERSIONS_CF d of
              Inl e \<Rightarrow> Some (Inl e)
            | Inr versions \<Rightarrow> map_option Inr (foldl (load_version B) (Some T) versions)))"

section \<open>Invariant\<close>

text \<open>
  A tracker is well formed when its maps are ordered, its two vectors have the same length, and the two
  directions of the mapping agree on every pair of ids.
\<close>

definition it_wf :: "id_tracker \<Rightarrow> bool" where
  "it_wf T \<longleftrightarrow>
     bt_wf (it_num T) \<and> bt_wf (it_uuid T)
     \<and> length (it_deleted T) = length (it_internal_to_external T)
     \<and> (\<forall>ext i. internal_id T ext = Some i \<longleftrightarrow> external_id T i = Some ext)"

lemma internal_id_update [simp]:
  "internal_id (insert_internal_id ext i T) = (internal_id T)(ext \<mapsto> i)"
  "internal_id (remove_internal_id ext T) = (internal_id T)(ext := None)"
  by (rule ext, rename_tac x, case_tac ext; case_tac x; simp add: bt_get_insert bt_get_remove)+

lemma tracker_fields_update [simp]:
  "it_deleted (insert_internal_id ext i T) = it_deleted T"
  "it_internal_to_external (insert_internal_id ext i T) = it_internal_to_external T"
  "it_internal_to_version (insert_internal_id ext i T) = it_internal_to_version T"
  "it_deleted (remove_internal_id ext T) = it_deleted T"
  "it_internal_to_external (remove_internal_id ext T) = it_internal_to_external T"
  "it_internal_to_version (remove_internal_id ext T) = it_internal_to_version T"
  by (cases ext; simp)+

lemma internal_id_vectors [simp]:
  "internal_id (T\<lparr>it_deleted := ds\<rparr>) = internal_id T"
  "internal_id (T\<lparr>it_internal_to_external := es\<rparr>) = internal_id T"
  "internal_id (T\<lparr>it_internal_to_version := vs\<rparr>) = internal_id T"
  by (rule ext, rename_tac x, case_tac x; simp)+

lemma bt_wf_update [simp]:
  "bt_wf (it_num T) \<Longrightarrow> bt_wf (it_num (insert_internal_id ext i T))"
  "bt_wf (it_uuid T) \<Longrightarrow> bt_wf (it_uuid (insert_internal_id ext i T))"
  "bt_wf (it_num T) \<Longrightarrow> bt_wf (it_num (remove_internal_id ext T))"
  "bt_wf (it_uuid T) \<Longrightarrow> bt_wf (it_uuid (remove_internal_id ext T))"
  by (cases ext; simp)+

lemma it_wfD:
  assumes "it_wf T"
  shows "bt_wf (it_num T)" "bt_wf (it_uuid T)"
    and "length (it_deleted T) = length (it_internal_to_external T)"
    and "internal_id T ext = Some i \<longleftrightarrow> external_id T i = Some ext"
  using assms by (auto simp: it_wf_def)

lemma internal_id_inj:
  "\<lbrakk>it_wf T; internal_id T a = Some i; internal_id T b = Some i\<rbrakk> \<Longrightarrow> a = b"
  using it_wfD(4) [of T a i] it_wfD(4) [of T b i] by simp

lemma external_id_eq_Some:
  "external_id T i = Some ext \<longleftrightarrow>
     i < length (it_deleted T) \<and> \<not> it_deleted T ! i
     \<and> i < length (it_internal_to_external T) \<and> it_internal_to_external T ! i = ext"
  by (auto simp: external_id_def split: option.splits)

lemma empty_tracker_ids [simp]:
  "internal_id empty_tracker = Map.empty" "external_id empty_tracker = Map.empty"
  by (rule ext, rename_tac x, case_tac x; simp add: empty_tracker_def external_id_def vec_get_def)+

lemma external_id_version [simp]: "external_id (T\<lparr>it_internal_to_version := vs\<rparr>) = external_id T"
  by (simp add: external_id_def fun_eq_iff split: option.splits)

lemma version_link [simp]: "it_internal_to_version (link_external ext i T) = it_internal_to_version T"
  by (simp add: link_external_def Let_def)

lemma it_wf_empty [simp]: "it_wf empty_tracker"
  by (simp add: it_wf_def) (simp add: empty_tracker_def)

lemma internal_id_link [simp]: "internal_id (link_external ext i T) = (internal_id T)(ext \<mapsto> i)"
  by (simp add: link_external_def Let_def)

lemma internal_id_unlink [simp]: "internal_id (unlink_external ext T) = (internal_id T)(ext := None)"
  by (simp add: unlink_external_def Let_def split: option.splits)

lemma external_id_link:
  assumes "length (it_deleted T) = length (it_internal_to_external T)"
  shows "external_id (link_external ext i T) = (external_id T)(i \<mapsto> ext)"
proof
  fix j
  show "external_id (link_external ext i T) j = ((external_id T)(i \<mapsto> ext)) j"
    using assms
    by (cases "j = i"; cases "j < length (it_deleted T)")
      (auto simp: external_id_def link_external_def Let_def vec_get_update vec_get_grow
        split: option.splits)
qed

lemma external_id_unlink:
  assumes "it_wf T"
  shows "external_id (unlink_external ext T) j = (if external_id T j = Some ext then None else external_id T j)"
proof (cases "internal_id T ext")
  case None
  then have "external_id T j \<noteq> Some ext"
    using it_wfD(4) [OF assms, of ext j] by simp
  then show ?thesis
    using None by (simp add: unlink_external_def Let_def external_id_def split: option.splits)
next
  case (Some i)
  then have i: "external_id T i = Some ext" and uniq: "external_id T j = Some ext \<longleftrightarrow> j = i"
    using it_wfD(4) [OF assms, of ext i] it_wfD(4) [OF assms, of ext j] by auto
  then show ?thesis
    using Some
    by (auto simp: unlink_external_def Let_def external_id_def vec_get_update split: option.splits)
qed

lemma it_wf_link:
  assumes "it_wf T" "internal_id T ext \<in> {None, Some i}" "external_id T i \<in> {None, Some ext}"
  shows "it_wf (link_external ext i T)"
proof -
  have "((internal_id T)(ext \<mapsto> i)) x = Some j \<longleftrightarrow> ((external_id T)(i \<mapsto> ext)) j = Some x" for x j
    using assms(2,3) it_wfD(4) [OF assms(1), of x j] it_wfD(4) [OF assms(1), of ext j]
      it_wfD(4) [OF assms(1), of x i] by auto
  then show ?thesis
    using it_wfD(1-3) [OF assms(1)] external_id_link [OF it_wfD(3) [OF assms(1)], of ext i]
    by (simp add: it_wf_def) (simp add: link_external_def Let_def)
qed

lemma it_wf_unlink:
  assumes "it_wf T"
  shows "it_wf (unlink_external ext T)"
  using it_wfD [OF assms] external_id_unlink [OF assms, of ext]
  by (auto simp: it_wf_def unlink_external_def Let_def split: option.splits)

text \<open>A tracker with one numeric and one UUID point.\<close>

definition sample_tracker :: id_tracker where
  "sample_tracker = link_external (Uuid 3) 1 (link_external (NumId 9) 0 empty_tracker)"

lemma it_wf_sample: "it_wf sample_tracker"
proof -
  have "it_wf (link_external (NumId 9) 0 empty_tracker)"
    by (rule it_wf_link) simp_all
  then show ?thesis
    unfolding sample_tracker_def
    by (rule it_wf_link) (simp_all add: external_id_link empty_tracker_def [THEN arg_cong [of _ _ it_deleted]]
        empty_tracker_def [THEN arg_cong [of _ _ it_internal_to_external]])
qed

section \<open>Iteration\<close>

lemma set_iter_from_None:
  assumes "it_wf T"
  shows "set (iter_from T None) = {(ext, i). internal_id T ext = Some i}"
proof -
  have "(ext, i) \<in> set (iter_from T None) \<longleftrightarrow> internal_id T ext = Some i" for ext i
    using it_wfD(1,2) [OF assms]
    by (cases ext) (auto simp: iter_from_def num_entries_def uuid_entries_def bt_get_iff)
  then show ?thesis by auto
qed

lemma sorted_num_entries: "bt_wf m \<Longrightarrow> sorted_wrt (<) (map fst (num_entries m))"
  by (simp add: bt_wf_def num_entries_def sorted_wrt_map case_prod_beta)

lemma sorted_uuid_entries: "bt_wf m \<Longrightarrow> sorted_wrt (<) (map fst (uuid_entries m))"
  by (simp add: bt_wf_def uuid_entries_def sorted_wrt_map case_prod_beta)

lemma sorted_iter_from_None:
  assumes "it_wf T"
  shows "sorted_wrt (<) (map fst (iter_from T None))"
  using sorted_num_entries [OF it_wfD(1) [OF assms]] sorted_uuid_entries [OF it_wfD(2) [OF assms]]
  by (auto simp: iter_from_def sorted_wrt_append) (auto simp: num_entries_def uuid_entries_def)

lemma iter_from_Some: "iter_from T (Some ext) = filter (\<lambda>e. ext \<le> fst e) (iter_from T None)"
  by (cases ext)
    (auto simp: iter_from_def num_entries_def uuid_entries_def bt_range_from_def filter_map comp_def
      case_prod_beta intro!: filter_False)

text \<open>
  C21. Iterating a well-formed tracker from an id visits exactly the live points whose id is at least the
  given one, each once, in increasing id order with every numeric id before every UUID, and each paired
  with its own offset: the pages of a scroll are consecutive and complete.
\<close>

theorem iter_from_spec:
  assumes "it_wf T"
  shows "set (iter_from T (Some ext)) = {(e, i). ext \<le> e \<and> internal_id T e = Some i}
    \<and> sorted_wrt (<) (map fst (iter_from T (Some ext)))
    \<and> iter_from T (Some ext) = dropWhile (\<lambda>e. fst e < ext) (iter_from T None)"
proof (intro conjI)
  have wf: "bt_wf (iter_from T None)"
    using sorted_iter_from_None [OF assms] by (simp add: bt_wf_def)
  show "set (iter_from T (Some ext)) = {(e, i). ext \<le> e \<and> internal_id T e = Some i}"
    using set_iter_from_None [OF assms] by (auto simp: iter_from_Some)
  show "sorted_wrt (<) (map fst (iter_from T (Some ext)))"
    using bt_wf_filter [OF wf] by (simp add: bt_wf_def iter_from_Some)
  show "iter_from T (Some ext) = dropWhile (\<lambda>e. fst e < ext) (iter_from T None)"
    using bt_range_from_dropWhile [OF wf] by (simp add: bt_range_from_def iter_from_Some)
qed

theorem iter_from_spec_witness:
  "set (iter_from sample_tracker (Some (Uuid 0))) = {(e, i). Uuid 0 \<le> e \<and> internal_id sample_tracker e = Some i}"
  using iter_from_spec [OF it_wf_sample] by blast

lemma set_iter_internal:
  assumes "it_wf T" "internal_size T < 2 ^ 32"
  shows "set (iter_internal T) = {i. \<exists>ext. internal_id T ext = Some i}"
  using assms it_wfD(3) [OF assms(1)]
  by (auto simp: iter_internal_def internal_size_def it_wfD(4) external_id_eq_Some)

text \<open>
  C22. On a well-formed tracker the number of points, the number of live offsets and the number of mapped
  ids agree, the live offsets are listed without repetition, and an offset is reported deleted exactly when
  no external id maps to it.
\<close>

theorem points_count_spec:
  assumes "it_wf T" "internal_size T < 2 ^ 32"
  shows "points_count T = length (iter_internal T) \<and> distinct (iter_internal T)
    \<and> points_count T + deleted_count T = internal_size T
    \<and> (is_deleted T i \<longleftrightarrow> (\<nexists>ext. internal_id T ext = Some i))"
proof -
  let ?es = "iter_from T None"
  have keys: "distinct (map fst ?es)"
    using sorted_iter_from_None [OF assms(1)] by (simp add: strict_sorted_iff)
  have "inj_on snd (set ?es)"
    by (rule inj_onI) (auto simp: set_iter_from_None [OF assms(1)] intro: internal_id_inj [OF assms(1)])
  then have "distinct (map snd ?es)"
    using keys by (simp add: distinct_map)
  moreover have "set (map snd ?es) = set (iter_internal T)"
    using set_iter_internal [OF assms] by (force simp: set_iter_from_None [OF assms(1)])
  moreover have dist: "distinct (iter_internal T)"
    by (simp add: iter_internal_def)
  ultimately have "length ?es = length (iter_internal T)"
    by (metis distinct_card length_map)
  then have count: "points_count T = length (iter_internal T)"
    by (simp add: points_count_def iter_from_def num_entries_def uuid_entries_def)
  have "length (iter_internal T) \<le> internal_size T"
    using assms(2) length_filter_le [of _ "[0..<internal_size T]"]
    by (simp add: iter_internal_def internal_size_def)
  then show ?thesis
    using count dist it_wfD(3,4) [OF assms(1)]
    by (auto simp: deleted_count_def is_deleted_def external_id_eq_Some)
qed

theorem points_count_spec_witness:
  "points_count sample_tracker = length (iter_internal sample_tracker)"
  using points_count_spec [OF it_wf_sample]
  by (simp add: internal_size_def sample_tracker_def link_external_def empty_tracker_def Let_def)

section \<open>Persistence\<close>

text \<open>
  The database is in sync with a tracker when its mapping column holds exactly the mapping of the tracker,
  and every version record is that of a live point, with the version the tracker has in memory.
\<close>

definition keys_ok :: "bincode \<Rightarrow> (bytes \<rightharpoonup> bytes) \<Rightarrow> bool" where
  "keys_ok B m \<longleftrightarrow> (\<forall>k \<in> dom m. \<exists>ext. k = store_key B ext)"

definition mapping_in_sync :: "bincode \<Rightarrow> id_tracker \<Rightarrow> (bytes \<rightharpoonup> bytes) \<Rightarrow> bool" where
  "mapping_in_sync B T m \<longleftrightarrow>
     keys_ok B m \<and> (\<forall>ext. m (store_key B ext) = map_option (ser_usize B) (internal_id T ext))"

definition versions_in_sync :: "bincode \<Rightarrow> id_tracker \<Rightarrow> (bytes \<rightharpoonup> bytes) \<Rightarrow> bool" where
  "versions_in_sync B T m \<longleftrightarrow>
     keys_ok B m
     \<and> (\<forall>ext b. m (store_key B ext) = Some b \<longrightarrow>
          (\<exists>v i. v < 2 ^ 64 \<and> b = ser_u64 B v \<and> internal_id T ext = Some i \<and> internal_version T i = Some v))"

definition in_sync :: "'d db_contents \<Rightarrow> bincode \<Rightarrow> id_tracker \<Rightarrow> 'd \<Rightarrow> bool" where
  "in_sync con B T d \<longleftrightarrow>
     (\<exists>m mv. con d DB_MAPPING_CF = Some m \<and> con d DB_VERSIONS_CF = Some mv
        \<and> mapping_in_sync B T m \<and> versions_in_sync B T mv)"

lemma load_mapping_link:
  assumes "bincode_ok B" "it_wf T" "external_id T i = None" "i < 2 ^ 32"
  shows "load_mapping B (Some T) (store_key B ext, ser_usize B i) = Some (link_external ext i T)"
proof -
  have "vec_grow True i (it_deleted T) ! i"
    using assms(3) it_wfD(3) [OF assms(2)]
    by (auto simp: nth_vec_grow external_id_def split: option.splits if_splits)
  moreover have "de_u32 B (ser_usize B i) = Some i"
    using assms(1,4) by (simp add: bincode_ok_def)
  ultimately show ?thesis
    using assms(1)
    by (cases ext) (simp_all add: load_mapping_def link_external_def Let_def)
qed

lemma foldl_load_mapping:
  assumes "bincode_ok B" "it_wf T" "distinct (map fst es)" "distinct (map snd es)"
    and "\<forall>(ext, i) \<in> set es. internal_id T ext = None \<and> external_id T i = None \<and> i < 2 ^ 32"
  shows "\<exists>T'. foldl (load_mapping B) (Some T) (map (\<lambda>(ext, i). (store_key B ext, ser_usize B i)) es) = Some T'
    \<and> it_wf T' \<and> internal_id T' = internal_id T ++ map_of es
    \<and> it_internal_to_version T' = it_internal_to_version T"
  using assms(2-5)
proof (induction es arbitrary: T)
  case (Cons e es)
  obtain ext i where e: "e = (ext, i)" by (cases e)
  let ?T = "link_external ext i T"
  have step: "load_mapping B (Some T) (store_key B ext, ser_usize B i) = Some ?T"
    by (rule load_mapping_link) (use assms(1) Cons.prems e in auto)
  have wf: "it_wf ?T"
    by (rule it_wf_link) (use Cons.prems e in auto)
  have dist: "distinct (map fst es)" "distinct (map snd es)"
    using Cons.prems by auto
  have "\<forall>(x, j) \<in> set es. internal_id ?T x = None \<and> external_id ?T j = None \<and> j < 2 ^ 32"
    using Cons.prems e by (force simp: external_id_link [OF it_wfD(3)])
  from Cons.IH [OF wf dist this] obtain T' where T':
    "foldl (load_mapping B) (Some ?T) (map (\<lambda>(ext, i). (store_key B ext, ser_usize B i)) es) = Some T'"
    "it_wf T'" "internal_id T' = internal_id ?T ++ map_of es"
    "it_internal_to_version T' = it_internal_to_version ?T"
    by blast
  have "map_of es ext = None"
    using Cons.prems e by (auto simp: map_of_eq_None_iff)
  then have "(internal_id T)(ext \<mapsto> i) ++ map_of es = internal_id T ++ map_of (e # es)"
    by (auto simp: e map_add_def fun_eq_iff split: option.splits)
  then have "internal_id T' = internal_id T ++ map_of (e # es)"
    using T'(3) by (simp only: internal_id_link)
  then show ?case
    using step T'(1,2,4) by (intro exI [of _ T']) (simp add: e del: map_of.simps map_add_upd)
qed simp

lemma scan_as_entries:
  assumes "bincode_ok B" "map_of kvs = m" "distinct (map fst kvs)" "keys_ok B m"
    and "\<And>ext b. m (store_key B ext) = Some b \<Longrightarrow> b = ser (f ext)"
  shows "\<exists>es. kvs = map (\<lambda>(ext, x). (store_key B ext, ser x)) es \<and> distinct (map fst es)
    \<and> (\<forall>(ext, x) \<in> set es. x = f ext \<and> store_key B ext \<in> dom m)
    \<and> (\<forall>ext. store_key B ext \<in> dom m \<longrightarrow> ext \<in> fst ` set es)"
proof -
  define es where "es = map (\<lambda>(k, b). (the (restore_key B k), f (the (restore_key B k)))) kvs"
  have entry: "\<exists>ext. k = store_key B ext \<and> b = ser (f ext)" if "(k, b) \<in> set kvs" for k b
  proof -
    have kb: "m k = Some b"
      using that assms(2,3) by auto
    then obtain ext where "k = store_key B ext"
      using assms(4) by (auto simp: keys_ok_def dom_def)
    then show ?thesis
      using assms(5) kb by blast
  qed
  have kvs: "kvs = map (\<lambda>(ext, x). (store_key B ext, ser x)) es"
    unfolding es_def map_map
    by (rule map_idI [symmetric]) (use entry assms(1) in \<open>force split: prod.splits\<close>)
  then have keys: "map fst kvs = map (store_key B) (map fst es)"
    by (simp add: case_prod_beta comp_def)
  have "fst ` set kvs = dom m"
    using assms(2) by (simp add: dom_map_of_conv_image_fst [symmetric])
  then have dom: "store_key B ` fst ` set es = dom m"
    using keys by (metis set_map)
  have dist: "distinct (map fst es)"
    using assms(3) unfolding keys distinct_map [of "store_key B"] by blast
  have "\<forall>(ext, x) \<in> set es. x = f ext"
    by (auto simp: es_def)
  then have "\<forall>(ext, x) \<in> set es. x = f ext \<and> store_key B ext \<in> dom m"
    unfolding dom [symmetric] by (force simp: image_iff)
  moreover have "ext \<in> fst ` set es" if "store_key B ext \<in> dom m" for ext
    using that store_key_inj [OF assms(1)] unfolding dom [symmetric] by auto
  ultimately show ?thesis
    using kvs dist by blast
qed

lemma load_version_set:
  assumes "bincode_ok B" "v < 2 ^ 64"
  shows "\<exists>T'. load_version B (Some T) (store_key B ext, ser_u64 B v) = Some T'
    \<and> internal_id T' = internal_id T \<and> external_id T' = external_id T
    \<and> it_num T' = it_num T \<and> it_uuid T' = it_uuid T
    \<and> it_deleted T' = it_deleted T \<and> it_internal_to_external T' = it_internal_to_external T
    \<and> (\<forall>j. internal_version T' j = (if internal_id T ext = Some j then Some v
         else if \<exists>i. internal_id T ext = Some i \<and> length (it_internal_to_version T) \<le> j \<and> j \<le> i then Some 0
         else internal_version T j))"
proof -
  have "de_u64 B (ser_u64 B v) = Some v"
    using assms by (simp add: bincode_ok_def)
  then show ?thesis
    using assms(1)
    by (cases "internal_id T ext")
      (auto simp: load_version_def internal_version_def vec_get_update vec_get_grow external_id_def)
qed

lemma foldl_load_version:
  assumes "bincode_ok B" "it_wf T" "distinct (map fst es)" "\<forall>(ext, v) \<in> set es. v < 2 ^ 64"
  shows "\<exists>T'. foldl (load_version B) (Some T) (map (\<lambda>(ext, v). (store_key B ext, ser_u64 B v)) es) = Some T'
    \<and> it_wf T' \<and> internal_id T' = internal_id T
    \<and> (\<forall>(ext, v) \<in> set es. \<forall>i. internal_id T ext = Some i \<longrightarrow> internal_version T' i = Some v)"
  using assms(3,4)
proof (induction es rule: rev_induct)
  case (snoc e es)
  obtain ext v where e: "e = (ext, v)" by (cases e)
  obtain T1 where T1: "foldl (load_version B) (Some T)
      (map (\<lambda>(ext, v). (store_key B ext, ser_u64 B v)) es) = Some T1"
    and wf: "it_wf T1" and ids: "internal_id T1 = internal_id T"
    and vs: "\<forall>(ext, v) \<in> set es. \<forall>i. internal_id T ext = Some i \<longrightarrow> internal_version T1 i = Some v"
    using snoc by auto
  obtain T2 where T2: "load_version B (Some T1) (store_key B ext, ser_u64 B v) = Some T2"
    and same: "internal_id T2 = internal_id T1" "external_id T2 = external_id T1"
      "it_num T2 = it_num T1" "it_uuid T2 = it_uuid T1"
      "it_deleted T2 = it_deleted T1" "it_internal_to_external T2 = it_internal_to_external T1"
    and v2: "\<And>j. internal_version T2 j = (if internal_id T1 ext = Some j then Some v
         else if \<exists>i. internal_id T1 ext = Some i \<and> length (it_internal_to_version T1) \<le> j \<and> j \<le> i then Some 0
         else internal_version T1 j)"
    using load_version_set [OF assms(1), of v T1 ext] snoc.prems e by auto
  have "internal_version T2 i = Some w" if "(x, w) \<in> set es" "internal_id T x = Some i" for x w i
  proof -
    have "internal_version T1 i = Some w"
      using vs that by auto
    moreover have "internal_id T ext \<noteq> Some i"
      using that snoc.prems e it_wfD(4) [OF assms(2)] by (force simp: image_iff)
    ultimately show ?thesis
      using v2 [of i] ids by (auto simp: internal_version_def)
  qed
  moreover have "it_wf T2"
    using wf same by (simp add: it_wf_def)
  moreover have "internal_version T2 i = Some v" if "internal_id T ext = Some i" for i
    using v2 ids that by simp
  ultimately show ?case
    using T1 T2 same(1) ids e by auto
qed (use assms(2) in simp)

lemma load_all_mappings:
  assumes "bincode_ok B" "it_wf T" "internal_size T \<le> 2 ^ 32"
    and "mapping_in_sync B T m" "map_of kvs = m" "distinct (map fst kvs)"
  shows "\<exists>T'. foldl (load_mapping B) (Some empty_tracker) kvs = Some T'
    \<and> it_wf T' \<and> internal_id T' = internal_id T"
proof -
  have sync: "keys_ok B m" "\<And>ext. m (store_key B ext) = map_option (ser_usize B) (internal_id T ext)"
    using assms(4) by (auto simp: mapping_in_sync_def)
  have ser: "b = ser_usize B (the (internal_id T ext))" if "m (store_key B ext) = Some b" for ext b
    using that by (auto simp: sync(2))
  obtain es where kvs: "kvs = map (\<lambda>(ext, i). (store_key B ext, ser_usize B i)) es"
    and dist: "distinct (map fst es)"
    and es: "\<forall>(ext, i) \<in> set es. i = the (internal_id T ext) \<and> store_key B ext \<in> dom m"
    and all: "\<forall>ext. store_key B ext \<in> dom m \<longrightarrow> ext \<in> fst ` set es"
    using scan_as_entries [where f = "\<lambda>ext. the (internal_id T ext)" and ser = "ser_usize B",
        OF assms(1,5,6) sync(1) ser]
    by blast
  have live: "internal_id T ext = Some i" if "(ext, i) \<in> set es" for ext i
  proof -
    have "i = the (internal_id T ext)" "store_key B ext \<in> dom m"
      using es that by auto
    then show ?thesis
      using sync(2) [of ext] by (cases "internal_id T ext") auto
  qed
  have small: "i < 2 ^ 32" if "(ext, i) \<in> set es" for ext i
    using live [OF that] assms(3) it_wfD(4) [OF assms(2)] by (auto simp: external_id_eq_Some internal_size_def)
  have "inj_on snd (set es)"
    by (rule inj_onI) (auto dest!: live intro: internal_id_inj [OF assms(2)])
  then have "distinct (map snd es)"
    using dist by (simp add: distinct_map)
  then obtain T' where "foldl (load_mapping B) (Some empty_tracker) kvs = Some T'" "it_wf T'"
    and ids: "internal_id T' = map_of es"
    using foldl_load_mapping [OF assms(1) it_wf_empty dist] small unfolding kvs by auto
  moreover have "map_of es ext = internal_id T ext" for ext
  proof (cases "internal_id T ext")
    case None
    then show ?thesis using live by (force simp: map_of_eq_None_iff)
  next
    case (Some i)
    then have "store_key B ext \<in> dom m" using sync(2) [of ext] by auto
    then have "ext \<in> fst ` set es" using all by blast
    then show ?thesis using Some dist live by (force simp: map_of_eq_Some_iff)
  qed
  ultimately show ?thesis by auto
qed

lemma load_all_versions:
  assumes "bincode_ok B" "it_wf T1" "internal_id T1 = internal_id T"
    and "versions_in_sync B T m" "map_of kvs = m" "distinct (map fst kvs)"
  shows "\<exists>T'. foldl (load_version B) (Some T1) kvs = Some T' \<and> it_wf T' \<and> internal_id T' = internal_id T
    \<and> (\<forall>ext i. store_key B ext \<in> dom m \<and> internal_id T ext = Some i \<longrightarrow>
          internal_version T' i = internal_version T i)"
proof -
  define f where "f ext = de_u64 B (the (m (store_key B ext)))" for ext
  have sync: "keys_ok B m" "\<And>ext b. m (store_key B ext) = Some b \<Longrightarrow>
      \<exists>v i. v < 2 ^ 64 \<and> b = ser_u64 B v \<and> internal_id T ext = Some i \<and> internal_version T i = Some v"
    using assms(4) by (auto simp: versions_in_sync_def)
  have ser: "b = ser_u64 B (the (f ext))" "the (f ext) < 2 ^ 64"
    "internal_id T ext = Some i \<Longrightarrow> internal_version T i = Some (the (f ext))"
    if "m (store_key B ext) = Some b" for ext b i
    using sync(2) [OF that] that assms(1) by (auto simp: f_def bincode_ok_def)
  obtain es where kvs: "kvs = map (\<lambda>(ext, v). (store_key B ext, ser_u64 B v)) es"
    and dist: "distinct (map fst es)"
    and es: "\<forall>(ext, v) \<in> set es. v = the (f ext) \<and> store_key B ext \<in> dom m"
    and all: "\<forall>ext. store_key B ext \<in> dom m \<longrightarrow> ext \<in> fst ` set es"
    using scan_as_entries [where f = "\<lambda>ext. the (f ext)" and ser = "ser_u64 B",
        OF assms(1,5,6) sync(1) ser(1)] by blast
  have "\<forall>(ext, v) \<in> set es. v < 2 ^ 64"
    using es ser(2) by fastforce
  then obtain T' where "foldl (load_version B) (Some T1) kvs = Some T'" "it_wf T'" "internal_id T' = internal_id T"
    and vs: "\<forall>(ext, v) \<in> set es. \<forall>i. internal_id T ext = Some i \<longrightarrow> internal_version T' i = Some v"
    using foldl_load_version [OF assms(1,2) dist] unfolding kvs assms(3) by auto
  moreover have "internal_version T' i = internal_version T i"
    if key: "store_key B ext \<in> dom m" and live: "internal_id T ext = Some i" for ext i
  proof -
    obtain v where v: "(ext, v) \<in> set es" using all key by force
    then have "internal_version T' i = Some (the (f ext))" using vs es live by force
    then show ?thesis using key live ser(3) by auto
  qed
  ultimately show ?thesis by blast
qed

text \<open>
  C8. Reopening a persisted tracker restores it. When the database is in sync with a well-formed tracker,
  \<open>open\<close> neither fails nor panics, and it returns a well-formed tracker with the same mapping between ids
  and offsets and the same version for every point that has a version record.
\<close>

theorem it_open_restores:
  assumes "rocks_ok R con" "bincode_ok B" "it_wf T" "internal_size T \<le> 2 ^ 32" "in_sync con B T d"
  shows "\<exists>T'. it_open R B d = Some (Inr T') \<and> it_wf T' \<and> internal_id T' = internal_id T
    \<and> (\<forall>ext i mv. con d DB_VERSIONS_CF = Some mv \<and> store_key B ext \<in> dom mv \<and> internal_id T ext = Some i \<longrightarrow>
          internal_version T' i = internal_version T i)"
proof -
  obtain m mv where m: "con d DB_MAPPING_CF = Some m" and mv: "con d DB_VERSIONS_CF = Some mv"
    and sync: "mapping_in_sync B T m" "versions_in_sync B T mv"
    using assms(5) by (auto simp: in_sync_def)
  obtain kvs where kvs: "col_iter R DB_MAPPING_CF d = Inr kvs" "map_of kvs = m" "distinct (map fst kvs)"
    using col_iter_ok [OF assms(1) m] by (auto simp: strict_sorted_iff)
  obtain vs where vs: "col_iter R DB_VERSIONS_CF d = Inr vs" "map_of vs = mv" "distinct (map fst vs)"
    using col_iter_ok [OF assms(1) mv] by (auto simp: strict_sorted_iff)
  obtain T1 where T1: "foldl (load_mapping B) (Some empty_tracker) kvs = Some T1" "it_wf T1"
      "internal_id T1 = internal_id T"
    using load_all_mappings [OF assms(2-4) sync(1) kvs(2,3)] by auto
  obtain T' where "foldl (load_version B) (Some T1) vs = Some T'" "it_wf T'" "internal_id T' = internal_id T"
    "\<forall>ext i. store_key B ext \<in> dom mv \<and> internal_id T ext = Some i \<longrightarrow>
       internal_version T' i = internal_version T i"
    using load_all_versions [OF assms(2) T1(2,3) sync(2) vs(2,3)] by auto
  then show ?thesis
    using kvs(1) vs(1) T1(1) mv by (auto simp: it_open_def)
qed

lemma DB_columns_differ [simp]: "DB_MAPPING_CF \<noteq> DB_VERSIONS_CF" "DB_VERSIONS_CF \<noteq> DB_MAPPING_CF"
  by (simp_all add: DB_MAPPING_CF_def DB_VERSIONS_CF_def)

lemma keys_ok_update [simp]:
  "keys_ok B m \<Longrightarrow> keys_ok B (m(store_key B ext \<mapsto> b))" "keys_ok B m \<Longrightarrow> keys_ok B (m(store_key B ext := None))"
  by (auto simp: keys_ok_def)

lemma set_link_in_sync:
  assumes "rocks_ok R con" "bincode_ok B" "it_wf T" "in_sync con B T d"
    and "internal_id T ext = None" "external_id T i = None"
    and "set_link R B ext i (T, d) = (Inr (), (T', d'))"
  shows "T' = link_external ext i T \<and> it_wf T' \<and> in_sync con B T' d'"
proof -
  obtain m mv where m: "con d DB_MAPPING_CF = Some m" and mv: "con d DB_VERSIONS_CF = Some mv"
    and sync: "mapping_in_sync B T m" "versions_in_sync B T mv"
    using assms(4) by (auto simp: in_sync_def)
  have T': "T' = link_external ext i T"
    and put: "col_put R DB_MAPPING_CF (store_key B ext) (ser_usize B i) d = (Inr (), d')"
    using assms(7) by (auto simp: set_link_def on_db_Inr)
  have "con d' = (con d)(DB_MAPPING_CF \<mapsto> m(store_key B ext \<mapsto> ser_usize B i))"
    using col_put_ok [OF assms(1) put] m by auto
  moreover have "mapping_in_sync B T' (m(store_key B ext \<mapsto> ser_usize B i))"
    using sync(1) by (simp add: mapping_in_sync_def T' store_key_inj [OF assms(2)])
  moreover have "versions_in_sync B T' mv"
    using sync(2) assms(5) unfolding versions_in_sync_def T' internal_version_def by fastforce
  ultimately show ?thesis
    using T' it_wf_link [OF assms(3)] assms(5,6) mv by (auto simp: in_sync_def)
qed

lemma it_drop_in_sync:
  assumes "rocks_ok R con" "bincode_ok B" "it_wf T" "in_sync con B T d"
    and "it_drop R B ext (T, d) = (Inr (), (T', d'))"
  shows "T' = unlink_external ext T \<and> it_wf T' \<and> in_sync con B T' d'"
proof -
  obtain m mv where m: "con d DB_MAPPING_CF = Some m" and mv: "con d DB_VERSIONS_CF = Some mv"
    and sync: "mapping_in_sync B T m" "versions_in_sync B T mv"
    using assms(4) by (auto simp: in_sync_def)
  obtain d1 where T': "T' = unlink_external ext T"
    and rem: "col_remove R DB_MAPPING_CF (store_key B ext) d = (Inr (), d1)"
      "col_remove R DB_VERSIONS_CF (store_key B ext) d1 = (Inr (), d')"
    using assms(5) by (auto simp: it_drop_def on_db_Inr st_bind_Inr)
  have d1: "con d1 = (con d)(DB_MAPPING_CF \<mapsto> m(store_key B ext := None))"
    using col_remove_ok [OF assms(1) rem(1)] m by auto
  have "con d' = (con d1)(DB_VERSIONS_CF \<mapsto> mv(store_key B ext := None))"
    using col_remove_ok [OF assms(1) rem(2)] mv d1 by auto
  moreover have "mapping_in_sync B T' (m(store_key B ext := None))"
    using sync(1) by (simp add: mapping_in_sync_def T' store_key_inj [OF assms(2)])
  moreover have "internal_version T' = internal_version T"
    by (auto simp: T' internal_version_def unlink_external_def Let_def split: option.splits)
  then have "versions_in_sync B T' (mv(store_key B ext := None))"
    using sync(2) by (auto simp: versions_in_sync_def T' store_key_inj [OF assms(2)])
  ultimately show ?thesis
    using T' it_wf_unlink [OF assms(3)] d1 by (auto simp: in_sync_def)
qed

lemma set_internal_version_in_sync:
  assumes "rocks_ok R con" "bincode_ok B" "it_wf T" "in_sync con B T d" "v < 2 ^ 64"
    and "set_internal_version R B i v (T, d) = (Inr (), (T', d'))"
  shows "internal_id T' = internal_id T \<and> it_wf T' \<and> in_sync con B T' d'
    \<and> (external_id T i \<noteq> None \<longrightarrow> internal_version T' i = Some v)"
proof (cases "external_id T i")
  case None
  then show ?thesis
    using assms by (auto simp: set_internal_version_def)
next
  case (Some ext)
  obtain m mv where m: "con d DB_MAPPING_CF = Some m" and mv: "con d DB_VERSIONS_CF = Some mv"
    and sync: "mapping_in_sync B T m" "versions_in_sync B T mv"
    using assms(4) by (auto simp: in_sync_def)
  have T': "T' = T\<lparr>it_internal_to_version := (vec_grow 0 i (it_internal_to_version T))[i := v]\<rparr>"
    and put: "col_put R DB_VERSIONS_CF (store_key B ext) (ser_u64 B v) d = (Inr (), d')"
    using assms(6) Some by (auto simp: set_internal_version_def on_db_Inr Let_def)
  have ids: "internal_id T' = internal_id T" "external_id T' = external_id T"
    by (simp_all add: T')
  have version: "internal_version T' j = (if j = i then Some v
      else if length (it_internal_to_version T) \<le> j \<and> j \<le> i then Some 0 else internal_version T j)" for j
    by (auto simp: T' internal_version_def vec_get_update vec_get_grow)
  have "internal_id T ext = Some i"
    using Some it_wfD(4) [OF assms(3)] by simp
  moreover have "internal_version T' j = Some w"
    if "internal_version T j = Some w" "internal_id T x = Some j" "x \<noteq> ext" for x j w
    using that Some it_wfD(4) [OF assms(3), of x] version [of j] by (auto simp: internal_version_def)
  ultimately have "versions_in_sync B T' (mv(store_key B ext \<mapsto> ser_u64 B v))"
    using sync(2) assms(5) version [of i]
    unfolding versions_in_sync_def ids by (auto simp: store_key_inj [OF assms(2)]) blast
  moreover have "con d' = (con d)(DB_VERSIONS_CF \<mapsto> mv(store_key B ext \<mapsto> ser_u64 B v))"
    using col_put_ok [OF assms(1) put] mv by auto
  moreover have "mapping_in_sync B T' m"
    using sync(1) by (simp add: mapping_in_sync_def ids)
  moreover have "it_wf T'"
    using assms(3) by (simp add: it_wf_def ids) (simp add: T')
  ultimately show ?thesis
    using ids m version [of i] by (auto simp: in_sync_def)
qed

section \<open>Reachable trackers\<close>

text \<open>
  The states a tracker reaches from an empty database through successful calls. A link is made the way the
  segment makes it: from an id that is not mapped to an offset that is not in use.
\<close>

inductive tracker_reach :: "'d rocksdb \<Rightarrow> 'd db_contents \<Rightarrow> bincode \<Rightarrow> id_tracker \<Rightarrow> 'd \<Rightarrow> bool"
  for R con B where
  reach_empty:
    "\<lbrakk>con d DB_MAPPING_CF = Some Map.empty; con d DB_VERSIONS_CF = Some Map.empty\<rbrakk> \<Longrightarrow>
      tracker_reach R con B empty_tracker d"
| reach_link:
    "\<lbrakk>tracker_reach R con B T d; internal_id T ext = None; external_id T i = None;
      set_link R B ext i (T, d) = (Inr (), (T', d'))\<rbrakk> \<Longrightarrow> tracker_reach R con B T' d'"
| reach_drop:
    "\<lbrakk>tracker_reach R con B T d; it_drop R B ext (T, d) = (Inr (), (T', d'))\<rbrakk> \<Longrightarrow>
      tracker_reach R con B T' d'"
| reach_version:
    "\<lbrakk>tracker_reach R con B T d; v < 2 ^ 64; set_internal_version R B i v (T, d) = (Inr (), (T', d'))\<rbrakk> \<Longrightarrow>
      tracker_reach R con B T' d'"

text \<open>
  C5. Every reachable tracker is a bijection between the live external ids and their offsets, and its
  database is in sync with it, so that a restart at any moment restores the tracker.
\<close>

theorem tracker_reach_wf_in_sync:
  assumes "tracker_reach R con B T d" "rocks_ok R con" "bincode_ok B"
  shows "it_wf T \<and> in_sync con B T d"
  using assms(1)
proof induction
  case (reach_empty d)
  then show ?case
    by (auto simp: in_sync_def mapping_in_sync_def versions_in_sync_def keys_ok_def)
next
  case (reach_link T d ext i T' d')
  then show ?case
    using set_link_in_sync [OF assms(2,3)] by blast
next
  case (reach_drop T d ext T' d')
  then show ?case
    using it_drop_in_sync [OF assms(2,3)] by blast
next
  case (reach_version T d v i T' d')
  then show ?case
    using set_internal_version_in_sync [OF assms(2,3)] by blast
qed

section \<open>A concrete serialisation\<close>

text \<open>
  The default format of bincode: fixed width little-endian integers, a four byte variant index, byte
  strings behind their length, and bytes after a value ignored.
\<close>

definition le_bytes :: "nat \<Rightarrow> nat \<Rightarrow> bytes" where
  "le_bytes n x = rev (be_bytes n x)"

definition le_value :: "bytes \<Rightarrow> nat" where
  "le_value bs = be_value (rev bs)"

definition bincode_le :: bincode where
  "bincode_le =
     \<lparr>ser_point_id = (\<lambda>p. case p of
          StoredNumId w \<Rightarrow> le_bytes 4 0 @ le_bytes 8 (unat w)
        | StoredUuid w \<Rightarrow> le_bytes 4 1 @ le_bytes 8 16 @ be_bytes 16 (unat w)
        | StoredString s \<Rightarrow> le_bytes 4 2 @ le_bytes 8 (length s) @ map of_char s),
      de_point_id = (\<lambda>bs.
          if le_value (take 4 bs) = 0 then Some (StoredNumId (word_of_nat (le_value (take 8 (drop 4 bs)))))
          else if le_value (take 4 bs) = 1 then Some (StoredUuid (word_of_nat (be_value (take 16 (drop 12 bs)))))
          else if le_value (take 4 bs) = 2 then Some (StoredString (map (\<lambda>b. char_of (unat b)) (drop 12 bs)))
          else None),
      ser_usize = le_bytes 8,
      de_u32 = (\<lambda>bs. if length bs < 4 then None else Some (le_value (take 4 bs))),
      ser_u64 = le_bytes 8,
      de_u64 = (\<lambda>bs. if length bs < 8 then None else Some (le_value (take 8 bs)))\<rparr>"

lemma le_value_bytes: "x < 256 ^ n \<Longrightarrow> le_value (le_bytes n x) = x"
  by (simp add: le_value_def le_bytes_def be_value_bytes)

lemma length_le_bytes [simp]: "length (le_bytes n x) = n"
  by (simp add: le_bytes_def)

lemma drop_be_bytes:
  "x < 256 ^ (m + n) \<Longrightarrow> drop m (be_bytes (m + n) x) = be_bytes n (x mod 256 ^ n)"
proof (induction m arbitrary: x)
  case (Suc m)
  have "256 ^ n dvd (256 :: nat) ^ (m + n)"
    by (simp add: power_add)
  then show ?case
    using Suc.IH [of "x mod 256 ^ (m + n)"] by (simp add: mod_mod_cancel)
qed simp

lemma take_le_bytes: "x < 2 ^ 64 \<Longrightarrow> take 4 (le_bytes 8 x) = le_bytes 4 (x mod 2 ^ 32)"
  using drop_be_bytes [of x 4 4] by (simp add: le_bytes_def take_rev)

lemma unat_of_char: "char_of (unat (of_char c :: u8)) = c"
proof -
  have "of_char c < (256 :: nat)"
    by simp
  then have "unat (of_char c :: u8) = of_char c"
    by (metis of_nat_of_char unat_byte)
  then show ?thesis by simp
qed

lemma unat_less_256_power_16: "unat (w :: 128 word) < 256 ^ 16"
proof -
  have "unat w < 2 ^ LENGTH(128)"
    by (rule unsigned_less)
  then show ?thesis by simp
qed

lemma bincode_le_ok: "bincode_ok bincode_le"
  unfolding bincode_ok_def
proof (intro conjI allI impI)
  fix p
  have tag: "le_value (le_bytes 4 0) = 0" "le_value (le_bytes 4 1) = 1" "le_value (le_bytes 4 2) = 2"
    by (simp_all add: le_value_bytes)
  show "de_point_id bincode_le (ser_point_id bincode_le p) = Some p"
    using unat_less_256_power(1) unat_less_256_power_16
    by (cases p)
      (simp_all add: bincode_le_def tag le_value_bytes be_value_bytes comp_def unat_of_char)
next
  fix n :: nat
  assume n: "n < 2 ^ 64"
  have "n mod 2 ^ 32 < 256 ^ 4"
    by simp
  then show "de_u32 bincode_le (ser_usize bincode_le n) = Some (n mod 2 ^ 32)"
    using n by (simp add: bincode_le_def take_le_bytes le_value_bytes)
  show "de_u64 bincode_le (ser_u64 bincode_le n) = Some n"
    using n by (simp add: bincode_le_def le_value_bytes)
qed

definition sample_db :: mem_db where
  "sample_db = [(DB_MAPPING_CF, []), (DB_VERSIONS_CF, [])]"

lemma sample_reach:
  "tracker_reach mem_rocksdb mem_contents bincode_le (link_external (NumId 9) 0 empty_tracker)
     (snd (snd (set_link mem_rocksdb bincode_le (NumId 9) 0 (empty_tracker, sample_db))))"
proof (rule reach_link [OF reach_empty])
  show "mem_contents sample_db DB_MAPPING_CF = Some Map.empty" "mem_contents sample_db DB_VERSIONS_CF = Some Map.empty"
    by (simp_all add: mem_contents_def sample_db_def)
  show "set_link mem_rocksdb bincode_le (NumId 9) 0 (empty_tracker, sample_db) =
      (Inr (), link_external (NumId 9) 0 empty_tracker,
        snd (snd (set_link mem_rocksdb bincode_le (NumId 9) 0 (empty_tracker, sample_db))))"
    by (simp add: set_link_def on_db_def col_put_def get_column_family_def mem_rocksdb_def sample_db_def
        map_db_err_def)
qed simp_all

theorem tracker_reach_wf_in_sync_witness:
  "in_sync mem_contents bincode_le (link_external (NumId 9) 0 empty_tracker)
     (snd (snd (set_link mem_rocksdb bincode_le (NumId 9) 0 (empty_tracker, sample_db))))"
  using tracker_reach_wf_in_sync [OF sample_reach rocks_ok_mem bincode_le_ok] by blast

theorem it_open_restores_witness:
  "\<exists>T'. it_open mem_rocksdb bincode_le sample_db = Some (Inr T') \<and> internal_id T' = internal_id empty_tracker"
proof -
  have "in_sync mem_contents bincode_le empty_tracker sample_db"
    by (auto simp: in_sync_def mapping_in_sync_def versions_in_sync_def keys_ok_def mem_contents_def
        sample_db_def)
  then show ?thesis
    using it_open_restores [OF rocks_ok_mem bincode_le_ok it_wf_empty]
    by (force simp: internal_size_def empty_tracker_def)
qed

end
