(* ===== verification/Payload_Storage.thy ===== *)
theory Payload_Storage
  imports Db_Column "HOL-Library.AList" "HOL-Library.Countable"
begin

text \<open>
  Payload storages (\<open>lib/segment/src/payload_storage\<close>): the in-memory one, the one that keeps payloads in
  memory and persists every change, and the one that keeps them on disk only, all behind one interface.

  A hash map is an association list with distinct keys; its order stands for the unspecified iteration
  order of the hash map. The serialisation of keys and payloads (serde_cbor) is the parameter \<open>C\<close>.
\<close>

section \<open>Removals that remove nothing\<close>

lemma bt_insert_same: "\<lbrakk>bt_wf m; bt_get m k = Some v\<rbrakk> \<Longrightarrow> bt_insert k v m = m"
proof (induction m)
  case (Cons e m)
  then show ?case
    by (cases e) (auto simp: bt_wf_def dest!: map_of_SomeD split: if_splits)
qed simp

lemma mv_iter_eq_Nil: "mv_iter mv = [] \<longleftrightarrow> mv_values mv = []"
  by (metis set_empty set_mv_iter)

lemma remove_step_same:
  assumes "\<And>m. \<lbrakk>v = JObject m; P\<rbrakk> \<Longrightarrow> mv_values (fst (f m)) = [] \<Longrightarrow> snd (f m) = m"
    and "fst (case v of JObject m \<Rightarrow> if P then (mv_iter (fst (f m)), JObject (snd (f m))) else ([], v)
         | _ \<Rightarrow> ([], v)) = []"
  shows "snd (case v of JObject m \<Rightarrow> if P then (mv_iter (fst (f m)), JObject (snd (f m))) else ([], v)
         | _ \<Rightarrow> ([], v)) = v"
  using assms by (cases v) (auto simp: mv_iter_eq_Nil)

lemma remove_nothing:
  "\<lbrakk>map_wf m; mv_values (fst (delete_array_path ap ai rp m)) = []\<rbrakk> \<Longrightarrow> snd (delete_array_path ap ai rp m) = m"
  "\<lbrakk>map_wf m; mv_values (fst (remove_value_from_json_map p m)) = []\<rbrakk> \<Longrightarrow>
     snd (remove_value_from_json_map p m) = m"
proof (induction ap ai rp m and p m rule: delete_array_path_remove_value_from_json_map.induct)
  case (1 ap ai rp m)
  show ?case
  proof (cases "\<exists>array rest. bt_get m ap = Some (JArray array) \<and> rp = Some rest")
    case True
    then obtain array rest where array: "bt_get m ap = Some (JArray array)" and rest: "rp = Some rest"
      by blast
    let ?step = "\<lambda>(i, v). case v of
        JObject m' \<Rightarrow> if index_selected ai i
          then (mv_iter (fst (remove_value_from_json_map rest m')), JObject (snd (remove_value_from_json_map rest m')))
          else ([], v)
      | _ \<Rightarrow> ([], v)"
    have wf: "map_wf m'" if "(i, JObject m') \<in> set (enumerate 0 array)" for i m'
      using map_wf_get [OF 1(2) array] in_set_enumerateD [OF that] by (auto simp: list_all_iff)
    have nil: "fst (?step (i, v)) = []" if "(i, v) \<in> set (enumerate 0 array)" for i v
      using 1(3) that unfolding rest delete_array_path.simps [of ap ai "Some rest" m] Let_def array by auto
    have "snd (?step (i, v)) = v" if iv: "(i, v) \<in> set (enumerate 0 array)" for i v
      unfolding split_conv
    proof (rule remove_step_same)
      show "snd (remove_value_from_json_map rest m') = m'"
        if "v = JObject m'" "index_selected ai i" "mv_values (fst (remove_value_from_json_map rest m')) = []" for m'
        using 1(1) [OF array refl rest iv refl that(1,2) wf that(3)] iv that by simp
    qed (use nil [OF iv] in simp)
    then have "(snd \<circ> ?step) iv = snd iv" if "iv \<in> set (enumerate 0 array)" for iv
      using that by (cases iv) (simp only: comp_apply snd_conv)
    then have "map (snd \<circ> ?step) (enumerate 0 array) = map snd (enumerate 0 array)"
      by (rule map_cong [OF refl])
    then have "map snd (map ?step (enumerate 0 array)) = array"
      by (simp only: map_map map_snd_enumerate)
    then show ?thesis
      using 1(2) bt_insert_same [OF _ array]
      unfolding rest delete_array_path.simps [of ap ai "Some rest" m] Let_def array by (simp add: map_wf_def)
  next
    case False
    then show ?thesis
      using 1(3) unfolding delete_array_path.simps [of ap ai rp m]
      by (auto split: option.splits json.splits if_splits)
  qed
next
  case (2 p m)
  have sub: "map_wf x" if "bt_get m k = Some (JObject x)" for k x
    using map_wf_get [OF 2(4) that] by simp
  have wf: "bt_wf m"
    using 2(4) by (simp add: map_wf_def)
  have del: "bt_remove k m = m" if "bt_get m k = None" for k
    using that by (force simp: bt_remove_def filter_id_conv map_of_eq_None_iff)
  note unfold = remove_value_from_json_map.simps [of p m]
  show ?case
  proof (cases "split_once (CHR ''.'') p")
    case sp: None
    show ?thesis
    proof (cases "parse_array_path p")
      case None
      then show ?thesis
        using 2(5) del unfolding unfold sp by (auto split: option.splits)
    next
      case (Some ai)
      then show ?thesis
        using 2(1) [OF sp Some] 2(4,5) unfolding unfold sp by (cases ai) auto
    qed
  next
    case (Some er)
    then obtain el rest where er: "split_once (CHR ''.'') p = Some (el, rest)" by (cases er) auto
    show ?thesis
    proof (cases "parse_array_path el")
      case (Some ai)
      then show ?thesis
        using 2(3) [OF er refl Some] 2(4,5) unfolding unfold er by (cases ai) auto
    next
      case parse: None
      show ?thesis
      proof (cases "\<exists>x. rest \<noteq> [] \<and> bt_get m el = Some (JObject x)")
        case True
        then obtain x where x: "rest \<noteq> []" "bt_get m el = Some (JObject x)" by blast
        then have "snd (remove_value_from_json_map rest x) = x"
          using 2(2) [OF er refl parse x(1,2) refl sub [OF x(2)]] 2(5) parse
          unfolding unfold er by (simp add: Let_def)
        then show ?thesis
          using x parse bt_insert_same [OF wf x(2)] unfolding unfold er by (simp add: Let_def)
      next
        case False
        then show ?thesis
          using 2(5) del parse unfolding unfold er by (auto split: option.splits json.splits if_splits)
      qed
    qed
  qed
qed

section \<open>The storages\<close>

type_synonym 'n mem_store = "(point_offset \<times> 'n payload) list"

record 'n cbor =
  cb_ser_id :: "point_offset \<Rightarrow> bytes"
  cb_de_id :: "bytes \<Rightarrow> string + point_offset"
  cb_ser_payload :: "'n payload \<Rightarrow> bytes"
  cb_de_payload :: "bytes \<Rightarrow> string + 'n payload"

definition cbor_ok :: "'n cbor \<Rightarrow> bool" where
  "cbor_ok C \<longleftrightarrow>
     (\<forall>i. cb_de_id C (cb_ser_id C i) = Inr i) \<and> (\<forall>p. cb_de_payload C (cb_ser_payload C p) = Inr p)"

definition DB_PAYLOAD_CF :: string where "DB_PAYLOAD_CF = ''payload''"

definition cbor_error :: "string + 'a \<Rightarrow> op_error + 'a" where
  "cbor_error r = (case r of Inl err \<Rightarrow> Inl (ServiceError (''Failed to parse data: '' @ err)) | Inr a \<Rightarrow> Inr a)"

subsection \<open>In memory\<close>

definition mem_assign :: "point_offset \<Rightarrow> 'n payload \<Rightarrow> ('n mem_store, op_error, unit) st_op" where
  "mem_assign i payload s =
     (case map_of s i of
        Some point_payload \<Rightarrow> (Inr (), AList.update i (payload_merge point_payload payload) s)
      | None \<Rightarrow> (Inr (), AList.update i payload s))"

definition mem_payload :: "point_offset \<Rightarrow> 'n mem_store \<Rightarrow> op_error + 'n payload" where
  "mem_payload i s = (case map_of s i of Some payload \<Rightarrow> Inr payload | None \<Rightarrow> Inr payload_default)"

definition mem_delete :: "point_offset \<Rightarrow> string \<Rightarrow> ('n mem_store, op_error, 'n json list) st_op" where
  "mem_delete i key s =
     (case map_of s i of
        Some payload \<Rightarrow> (let (res, payload') = payload_remove payload key in (Inr res, AList.update i payload' s))
      | None \<Rightarrow> (Inr [], s))"

definition mem_drop :: "point_offset \<Rightarrow> ('n mem_store, op_error, 'n payload option) st_op" where
  "mem_drop i s = (Inr (map_of s i), AList.delete i s)"

definition mem_wipe :: "('n mem_store, op_error, unit) st_op" where
  "mem_wipe s = (Inr (), [])"

text \<open>
  \<open>iter\<close> calls a fallible callback on every entry until it answers \<open>false\<close>; the callback's captured
  variables are its state \<open>'c\<close>.
\<close>

fun mem_iter :: "(point_offset \<Rightarrow> 'n payload \<Rightarrow> ('c, op_error, bool) st_op) \<Rightarrow> 'n mem_store \<Rightarrow> ('c, op_error, unit) st_op" where
  "mem_iter callback [] c = (Inr (), c)"
| "mem_iter callback ((key, val) # s) c =
     (case callback key val c of
        (Inl e, c') \<Rightarrow> (Inl e, c')
      | (Inr do_continue, c') \<Rightarrow> if \<not> do_continue then (Inr (), c') else mem_iter callback s c')"

subsection \<open>In memory with persistence\<close>

type_synonym ('n, 'd) simple_store = "'n mem_store \<times> 'd"

fun load_payloads :: "'n cbor \<Rightarrow> (bytes \<times> bytes) list \<Rightarrow> 'n mem_store \<Rightarrow> op_error + 'n mem_store" where
  "load_payloads C [] s = Inr s"
| "load_payloads C ((key, val) # kvs) s =
     (case cb_de_id C key of
        Inl _ \<Rightarrow> Inl (ServiceError ''cannot deserialize point id'')
      | Inr i \<Rightarrow>
          (case cb_de_payload C val of
             Inl _ \<Rightarrow> Inl (ServiceError ''cannot deserialize payload'')
           | Inr payload \<Rightarrow> load_payloads C kvs (AList.update i payload s)))"

definition simple_open :: "'d rocksdb \<Rightarrow> 'n cbor \<Rightarrow> 'd \<Rightarrow> op_error + 'n mem_store" where
  "simple_open R C d = res_bind (col_iter R DB_PAYLOAD_CF d) (\<lambda>kvs. load_payloads C kvs [])"

definition simple_update_storage ::
    "'d rocksdb \<Rightarrow> 'n cbor \<Rightarrow> point_offset \<Rightarrow> (('n, 'd) simple_store, op_error, unit) st_op" where
  "simple_update_storage R C i s =
     (case map_of (fst s) i of
        None \<Rightarrow> on_db (col_remove R DB_PAYLOAD_CF (cb_ser_id C i)) s
      | Some payload \<Rightarrow> on_db (col_put R DB_PAYLOAD_CF (cb_ser_id C i) (cb_ser_payload C payload)) s)"

definition simple_assign ::
    "'d rocksdb \<Rightarrow> 'n cbor \<Rightarrow> point_offset \<Rightarrow> 'n payload \<Rightarrow> (('n, 'd) simple_store, op_error, unit) st_op" where
  "simple_assign R C i payload s =
     (let m' = (case map_of (fst s) i of
                  Some point_payload \<Rightarrow> AList.update i (payload_merge point_payload payload) (fst s)
                | None \<Rightarrow> AList.update i payload (fst s))
      in simple_update_storage R C i (m', snd s))"

definition simple_payload :: "point_offset \<Rightarrow> ('n, 'd) simple_store \<Rightarrow> op_error + 'n payload" where
  "simple_payload i s = (case map_of (fst s) i of Some payload \<Rightarrow> Inr payload | None \<Rightarrow> Inr payload_default)"

definition simple_delete ::
    "'d rocksdb \<Rightarrow> 'n cbor \<Rightarrow> point_offset \<Rightarrow> string \<Rightarrow> (('n, 'd) simple_store, op_error, 'n json list) st_op" where
  "simple_delete R C i key s =
     (case map_of (fst s) i of
        Some payload \<Rightarrow>
          (let (res, payload') = payload_remove payload key; s' = (AList.update i payload' (fst s), snd s)
           in if res \<noteq> [] then st_bind (simple_update_storage R C i) (\<lambda>_ s. (Inr res, s)) s' else (Inr res, s'))
      | None \<Rightarrow> (Inr [], s))"

definition simple_drop ::
    "'d rocksdb \<Rightarrow> 'n cbor \<Rightarrow> point_offset \<Rightarrow> (('n, 'd) simple_store, op_error, 'n payload option) st_op" where
  "simple_drop R C i s =
     st_bind (simple_update_storage R C i) (\<lambda>_ s'. (Inr (map_of (fst s) i), s'))
       (AList.delete i (fst s), snd s)"

definition simple_wipe :: "'d rocksdb \<Rightarrow> (('n, 'd) simple_store, op_error, unit) st_op" where
  "simple_wipe R s = on_db (recreate_column_family R DB_PAYLOAD_CF) ([], snd s)"

subsection \<open>On disk\<close>

definition disk_remove_from_storage :: "'d rocksdb \<Rightarrow> 'n cbor \<Rightarrow> point_offset \<Rightarrow> ('d, op_error, unit) st_op" where
  "disk_remove_from_storage R C i = col_remove R DB_PAYLOAD_CF (cb_ser_id C i)"

definition disk_update_storage ::
    "'d rocksdb \<Rightarrow> 'n cbor \<Rightarrow> point_offset \<Rightarrow> 'n payload \<Rightarrow> ('d, op_error, unit) st_op" where
  "disk_update_storage R C i payload = col_put R DB_PAYLOAD_CF (cb_ser_id C i) (cb_ser_payload C payload)"

definition disk_read_payload :: "'d rocksdb \<Rightarrow> 'n cbor \<Rightarrow> point_offset \<Rightarrow> 'd \<Rightarrow> op_error + 'n payload option" where
  "disk_read_payload R C i d =
     res_bind (col_get_pinned R DB_PAYLOAD_CF (cb_ser_id C i) (cb_de_payload C) d) (\<lambda>r.
       case r of None \<Rightarrow> Inr None | Some x \<Rightarrow> result_map Some (cbor_error x))"

definition disk_assign_all ::
    "'d rocksdb \<Rightarrow> 'n cbor \<Rightarrow> point_offset \<Rightarrow> 'n payload \<Rightarrow> ('d, op_error, unit) st_op" where
  "disk_assign_all R C i payload = disk_update_storage R C i payload"

definition disk_assign ::
    "'d rocksdb \<Rightarrow> 'n cbor \<Rightarrow> point_offset \<Rightarrow> 'n payload \<Rightarrow> ('d, op_error, unit) st_op" where
  "disk_assign R C i payload d =
     (case disk_read_payload R C i d of
        Inl e \<Rightarrow> (Inl e, d)
      | Inr (Some point_payload) \<Rightarrow> disk_update_storage R C i (payload_merge point_payload payload) d
      | Inr None \<Rightarrow> disk_update_storage R C i payload d)"

definition disk_payload :: "'d rocksdb \<Rightarrow> 'n cbor \<Rightarrow> point_offset \<Rightarrow> 'd \<Rightarrow> op_error + 'n payload" where
  "disk_payload R C i d =
     res_bind (disk_read_payload R C i d) (\<lambda>r. case r of Some payload \<Rightarrow> Inr payload | None \<Rightarrow> Inr payload_default)"

definition disk_delete ::
    "'d rocksdb \<Rightarrow> 'n cbor \<Rightarrow> point_offset \<Rightarrow> string \<Rightarrow> ('d, op_error, 'n json list) st_op" where
  "disk_delete R C i key d =
     (case disk_read_payload R C i d of
        Inl e \<Rightarrow> (Inl e, d)
      | Inr (Some payload) \<Rightarrow>
          (let (res, payload') = payload_remove payload key
           in if res \<noteq> [] then st_bind (disk_update_storage R C i payload') (\<lambda>_ d'. (Inr res, d')) d
              else (Inr res, d))
      | Inr None \<Rightarrow> (Inr [], d))"

definition disk_drop :: "'d rocksdb \<Rightarrow> 'n cbor \<Rightarrow> point_offset \<Rightarrow> ('d, op_error, 'n payload option) st_op" where
  "disk_drop R C i d =
     (case disk_read_payload R C i d of
        Inl e \<Rightarrow> (Inl e, d)
      | Inr payload \<Rightarrow> st_bind (disk_remove_from_storage R C i) (\<lambda>_ d'. (Inr payload, d')) d)"

definition disk_wipe :: "'d rocksdb \<Rightarrow> ('d, op_error, unit) st_op" where
  "disk_wipe R = recreate_column_family R DB_PAYLOAD_CF"

section \<open>The contract of a payload storage\<close>

text \<open>The default method \<open>assign_all\<close> of the trait, over the methods of an implementation.\<close>

definition storage_assign_all ::
    "(point_offset \<Rightarrow> ('s, op_error, 'n payload option) st_op) \<Rightarrow>
     (point_offset \<Rightarrow> 'n payload \<Rightarrow> ('s, op_error, unit) st_op) \<Rightarrow>
     point_offset \<Rightarrow> 'n payload \<Rightarrow> ('s, op_error, unit) st_op" where
  "storage_assign_all dropp assign i p = st_bind (dropp i) (\<lambda>_. assign i p)"

text \<open>What every storage promises, as operations on the map from point offsets to payloads.\<close>

type_synonym 'n payloads = "point_offset \<rightharpoonup> 'n payload"

definition spec_assign :: "point_offset \<Rightarrow> 'n payload \<Rightarrow> 'n payloads \<Rightarrow> 'n payloads" where
  "spec_assign i p m = m(i \<mapsto> (case m i of None \<Rightarrow> p | Some q \<Rightarrow> payload_merge q p))"

definition spec_payload :: "point_offset \<Rightarrow> 'n payloads \<Rightarrow> 'n payload" where
  "spec_payload i m = (case m i of None \<Rightarrow> payload_default | Some p \<Rightarrow> p)"

definition spec_delete :: "point_offset \<Rightarrow> string \<Rightarrow> 'n payloads \<Rightarrow> 'n json list \<times> 'n payloads" where
  "spec_delete i key m =
     (case m i of None \<Rightarrow> ([], m) | Some p \<Rightarrow> apsnd (\<lambda>p'. m(i \<mapsto> p')) (payload_remove p key))"

locale payload_storage =
  fixes assign :: "point_offset \<Rightarrow> 'n payload \<Rightarrow> ('s, op_error, unit) st_op"
    and payload :: "point_offset \<Rightarrow> 's \<Rightarrow> op_error + 'n payload"
    and delete :: "point_offset \<Rightarrow> string \<Rightarrow> ('s, op_error, 'n json list) st_op"
    and drop :: "point_offset \<Rightarrow> ('s, op_error, 'n payload option) st_op"
    and wipe :: "('s, op_error, unit) st_op"
    and abs :: "'s \<Rightarrow> 'n payloads"
    and inv :: "'s \<Rightarrow> bool"
  assumes assign_ok: "\<lbrakk>inv s; map_wf p; assign i p s = (Inr (), s')\<rbrakk> \<Longrightarrow> inv s' \<and> abs s' = spec_assign i p (abs s)"
    and payload_ok: "\<lbrakk>inv s; payload i s = Inr p\<rbrakk> \<Longrightarrow> p = spec_payload i (abs s)"
    and delete_ok: "\<lbrakk>inv s; delete i key s = (Inr vs, s')\<rbrakk> \<Longrightarrow> inv s' \<and> (vs, abs s') = spec_delete i key (abs s)"
    and drop_ok: "\<lbrakk>inv s; drop i s = (Inr r, s')\<rbrakk> \<Longrightarrow> inv s' \<and> r = abs s i \<and> abs s' = (abs s)(i := None)"
    and wipe_ok: "\<lbrakk>inv s; wipe s = (Inr (), s')\<rbrakk> \<Longrightarrow> inv s' \<and> abs s' = Map.empty"
begin

lemma assign_all_ok:
  assumes "inv s" "map_wf p" "storage_assign_all drop assign i p s = (Inr (), s')"
  shows "inv s' \<and> abs s' = (abs s)(i \<mapsto> p)"
proof -
  obtain r s1 where "drop i s = (Inr r, s1)" "assign i p s1 = (Inr (), s')"
    using assms(3) by (auto simp: storage_assign_all_def st_bind_Inr)
  with drop_ok [OF assms(1)] have s1: "inv s1" "abs s1 = (abs s)(i := None)" "assign i p s1 = (Inr (), s')"
    by blast+
  show ?thesis
    using assign_ok [OF s1(1) assms(2) s1(3)] s1(2) by (simp add: spec_assign_def)
qed

lemma payload_after_assign:
  assumes "inv s" "bt_wf p" "map_wf p" "assign i p s = (Inr (), s')" "payload j s' = Inr q" "j \<noteq> i"
  shows "q = spec_payload j (abs s)"
  using assign_ok [OF assms(1,3,4)] payload_ok [of s' j q] assms(5,6)
  by (auto simp: spec_payload_def spec_assign_def)

lemma payload_after_drop:
  assumes "inv s" "drop i s = (Inr r, s')" "payload i s' = Inr q"
  shows "q = payload_default"
  using drop_ok [OF assms(1,2)] payload_ok [of s' i q] assms(3) by (simp add: spec_payload_def)

end

lemma map_wf_merge_entry: "\<lbrakk>map_wf p; json_wf (snd e)\<rbrakk> \<Longrightarrow> map_wf (payload_merge_entry p e)"
  by (simp add: payload_merge_entry_def)

lemma map_wf_merge: "\<lbrakk>map_wf p; map_wf q\<rbrakk> \<Longrightarrow> map_wf (payload_merge p q)"
proof -
  have "map_wf p \<Longrightarrow> \<forall>e \<in> set q. json_wf (snd e) \<Longrightarrow> map_wf (foldl payload_merge_entry p q)"
    by (induction q arbitrary: p) (auto intro: map_wf_merge_entry)
  then show "map_wf p \<Longrightarrow> map_wf q \<Longrightarrow> map_wf (payload_merge p q)"
    by (auto simp: payload_merge_def map_wf_def)
qed

lemma map_wf_payload_remove: "map_wf p \<Longrightarrow> payload_remove p key = (vs, p') \<Longrightarrow> map_wf p'"
  using remove_map_wf(2) [of p key] by (auto simp: payload_remove_def Let_def)

lemma payload_remove_nothing: "\<lbrakk>map_wf p; payload_remove p key = ([], p')\<rbrakk> \<Longrightarrow> p' = p"
  using remove_nothing(2) [of p key] by (auto simp: payload_remove_def Let_def)

lemmas alist_conv = update_conv' delete_conv'

definition mem_inv :: "'n mem_store \<Rightarrow> bool" where
  "mem_inv s \<longleftrightarrow> (\<forall>i p. map_of s i = Some p \<longrightarrow> map_wf p)"

interpretation mem: payload_storage mem_assign mem_payload mem_delete mem_drop mem_wipe map_of mem_inv
proof unfold_locales
  show "mem_inv s' \<and> map_of s' = spec_assign i p (map_of s)"
    if "mem_inv s" "map_wf p" "mem_assign i p s = (Inr (), s')" for s s' i and p :: "'n payload"
    using that by (auto simp: mem_inv_def mem_assign_def spec_assign_def alist_conv map_wf_merge
        split: option.splits if_splits)
  show "p = spec_payload i (map_of s)" if "mem_inv s" "mem_payload i s = Inr p" for s i and p :: "'n payload"
    using that by (auto simp: mem_payload_def spec_payload_def split: option.splits)
  show "mem_inv s' \<and> (vs, map_of s') = spec_delete i key (map_of s)"
    if "mem_inv s" "mem_delete i key s = (Inr vs, s')" for s s' i key and vs :: "'n json list"
    using that by (auto simp: mem_inv_def mem_delete_def spec_delete_def alist_conv Let_def
        split: option.splits prod.splits if_splits) (blast intro: map_wf_payload_remove)
  show "mem_inv s' \<and> r = map_of s i \<and> map_of s' = (map_of s)(i := None)"
    if "mem_inv s" "mem_drop i s = (Inr r, s')" for s s' i and r :: "'n payload option"
    using that by (auto simp: mem_inv_def mem_drop_def alist_conv split: if_splits)
qed (auto simp: mem_inv_def mem_wipe_def)

subsection \<open>The storages with a database\<close>

definition disk_abs :: "'d db_contents \<Rightarrow> 'n cbor \<Rightarrow> 'd \<Rightarrow> 'n payloads" where
  "disk_abs con C d i =
     Option.bind (con d DB_PAYLOAD_CF) (\<lambda>m. map_option (\<lambda>b. projr (cb_de_payload C b)) (m (cb_ser_id C i)))"

definition disk_inv :: "'d rocksdb \<Rightarrow> 'd db_contents \<Rightarrow> 'n cbor \<Rightarrow> 'd \<Rightarrow> bool" where
  "disk_inv R con C d \<longleftrightarrow>
     rocks_ok R con \<and> cbor_ok C
     \<and> (\<exists>m. con d DB_PAYLOAD_CF = Some m
          \<and> (\<forall>k b. m k = Some b \<longrightarrow> (\<exists>i p. k = cb_ser_id C i \<and> b = cb_ser_payload C p \<and> map_wf p)))"

lemma cb_ser_id_inj: "cbor_ok C \<Longrightarrow> cb_ser_id C i = cb_ser_id C j \<longleftrightarrow> i = j"
  by (metis cbor_ok_def sum.inject(2))

lemma disk_update_ok:
  assumes "disk_inv R con C d" "map_wf p" "disk_update_storage R C i p d = (Inr u, d')"
  shows "disk_inv R con C d' \<and> disk_abs con C d' = (disk_abs con C d)(i \<mapsto> p)"
proof -
  obtain m where m: "con d DB_PAYLOAD_CF = Some m"
    and wf: "\<And>k b. m k = Some b \<Longrightarrow> \<exists>i p. k = cb_ser_id C i \<and> b = cb_ser_payload C p \<and> map_wf p"
    and ok: "rocks_ok R con" "cbor_ok C"
    using assms(1) by (auto simp: disk_inv_def)
  have d': "con d' DB_PAYLOAD_CF = Some (m(cb_ser_id C i \<mapsto> cb_ser_payload C p))"
    using col_put_ok [OF ok(1)] assms(3) m by (force simp: disk_update_storage_def)
  have "disk_abs con C d' j = ((disk_abs con C d)(i \<mapsto> p)) j" for j
    using d' m ok(2) by (auto simp: disk_abs_def cb_ser_id_inj) (simp add: cbor_ok_def)
  then show ?thesis
    using d' ok wf assms(2) by (auto simp: disk_inv_def)
qed

lemma disk_remove_ok:
  assumes "disk_inv R con C d" "disk_remove_from_storage R C i d = (Inr u, d')"
  shows "disk_inv R con C d' \<and> disk_abs con C d' = (disk_abs con C d)(i := None)"
proof -
  obtain m where m: "con d DB_PAYLOAD_CF = Some m"
    and wf: "\<And>k b. m k = Some b \<Longrightarrow> \<exists>i p. k = cb_ser_id C i \<and> b = cb_ser_payload C p \<and> map_wf p"
    and ok: "rocks_ok R con" "cbor_ok C"
    using assms(1) by (auto simp: disk_inv_def)
  have d': "con d' DB_PAYLOAD_CF = Some (m(cb_ser_id C i := None))"
    using col_remove_ok [OF ok(1)] assms(2) m by (force simp: disk_remove_from_storage_def)
  have "disk_abs con C d' j = ((disk_abs con C d)(i := None)) j" for j
    using d' m ok(2) by (auto simp: disk_abs_def cb_ser_id_inj)
  then show ?thesis
    using d' ok wf by (auto simp: disk_inv_def)
qed

lemma disk_read_ok:
  assumes "disk_inv R con C d" "disk_read_payload R C i d = Inr r"
  shows "r = disk_abs con C d i \<and> (\<forall>p. r = Some p \<longrightarrow> map_wf p)"
proof -
  obtain m where m: "con d DB_PAYLOAD_CF = Some m"
    and wf: "\<And>k b. m k = Some b \<Longrightarrow> \<exists>i p. k = cb_ser_id C i \<and> b = cb_ser_payload C p \<and> map_wf p"
    and ok: "rocks_ok R con" "cbor_ok C"
    using assms(1) by (auto simp: disk_inv_def)
  have "get_cf R DB_PAYLOAD_CF (cb_ser_id C i) d = Inr (m (cb_ser_id C i))"
    using assms(2) rocks_okD(9) [OF ok(1) m, of "cb_ser_id C i"]
    by (cases "get_cf R DB_PAYLOAD_CF (cb_ser_id C i) d")
      (auto simp: disk_read_payload_def col_get_pinned_def res_bind_Inr_iff map_db_err_def)
  then show ?thesis
    using assms(2) m wf [of "cb_ser_id C i"] ok(2)
    by (cases "m (cb_ser_id C i)")
      (auto simp: disk_read_payload_def col_get_pinned_def res_bind_Inr_iff map_db_err_def disk_abs_def
        cbor_error_def cbor_ok_def)
qed

lemma disk_wipe_ok:
  assumes "disk_inv R con C d" "disk_wipe R d = (Inr u, d')"
  shows "disk_inv R con C d' \<and> disk_abs con C d' = Map.empty"
proof -
  have ok: "rocks_ok R con" "cbor_ok C"
    using assms(1) by (auto simp: disk_inv_def)
  have "con d' = (con d)(DB_PAYLOAD_CF \<mapsto> Map.empty)"
    using recreate_column_family_ok [OF ok(1)] assms(2) by (simp add: disk_wipe_def)
  then show ?thesis
    using ok by (auto simp: disk_inv_def disk_abs_def)
qed

lemma disk_delete_ok:
  assumes "disk_inv R con C d" "disk_delete R C i key d = (Inr vs, d')"
  shows "disk_inv R con C d' \<and> (vs, disk_abs con C d') = spec_delete i key (disk_abs con C d)"
proof -
  obtain r where r: "disk_read_payload R C i d = Inr r"
    using assms(2) by (cases "disk_read_payload R C i d") (auto simp: disk_delete_def)
  note abs = disk_read_ok [OF assms(1) r]
  show ?thesis
  proof (cases r)
    case None
    then show ?thesis
      using assms abs r by (auto simp: disk_delete_def spec_delete_def)
  next
    case (Some p)
    obtain res p' where rm: "payload_remove p key = (res, p')" by (cases "payload_remove p key")
    have wf: "map_wf p" "map_wf p'" and at_i: "disk_abs con C d i = Some p"
      using abs Some map_wf_payload_remove [OF _ rm] by auto
    show ?thesis
    proof (cases "res = []")
      case True
      then have "(disk_abs con C d)(i \<mapsto> p') = disk_abs con C d"
        using payload_remove_nothing [OF wf(1), of key p'] rm abs Some by (simp add: fun_upd_idem)
      then show ?thesis
        using True assms r rm Some abs by (auto simp: disk_delete_def spec_delete_def)
    next
      case False
      then have "disk_update_storage R C i p' d = (Inr (), d')" "vs = res"
        using assms(2) r rm Some by (auto simp: disk_delete_def st_bind_Inr)
      then show ?thesis
        using disk_update_ok [OF assms(1) wf(2), of i "()" d'] rm at_i by (simp add: spec_delete_def)
    qed
  qed
qed

lemma disk_assign_ok:
  assumes "disk_inv R con C d" "map_wf p" "disk_assign R C i p d = (Inr (), d')"
  shows "disk_inv R con C d' \<and> disk_abs con C d' = spec_assign i p (disk_abs con C d)"
proof -
  obtain r where r: "disk_read_payload R C i d = Inr r"
    using assms(3) by (cases "disk_read_payload R C i d") (auto simp: disk_assign_def)
  note abs = disk_read_ok [OF assms(1) r]
  define q where "q = (case r of None \<Rightarrow> p | Some pp \<Rightarrow> payload_merge pp p)"
  have q: "disk_update_storage R C i q d = (Inr (), d')" "map_wf q"
    using assms(2,3) r abs by (auto simp: disk_assign_def q_def map_wf_merge split: option.splits)
  show ?thesis
    using disk_update_ok [OF assms(1) q(2,1)] abs by (simp add: spec_assign_def q_def)
qed

lemma disk_payload_ok:
  assumes "disk_inv R con C d" "disk_payload R C i d = Inr p"
  shows "p = spec_payload i (disk_abs con C d)"
proof -
  obtain r where r: "disk_read_payload R C i d = Inr r"
    using assms(2) by (auto simp: disk_payload_def res_bind_Inr_iff)
  show ?thesis
    using disk_read_ok [OF assms(1) r] assms(2) r
    by (auto simp: disk_payload_def spec_payload_def split: option.splits)
qed

lemma disk_drop_ok:
  assumes "disk_inv R con C d" "disk_drop R C i d = (Inr r, d')"
  shows "disk_inv R con C d' \<and> r = disk_abs con C d i \<and> disk_abs con C d' = (disk_abs con C d)(i := None)"
proof -
  have r: "disk_read_payload R C i d = Inr r" "disk_remove_from_storage R C i d = (Inr (), d')"
    using assms(2) by (cases "disk_read_payload R C i d"; auto simp: disk_drop_def st_bind_Inr)+
  show ?thesis
    using disk_read_ok [OF assms(1) r(1)] disk_remove_ok [OF assms(1) r(2)] by simp
qed

interpretation disk: payload_storage "disk_assign R C" "disk_payload R C" "disk_delete R C" "disk_drop R C"
  "disk_wipe R" "disk_abs con C" "disk_inv R con C"
  by unfold_locales (rule disk_assign_ok disk_payload_ok disk_delete_ok disk_drop_ok disk_wipe_ok; assumption)+

definition simple_inv :: "'d rocksdb \<Rightarrow> 'd db_contents \<Rightarrow> 'n cbor \<Rightarrow> ('n, 'd) simple_store \<Rightarrow> bool" where
  "simple_inv R con C s \<longleftrightarrow> mem_inv (fst s) \<and> disk_inv R con C (snd s) \<and> disk_abs con C (snd s) = map_of (fst s)"

lemma simple_update_ok:
  assumes "simple_inv R con C (m, d)" "\<forall>j. j \<noteq> i \<longrightarrow> map_of m' j = map_of m j"
    and "\<forall>p. map_of m' i = Some p \<longrightarrow> map_wf p" "simple_update_storage R C i (m', d) = (Inr (), s')"
  shows "simple_inv R con C s' \<and> fst s' = m'"
proof -
  have inv: "mem_inv m" "disk_inv R con C d" "disk_abs con C d = map_of m"
    using assms(1) by (auto simp: simple_inv_def)
  have "map_wf p" if "map_of m' j = Some p" for j p
    using that assms(2,3) inv(1) by (cases "j = i") (auto simp: mem_inv_def)
  then have mem: "mem_inv m'"
    by (simp add: mem_inv_def)
  show ?thesis
  proof (cases "map_of m' i")
    case None
    then have "disk_remove_from_storage R C i d = (Inr (), snd s')" "fst s' = m'"
      using assms(4) by (auto simp: simple_update_storage_def on_db_Inr disk_remove_from_storage_def)
    moreover have "(map_of m)(i := None) = map_of m'"
      using assms(2) None by auto
    ultimately show ?thesis
      using mem inv disk_remove_ok [of R con C d i "()" "snd s'"] by (simp add: simple_inv_def)
  next
    case (Some p)
    then have "disk_update_storage R C i p d = (Inr (), snd s')" "fst s' = m'"
      using assms(4) by (auto simp: simple_update_storage_def on_db_Inr disk_update_storage_def)
    moreover have "(map_of m)(i \<mapsto> p) = map_of m'"
      using assms(2) Some by auto
    ultimately show ?thesis
      using mem inv assms(3) Some disk_update_ok [of R con C d p i "()" "snd s'"]
      by (simp add: simple_inv_def)
  qed
qed

lemma simple_inv_wf: "simple_inv R con C s \<Longrightarrow> map_of (fst s) i = Some p \<Longrightarrow> map_wf p"
  by (auto simp: simple_inv_def mem_inv_def)

lemma simple_assign_ok:
  assumes "simple_inv R con C s" "map_wf p" "simple_assign R C i p s = (Inr (), s')"
  shows "simple_inv R con C s' \<and> map_of (fst s') = spec_assign i p (map_of (fst s))"
proof -
  define m' where "m' = (case map_of (fst s) i of
      Some q \<Rightarrow> AList.update i (payload_merge q p) (fst s) | None \<Rightarrow> AList.update i p (fst s))"
  have m': "map_of m' = spec_assign i p (map_of (fst s))"
    by (auto simp: m'_def spec_assign_def alist_conv split: option.splits)
  have "map_wf q" if "map_of m' i = Some q" for q
    using that assms(2) simple_inv_wf [OF assms(1), of i]
    by (auto simp: m' spec_assign_def map_wf_merge split: option.splits)
  then have "simple_inv R con C s' \<and> fst s' = m'"
    using simple_update_ok [of R con C "fst s" "snd s" i m' s'] assms(1,3) m'
    by (auto simp: simple_assign_def m'_def [symmetric] spec_assign_def)
  then show ?thesis
    using m' by simp
qed

lemma simple_delete_ok:
  assumes "simple_inv R con C s" "simple_delete R C i key s = (Inr vs, s')"
  shows "simple_inv R con C s' \<and> (vs, map_of (fst s')) = spec_delete i key (map_of (fst s))"
proof (cases "map_of (fst s) i")
  case None
  then show ?thesis
    using assms by (auto simp: simple_delete_def spec_delete_def)
next
  case (Some p)
  obtain res p' where rm: "payload_remove p key = (res, p')" by (cases "payload_remove p key")
  have wf: "map_wf p" "map_wf p'"
    using simple_inv_wf [OF assms(1) Some] map_wf_payload_remove [OF _ rm] by auto
  have vs: "vs = res"
    using assms(2) Some rm by (auto simp: simple_delete_def st_bind_Inr Let_def split: if_splits)
  have "simple_inv R con C s' \<and> map_of (fst s') = (map_of (fst s))(i \<mapsto> p')"
  proof (cases "res = []")
    case True
    then have "p' = p" "s' = (AList.update i p' (fst s), snd s)"
      using payload_remove_nothing [OF wf(1)] rm assms(2) Some by (auto simp: simple_delete_def)
    then show ?thesis
      using assms(1) Some by (simp add: simple_inv_def mem_inv_def alist_conv fun_upd_idem)
  next
    case False
    then have "simple_update_storage R C i (AList.update i p' (fst s), snd s) = (Inr (), s')"
      using assms(2) Some rm by (auto simp: simple_delete_def st_bind_Inr)
    then show ?thesis
      using simple_update_ok [of R con C "fst s" "snd s" i "AList.update i p' (fst s)" s'] assms(1) wf(2)
      by (auto simp: alist_conv)
  qed
  then show ?thesis
    using vs rm Some by (simp add: spec_delete_def)
qed

lemma simple_drop_ok:
  assumes "simple_inv R con C s" "simple_drop R C i s = (Inr r, s')"
  shows "simple_inv R con C s' \<and> r = map_of (fst s) i \<and> map_of (fst s') = (map_of (fst s))(i := None)"
  using assms simple_update_ok [of R con C "fst s" "snd s" i "AList.delete i (fst s)" s']
  by (auto simp: simple_drop_def st_bind_Inr alist_conv)

interpretation simple: payload_storage "simple_assign R C" simple_payload "simple_delete R C" "simple_drop R C"
  "simple_wipe R" "\<lambda>s. map_of (fst s)" "simple_inv R con C"
proof unfold_locales
  show "p = spec_payload i (map_of (fst s))"
    if "simple_inv R con C s" "simple_payload i s = Inr p" for s i p
    using that by (auto simp: simple_payload_def spec_payload_def split: option.splits)
  show "simple_inv R con C s' \<and> map_of (fst s') = Map.empty"
    if "simple_inv R con C s" "simple_wipe R s = (Inr (), s')" for s s'
    using that disk_wipe_ok [of R con C "snd s" "()" "snd s'"]
    by (auto simp: simple_wipe_def simple_inv_def on_db_Inr disk_wipe_def mem_inv_def)
qed (rule simple_assign_ok simple_delete_ok simple_drop_ok; assumption)+

section \<open>The storage of a segment\<close>

datatype 'n payload_storage_enum = InMemoryPS "'n mem_store" | SimplePS "'n mem_store" | OnDiskPS

type_synonym ('n, 'd) enum_store = "'n payload_storage_enum \<times> 'd"

text \<open>Every method of the enum is a match that calls the method of the variant.\<close>

definition enum_op ::
    "('n mem_store, 'e, 'a) st_op \<Rightarrow> (('n, 'd) simple_store, 'e, 'a) st_op \<Rightarrow> ('d, 'e, 'a) st_op \<Rightarrow>
     (('n, 'd) enum_store, 'e, 'a) st_op" where
  "enum_op in_memory simple on_disk s =
     (case fst s of
        InMemoryPS m \<Rightarrow> (case in_memory m of (r, m') \<Rightarrow> (r, (InMemoryPS m', snd s)))
      | SimplePS m \<Rightarrow> (case simple (m, snd s) of (r, (m', d')) \<Rightarrow> (r, (SimplePS m', d')))
      | OnDiskPS \<Rightarrow> (case on_disk (snd s) of (r, d') \<Rightarrow> (r, (OnDiskPS, d'))))"

definition enum_assign ::
    "'d rocksdb \<Rightarrow> 'n cbor \<Rightarrow> point_offset \<Rightarrow> 'n payload \<Rightarrow> (('n, 'd) enum_store, op_error, unit) st_op" where
  "enum_assign R C i p = enum_op (mem_assign i p) (simple_assign R C i p) (disk_assign R C i p)"

definition enum_payload ::
    "'d rocksdb \<Rightarrow> 'n cbor \<Rightarrow> point_offset \<Rightarrow> ('n, 'd) enum_store \<Rightarrow> op_error + 'n payload" where
  "enum_payload R C i s =
     (case fst s of
        InMemoryPS m \<Rightarrow> mem_payload i m
      | SimplePS m \<Rightarrow> simple_payload i (m, snd s)
      | OnDiskPS \<Rightarrow> disk_payload R C i (snd s))"

definition enum_delete ::
    "'d rocksdb \<Rightarrow> 'n cbor \<Rightarrow> point_offset \<Rightarrow> string \<Rightarrow> (('n, 'd) enum_store, op_error, 'n json list) st_op" where
  "enum_delete R C i key = enum_op (mem_delete i key) (simple_delete R C i key) (disk_delete R C i key)"

definition enum_drop ::
    "'d rocksdb \<Rightarrow> 'n cbor \<Rightarrow> point_offset \<Rightarrow> (('n, 'd) enum_store, op_error, 'n payload option) st_op" where
  "enum_drop R C i = enum_op (mem_drop i) (simple_drop R C i) (disk_drop R C i)"

definition enum_wipe :: "'d rocksdb \<Rightarrow> (('n, 'd) enum_store, op_error, unit) st_op" where
  "enum_wipe R = enum_op mem_wipe (simple_wipe R) (disk_wipe R)"

fun disk_iter_entries ::
    "'n cbor \<Rightarrow> (point_offset \<Rightarrow> 'n payload \<Rightarrow> ('c, op_error, bool) st_op) \<Rightarrow> (bytes \<times> bytes) list \<Rightarrow>
     ('c, op_error, unit) st_op" where
  "disk_iter_entries C callback [] c = (Inr (), c)"
| "disk_iter_entries C callback ((key, val) # kvs) c =
     (case res_bind (cbor_error (cb_de_id C key)) (\<lambda>i.
             result_map (\<lambda>p. (i, p)) (cbor_error (cb_de_payload C val))) of
        Inl e \<Rightarrow> (Inl e, c)
      | Inr (i, p) \<Rightarrow>
          (case callback i p c of
             (Inl e, c') \<Rightarrow> (Inl e, c')
           | (Inr do_continue, c') \<Rightarrow>
               if \<not> do_continue then (Inr (), c') else disk_iter_entries C callback kvs c'))"

definition disk_iter ::
    "'d rocksdb \<Rightarrow> 'n cbor \<Rightarrow> (point_offset \<Rightarrow> 'n payload \<Rightarrow> ('c, op_error, bool) st_op) \<Rightarrow> 'd \<Rightarrow>
     ('c, op_error, unit) st_op" where
  "disk_iter R C callback d c =
     (case col_iter R DB_PAYLOAD_CF d of Inl e \<Rightarrow> (Inl e, c) | Inr kvs \<Rightarrow> disk_iter_entries C callback kvs c)"

definition enum_iter ::
    "'d rocksdb \<Rightarrow> 'n cbor \<Rightarrow> (point_offset \<Rightarrow> 'n payload \<Rightarrow> ('c, op_error, bool) st_op) \<Rightarrow>
     ('n, 'd) enum_store \<Rightarrow> ('c, op_error, unit) st_op" where
  "enum_iter R C callback s =
     (case fst s of
        InMemoryPS m \<Rightarrow> mem_iter callback m
      | SimplePS m \<Rightarrow> mem_iter callback m
      | OnDiskPS \<Rightarrow> disk_iter R C callback (snd s))"

fun enum_abs :: "'d db_contents \<Rightarrow> 'n cbor \<Rightarrow> ('n, 'd) enum_store \<Rightarrow> 'n payloads" where
  "enum_abs con C (InMemoryPS m, d) = map_of m"
| "enum_abs con C (SimplePS m, d) = map_of m"
| "enum_abs con C (OnDiskPS, d) = disk_abs con C d"

fun enum_inv :: "'d rocksdb \<Rightarrow> 'd db_contents \<Rightarrow> 'n cbor \<Rightarrow> ('n, 'd) enum_store \<Rightarrow> bool" where
  "enum_inv R con C (InMemoryPS m, d) = mem_inv m"
| "enum_inv R con C (SimplePS m, d) = simple_inv R con C (m, d)"
| "enum_inv R con C (OnDiskPS, d) = disk_inv R con C d"

lemma enum_op_ok:
  assumes "enum_inv R con C s" "enum_op f g h s = (r, s')"
    and "\<And>m m'. \<lbrakk>mem_inv m; f m = (r, m')\<rbrakk> \<Longrightarrow> mem_inv m' \<and> P (map_of m) (map_of m')"
    and "\<And>t t'. \<lbrakk>simple_inv R con C t; g t = (r, t')\<rbrakk> \<Longrightarrow>
          simple_inv R con C t' \<and> P (map_of (fst t)) (map_of (fst t'))"
    and "\<And>d d'. \<lbrakk>disk_inv R con C d; h d = (r, d')\<rbrakk> \<Longrightarrow>
          disk_inv R con C d' \<and> P (disk_abs con C d) (disk_abs con C d')"
  shows "enum_inv R con C s' \<and> P (enum_abs con C s) (enum_abs con C s')"
proof (cases s)
  case s: (Pair e d)
  show ?thesis
  proof (cases e)
    case (InMemoryPS m)
    then obtain m' where "f m = (r, m')" "s' = (InMemoryPS m', d)"
      using assms(2) s by (auto simp: enum_op_def split: prod.splits)
    then show ?thesis
      using assms(1) assms(3) [of m m'] s InMemoryPS by simp
  next
    case (SimplePS m)
    then obtain m' d' where "g (m, d) = (r, (m', d'))" "s' = (SimplePS m', d')"
      using assms(2) s by (auto simp: enum_op_def split: prod.splits)
    then show ?thesis
      using assms(1) assms(4) [of "(m, d)" "(m', d')"] s SimplePS by simp
  next
    case OnDiskPS
    then obtain d' where "h d = (r, d')" "s' = (OnDiskPS, d')"
      using assms(2) s by (auto simp: enum_op_def split: prod.splits)
    then show ?thesis
      using assms(1) assms(5) [of d d'] s OnDiskPS by simp
  qed
qed

interpretation enum: payload_storage "enum_assign R C" "enum_payload R C" "enum_delete R C" "enum_drop R C"
  "enum_wipe R" "enum_abs con C" "enum_inv R con C"
proof unfold_locales
  show "enum_inv R con C s' \<and> enum_abs con C s' = spec_assign i p (enum_abs con C s)"
    if "enum_inv R con C s" "map_wf p" "enum_assign R C i p s = (Inr (), s')" for s s' i p
    by (rule enum_op_ok [OF that(1) that(3) [unfolded enum_assign_def], where P = "\<lambda>m m'. m' = spec_assign i p m"])
      (rule mem.assign_ok [OF _ that(2)] simple_assign_ok [OF _ that(2)] disk_assign_ok [OF _ that(2)];
        assumption)+
  show "p = spec_payload i (enum_abs con C s)"
    if "enum_inv R con C s" "enum_payload R C i s = Inr p" for s i p
    using that simple.payload_ok [of R con C "(_, snd s)" i p]
    by (cases "(con, C, s)" rule: enum_abs.cases)
      (auto simp: enum_payload_def intro: mem.payload_ok disk_payload_ok)
  show "enum_inv R con C s' \<and> (vs, enum_abs con C s') = spec_delete i key (enum_abs con C s)"
    if "enum_inv R con C s" "enum_delete R C i key s = (Inr vs, s')" for s s' i key vs
    by (rule enum_op_ok [OF that(1) that(2) [unfolded enum_delete_def], where P = "\<lambda>m m'. (vs, m') = spec_delete i key m"])
      (rule mem.delete_ok simple_delete_ok disk_delete_ok; assumption)+
  show "enum_inv R con C s' \<and> r = enum_abs con C s i \<and> enum_abs con C s' = (enum_abs con C s)(i := None)"
    if "enum_inv R con C s" "enum_drop R C i s = (Inr r, s')" for s s' i r
    by (rule enum_op_ok [OF that(1) that(2) [unfolded enum_drop_def], where P = "\<lambda>m m'. r = m i \<and> m' = m(i := None)"])
      (rule mem.drop_ok simple_drop_ok disk_drop_ok; assumption)+
  show "enum_inv R con C s' \<and> enum_abs con C s' = Map.empty"
    if "enum_inv R con C s" "enum_wipe R s = (Inr (), s')" for s s'
    by (rule enum_op_ok [OF that(1) that(2) [unfolded enum_wipe_def], where P = "\<lambda>m m'. m' = Map.empty"])
      (rule mem.wipe_ok simple.wipe_ok disk_wipe_ok; assumption)+
qed

section \<open>Properties\<close>

datatype 'n storage_cmd = Assign point_offset "'n payload" | AssignAll point_offset "'n payload"
  | Delete point_offset string | DropPoint point_offset | Wipe

fun run_cmd :: "'d rocksdb \<Rightarrow> 'n cbor \<Rightarrow> 'n storage_cmd \<Rightarrow> (('n, 'd) enum_store, op_error, unit) st_op" where
  "run_cmd R C (Assign i p) = enum_assign R C i p"
| "run_cmd R C (AssignAll i p) = storage_assign_all (enum_drop R C) (enum_assign R C) i p"
| "run_cmd R C (Delete i key) = st_bind (enum_delete R C i key) (\<lambda>_ s. (Inr (), s))"
| "run_cmd R C (DropPoint i) = st_bind (enum_drop R C i) (\<lambda>_ s. (Inr (), s))"
| "run_cmd R C Wipe = enum_wipe R"

fun run_cmds :: "'d rocksdb \<Rightarrow> 'n cbor \<Rightarrow> 'n storage_cmd list \<Rightarrow> (('n, 'd) enum_store, op_error, unit) st_op" where
  "run_cmds R C [] s = (Inr (), s)"
| "run_cmds R C (c # cs) s = st_bind (run_cmd R C c) (\<lambda>_. run_cmds R C cs) s"

fun spec_cmd :: "'n payloads \<Rightarrow> 'n storage_cmd \<Rightarrow> 'n payloads" where
  "spec_cmd m (Assign i p) = spec_assign i p m"
| "spec_cmd m (AssignAll i p) = m(i \<mapsto> p)"
| "spec_cmd m (Delete i key) = snd (spec_delete i key m)"
| "spec_cmd m (DropPoint i) = m(i := None)"
| "spec_cmd m Wipe = Map.empty"

fun cmd_wf :: "'n storage_cmd \<Rightarrow> bool" where
  "cmd_wf (Assign i p) = map_wf p"
| "cmd_wf (AssignAll i p) = map_wf p"
| "cmd_wf _ = True"

lemma run_cmd_refines:
  assumes "enum_inv R con C s" "cmd_wf c" "run_cmd R C c s = (Inr (), s')"
  shows "enum_inv R con C s' \<and> enum_abs con C s' = spec_cmd (enum_abs con C s) c"
proof (cases c)
  case (Delete i key)
  then obtain vs where "enum_delete R C i key s = (Inr vs, s')"
    using assms(3) by (auto simp: st_bind_Inr)
  from enum.delete_ok [OF assms(1) this] show ?thesis
    using Delete by (simp add: prod_eq_iff)
next
  case (DropPoint i)
  then obtain r where "enum_drop R C i s = (Inr r, s')"
    using assms(3) by (auto simp: st_bind_Inr)
  from enum.drop_ok [OF assms(1) this] show ?thesis
    using DropPoint by simp
next
  case (Assign i p)
  then show ?thesis
    using enum.assign_ok [OF assms(1), of p i s'] assms(2,3) by simp
next
  case (AssignAll i p)
  then show ?thesis
    using enum.assign_all_ok [OF assms(1), of p i s'] assms(2,3) by simp
next
  case Wipe
  then show ?thesis
    using enum.wipe_ok [OF assms(1), of s'] assms(3) by simp
qed

text \<open>
  C4. Every payload storage refines the map from offsets to payloads: a successful sequence of
  assignments, replacements, deletions by path, drops and wipes on the storage of a segment, in whichever
  of its three forms, has exactly the effect of the same sequence on the abstract map.
\<close>

theorem payload_storage_refines:
  assumes "enum_inv R con C s" "list_all cmd_wf cs" "run_cmds R C cs s = (Inr (), s')"
  shows "enum_inv R con C s' \<and> enum_abs con C s' = foldl spec_cmd (enum_abs con C s) cs
    \<and> (\<forall>i p. enum_payload R C i s' = Inr p \<longrightarrow> p = spec_payload i (foldl spec_cmd (enum_abs con C s) cs))"
proof -
  have "enum_inv R con C s' \<and> enum_abs con C s' = foldl spec_cmd (enum_abs con C s) cs"
    using assms
  proof (induction cs arbitrary: s)
    case (Cons c cs)
    then obtain s1 where s1: "run_cmd R C c s = (Inr (), s1)" "run_cmds R C cs s1 = (Inr (), s')"
      by (auto simp: st_bind_Inr)
    then show ?case
      using Cons.prems Cons.IH [of s1] run_cmd_refines [OF Cons.prems(1) _ s1(1)] by simp
  qed simp
  then show ?thesis
    using enum.payload_ok [of R con C s'] by auto
qed

text \<open>A codec that keeps the promises: a number in unary, and the number of a payload in an enumeration.\<close>

instance json :: (countable) countable
  by countable_datatype

definition unary_cbor :: "'n::countable cbor" where
  "unary_cbor = \<lparr>cb_ser_id = (\<lambda>i. replicate i 0), cb_de_id = (\<lambda>b. Inr (length b)),
     cb_ser_payload = (\<lambda>p. replicate (to_nat p) 0), cb_de_payload = (\<lambda>b. Inr (from_nat (length b)))\<rparr>"

lemma unary_cbor_ok: "cbor_ok unary_cbor"
  by (simp add: cbor_ok_def unary_cbor_def)

theorem payload_storage_refines_witness:
  "let s = (OnDiskPS, [(DB_PAYLOAD_CF, [])]); cs = [Assign 0 [(''a'', JNumber (1::int))]]
   in enum_abs mem_contents unary_cbor (snd (run_cmds mem_rocksdb unary_cbor cs s)) 0
        = Some [(''a'', JNumber 1)]"
proof -
  let ?s = "(OnDiskPS :: int payload_storage_enum, [(DB_PAYLOAD_CF, [])] :: mem_db)" and ?cs = "[Assign 0 [(''a'', JNumber (1::int))]]"
  have "enum_inv mem_rocksdb mem_contents unary_cbor ?s" "list_all cmd_wf ?cs"
    by (simp_all add: disk_inv_def rocks_ok_mem unary_cbor_ok mem_contents_def map_wf_def bt_wf_def)
  moreover obtain s' where "run_cmds mem_rocksdb unary_cbor ?cs ?s = (Inr (), s')"
    by (simp add: st_bind_def enum_assign_def enum_op_def disk_assign_def disk_read_payload_def
        col_get_pinned_def get_column_family_def mem_rocksdb_def mem_family_def map_db_err_def
        disk_update_storage_def col_put_def)
  ultimately show ?thesis
    using payload_storage_refines [of mem_rocksdb mem_contents unary_cbor ?s ?cs s']
    by (simp add: spec_assign_def disk_abs_def mem_contents_def)
qed

lemma load_payloads_map:
  assumes "cbor_ok C" "\<forall>(k, b) \<in> set kvs. \<exists>i p. k = cb_ser_id C i \<and> b = cb_ser_payload C p" "distinct (map fst kvs)"
  shows "\<exists>s'. load_payloads C kvs s = Inr s' \<and>
    (\<forall>i. map_of s' i = (case map_of kvs (cb_ser_id C i) of None \<Rightarrow> map_of s i | Some b \<Rightarrow> Some (projr (cb_de_payload C b))))"
  using assms(2,3)
proof (induction kvs arbitrary: s)
  case (Cons kb kvs)
  obtain j p where kb: "kb = (cb_ser_id C j, cb_ser_payload C p)"
    using Cons.prems by (cases kb) auto
  obtain s' where s': "load_payloads C kvs (AList.update j p s) = Inr s'"
    "\<forall>i. map_of s' i = (case map_of kvs (cb_ser_id C i) of
        None \<Rightarrow> map_of (AList.update j p s) i | Some b \<Rightarrow> Some (projr (cb_de_payload C b)))"
    using Cons.IH [of "AList.update j p s"] Cons.prems by auto
  have "map_of kvs (cb_ser_id C j) = None"
    using Cons.prems kb by (auto simp: map_of_eq_None_iff)
  then show ?case
    using s' assms(1) kb
    by (auto simp: cb_ser_id_inj alist_conv cbor_ok_def split: option.splits)
qed simp



end
