(* ===== verification/Rust_Float.thy ===== *)
theory Rust_Float
  imports Rust_Text "HOL-Library.Log_Nat"
begin

text \<open>
  The arithmetic of \<open>f64\<close> that the code uses: IEEE 754 double precision with rounding to nearest, ties to
  even. A finite value is the rational number it denotes; the sign of a zero is not kept, so that a
  division by zero is a division by the positive zero.
\<close>

section \<open>Rounding\<close>

text \<open>The exponent of a positive rational: the largest \<open>e\<close> with \<open>2 powi e \<le> q\<close>.\<close>

definition rat_exponent :: "rat \<Rightarrow> int" where
  "rat_exponent q =
     (let (n, d) = quotient_of q; e = int (floorlog 2 (nat n)) - int (floorlog 2 (nat d))
      in if 2 powi e \<le> q then e else e - 1)"

definition round_half_even :: "rat \<Rightarrow> int" where
  "round_half_even x =
     (let f = \<lfloor>x\<rfloor>; r = x - of_int f
      in if r < 1 / 2 then f else if 1 / 2 < r then f + 1 else if even f then f else f + 1)"

definition f64_unit :: "rat \<Rightarrow> rat" where
  "f64_unit q = 2 powi max (rat_exponent q - 52) (- 1074)"

definition round_pos :: "rat \<Rightarrow> rat" where
  "round_pos q = of_int (round_half_even (q / f64_unit q)) * f64_unit q"

definition f64_of_rat :: "rat \<Rightarrow> f64" where
  "f64_of_rat q =
     (if q = 0 then F64Fin 0
      else let v = round_pos \<bar>q\<bar>
           in if 2 ^ 1024 \<le> v then F64Inf (q < 0) else F64Fin (if q < 0 then - v else v))"

section \<open>Operations\<close>

definition f64_of_nat :: "nat \<Rightarrow> f64" where
  "f64_of_nat n = f64_of_rat (of_nat n)"

fun f64_neg :: "f64 \<Rightarrow> f64" where
  "f64_neg F64NaN = F64NaN"
| "f64_neg (F64Inf s) = F64Inf (\<not> s)"
| "f64_neg (F64Fin x) = F64Fin (- x)"

fun f64_add :: "f64 \<Rightarrow> f64 \<Rightarrow> f64" where
  "f64_add (F64Fin x) (F64Fin y) = f64_of_rat (x + y)"
| "f64_add (F64Inf a) (F64Inf b) = (if a = b then F64Inf a else F64NaN)"
| "f64_add (F64Inf a) (F64Fin _) = F64Inf a"
| "f64_add (F64Fin _) (F64Inf b) = F64Inf b"
| "f64_add _ _ = F64NaN"

definition f64_sub :: "f64 \<Rightarrow> f64 \<Rightarrow> f64" where
  "f64_sub x y = f64_add x (f64_neg y)"

fun f64_mul :: "f64 \<Rightarrow> f64 \<Rightarrow> f64" where
  "f64_mul (F64Fin x) (F64Fin y) = f64_of_rat (x * y)"
| "f64_mul (F64Inf a) (F64Inf b) = F64Inf (a \<noteq> b)"
| "f64_mul (F64Inf a) (F64Fin y) = (if y = 0 then F64NaN else F64Inf (a \<noteq> (y < 0)))"
| "f64_mul (F64Fin x) (F64Inf b) = (if x = 0 then F64NaN else F64Inf ((x < 0) \<noteq> b))"
| "f64_mul _ _ = F64NaN"

fun f64_div :: "f64 \<Rightarrow> f64 \<Rightarrow> f64" where
  "f64_div (F64Fin x) (F64Fin y) =
     (if y \<noteq> 0 then f64_of_rat (x / y) else if x = 0 then F64NaN else F64Inf (x < 0))"
| "f64_div (F64Inf a) (F64Fin y) = F64Inf (a \<noteq> (y < 0))"
| "f64_div (F64Fin _) (F64Inf _) = F64Fin 0"
| "f64_div _ _ = F64NaN"

text \<open>\<open>f64::round\<close>: to the nearest integer, halves away from zero.\<close>

fun f64_round :: "f64 \<Rightarrow> f64" where
  "f64_round (F64Fin x) =
     F64Fin (of_int (if 0 \<le> x then \<lfloor>x + 1 / 2\<rfloor> else - \<lfloor>1 / 2 - x\<rfloor>))"
| "f64_round x = x"

text \<open>The saturating cast \<open>as usize\<close>.\<close>

fun f64_as_usize :: "f64 \<Rightarrow> nat" where
  "f64_as_usize F64NaN = 0"
| "f64_as_usize (F64Inf neg) = (if neg then 0 else 2 ^ 64 - 1)"
| "f64_as_usize (F64Fin x) = (if x \<le> 0 then 0 else min (nat \<lfloor>x\<rfloor>) (2 ^ 64 - 1))"

section \<open>Bounds of rounding\<close>

lemma quotient_of_pos:
  assumes "0 < q" "quotient_of q = (n, d)"
  shows "0 < n" "0 < d" "q = of_int n / of_int d"
proof -
  show d: "0 < d" using quotient_of_denom_pos [OF assms(2)] .
  show q: "q = of_int n / of_int d" using quotient_of_div [OF assms(2)] .
  show "0 < n" using assms(1) d unfolding q by (simp add: zero_less_divide_iff)
qed

lemma floorlog_bounds_rat:
  assumes "0 < n"
  shows "2 powi (int (floorlog 2 (nat n)) - 1) \<le> (of_int n :: rat)"
    "(of_int n :: rat) < 2 powi int (floorlog 2 (nat n))"
proof -
  let ?k = "floorlog 2 (nat n)"
  have "2 ^ (?k - 1) \<le> nat n" "nat n < 2 ^ ?k" "0 < ?k"
    using floorlog_bounds [of "nat n" 2] assms by (auto simp: floorlog_def)
  then have "2 ^ (?k - 1) \<le> n" "n < 2 ^ ?k"
    using assms by (auto simp: nat_less_iff le_nat_iff)
  then have bounds: "(2::rat) ^ (?k - 1) \<le> of_int n" "of_int n < (2::rat) ^ ?k"
    by (metis of_int_le_iff of_int_numeral of_int_power)
      (metis \<open>n < 2 ^ ?k\<close> of_int_less_iff of_int_numeral of_int_power)
  have "(2::rat) ^ (?k - 1) = 2 powi (int ?k - 1)"
    using \<open>0 < ?k\<close> by (simp add: of_nat_diff flip: power_int_of_nat)
  then show "2 powi (int ?k - 1) \<le> (of_int n :: rat)"
    using bounds(1) by (simp only:)
  show "(of_int n :: rat) < 2 powi int ?k"
    using bounds(2) by (simp only: power_int_of_nat)
qed

lemma rat_exponent_bounds:
  assumes "0 < q"
  shows "2 powi rat_exponent q \<le> q" "q < 2 powi (rat_exponent q + 1)"
proof -
  obtain n d where nd: "quotient_of q = (n, d)" by (cases "quotient_of q")
  note q = quotient_of_pos [OF assms nd]
  define a where "a = int (floorlog 2 (nat n))"
  define b where "b = int (floorlog 2 (nat d))"
  have n: "2 powi (a - 1) \<le> (of_int n :: rat)" "(of_int n :: rat) < 2 powi a"
    using floorlog_bounds_rat [OF q(1)] by (auto simp: a_def)
  have d: "2 powi (b - 1) \<le> (of_int d :: rat)" "(of_int d :: rat) < 2 powi b"
    using floorlog_bounds_rat [OF q(2)] by (auto simp: b_def)
  have upper: "q < 2 powi (a - b + 1)"
  proof -
    have "q < 2 powi a / 2 powi (b - 1)"
      unfolding q(3) using n d q by (intro frac_less) (auto simp: zero_less_power_int)
    also have "\<dots> = 2 powi (a - b + 1)"
      by (simp add: power_int_diff power_int_add)
    finally show ?thesis .
  qed
  have lower: "2 powi (a - b - 1) \<le> q"
  proof -
    have "2 powi (a - 1) / 2 powi b \<le> q"
      unfolding q(3) using n d q by (intro frac_le) auto
    moreover have "(2::rat) powi (a - 1) / 2 powi b = 2 powi (a - b - 1)"
      by (simp add: power_int_diff)
    ultimately show ?thesis by simp
  qed
  have e: "rat_exponent q = (if 2 powi (a - b) \<le> q then a - b else a - b - 1)"
    by (simp add: rat_exponent_def nd a_def b_def Let_def)
  show "2 powi rat_exponent q \<le> q" "q < 2 powi (rat_exponent q + 1)"
    using upper lower unfolding e by auto
qed

lemma round_half_even_le: "x \<le> of_int k \<Longrightarrow> round_half_even x \<le> k"
  unfolding round_half_even_def Let_def
  by (auto simp: floor_le_iff not_less)

lemma round_half_even_nonneg: "0 \<le> x \<Longrightarrow> 0 \<le> round_half_even x"
  by (auto simp: round_half_even_def Let_def)

lemma f64_unit_pos [simp]: "0 < f64_unit q"
  by (simp add: f64_unit_def zero_less_power_int)

lemma round_pos_nonneg: "0 \<le> q \<Longrightarrow> 0 \<le> round_pos q"
  by (simp add: round_pos_def round_half_even_nonneg less_imp_le)

lemma f64_unit_below:
  assumes "0 < q" "q \<le> of_nat T" "T < 2 ^ 53"
  shows "\<exists>j. f64_unit q = 1 / 2 ^ j"
proof -
  have "2 powi rat_exponent q \<le> q"
    using rat_exponent_bounds(1) [OF assms(1)] .
  also have "q < 2 powi 53"
    using assms(2,3) by (metis le_less_trans of_nat_less_iff of_nat_numeral of_nat_power power_int_numeral)
  finally have lt: "(2::rat) powi rat_exponent q < 2 powi 53" .
  have "rat_exponent q < 53"
  proof (rule ccontr)
    assume "\<not> rat_exponent q < 53"
    then have "(2::rat) powi 53 \<le> 2 powi rat_exponent q"
      by (intro power_int_increasing) auto
    with lt show False by simp
  qed
  then have "max (rat_exponent q - 52) (- 1074) \<le> 0"
    by simp
  then obtain j where "max (rat_exponent q - 52) (- 1074) = - int j"
    by (metis nonpos_int_cases)
  then show ?thesis
    by (auto simp: f64_unit_def power_int_minus divide_inverse)
qed

lemma round_pos_le:
  assumes "0 < q" "q \<le> of_nat T" "T < 2 ^ 53"
  shows "round_pos q \<le> of_nat T"
proof -
  obtain j where u: "f64_unit q = 1 / 2 ^ j"
    using f64_unit_below [OF assms] by blast
  have "q / f64_unit q \<le> of_int (int T * 2 ^ j)"
    using assms(2) by (simp add: u mult_right_mono)
  then have "round_half_even (q / f64_unit q) \<le> int T * 2 ^ j"
    by (rule round_half_even_le)
  then have "of_int (round_half_even (q / f64_unit q)) \<le> (of_int (int T * 2 ^ j) :: rat)"
    by (simp only: of_int_le_iff)
  then have "of_int (round_half_even (q / f64_unit q)) \<le> (of_nat T * 2 ^ j :: rat)"
    by simp
  then show ?thesis
    by (simp add: round_pos_def u divide_le_eq)
qed

lemma round_pos_of_nat:
  assumes "0 < n" "n < 2 ^ 53"
  shows "round_pos (of_nat n) = of_nat n"
proof -
  obtain j where u: "f64_unit (of_nat n) = 1 / 2 ^ j"
    using f64_unit_below [of "of_nat n" n] assms by auto
  have q: "of_nat n / f64_unit (of_nat n) = of_int (int n * 2 ^ j)"
    by (simp add: u)
  have "round_half_even (of_int (int n * 2 ^ j)) = int n * 2 ^ j"
    unfolding round_half_even_def Let_def floor_of_int by simp
  then show ?thesis
    unfolding round_pos_def q by (simp add: u)
qed

text \<open>Rounding stays between zero and any whole number below \<open>2 ^ 53\<close> that bounds the exact result.\<close>

lemma f64_of_rat_bounds:
  assumes "0 \<le> q" "q \<le> of_nat T" "T < 2 ^ 53"
  shows "\<exists>v. f64_of_rat q = F64Fin v \<and> 0 \<le> v \<and> v \<le> of_nat T"
proof (cases "q = 0")
  case False
  have v: "0 \<le> round_pos q" "round_pos q \<le> of_nat T"
    using round_pos_nonneg [OF assms(1)] round_pos_le [OF _ assms(2,3)] assms(1) False by auto
  have "(of_nat T :: rat) < 2 ^ 53"
    using assms(3) by (metis of_nat_less_iff of_nat_numeral of_nat_power)
  then have "\<not> 2 ^ 1024 \<le> round_pos q"
    using v(2) power_strict_increasing [of 53 1024 "2::rat"] by linarith
  then show ?thesis
    using v assms(1) False by (simp add: f64_of_rat_def)
qed (simp add: f64_of_rat_def)

definition f64_is_prob :: "f64 \<Rightarrow> bool" where
  "f64_is_prob x \<longleftrightarrow> (\<exists>p. x = F64Fin p \<and> 0 \<le> p \<and> p \<le> 1)"

lemma f64_of_rat_prob: "\<lbrakk>0 \<le> q; q \<le> 1\<rbrakk> \<Longrightarrow> f64_is_prob (f64_of_rat q)"
  using f64_of_rat_bounds [of q 1] by (auto simp: f64_is_prob_def)

lemma f64_mul_prob: "\<lbrakk>f64_is_prob x; f64_is_prob y\<rbrakk> \<Longrightarrow> f64_is_prob (f64_mul x y)"
  by (auto simp: f64_is_prob_def [of x] f64_is_prob_def [of y] intro!: f64_of_rat_prob mult_le_one)

lemma f64_one_minus_prob: "f64_is_prob x \<Longrightarrow> f64_is_prob (f64_sub (F64Fin 1) x)"
  by (auto simp: f64_is_prob_def [of x] f64_sub_def intro!: f64_of_rat_prob)

lemma f64_of_nat_exact: "n < 2 ^ 53 \<Longrightarrow> f64_of_nat n = F64Fin (of_nat n)"
proof (cases "n = 0")
  case False
  assume n: "n < 2 ^ 53"
  then have v: "round_pos (of_nat n) = of_nat n"
    using round_pos_of_nat False by simp
  then show ?thesis
    using f64_of_rat_bounds [of "of_nat n" n] n False
    by (auto simp: f64_of_nat_def f64_of_rat_def split: if_splits)
qed (simp add: f64_of_nat_def f64_of_rat_def)

lemma f64_ratio_prob:
  assumes "n \<le> d" "0 < d" "d < 2 ^ 53"
  shows "f64_is_prob (f64_div (f64_of_nat n) (f64_of_nat d))"
  using assms by (simp add: f64_of_nat_exact f64_of_rat_prob)

lemma f64_scaled_prob_le:
  assumes "f64_is_prob x" "T < 2 ^ 53"
  shows "f64_as_usize (f64_round (f64_mul x (f64_of_nat T))) \<le> T"
proof -
  obtain p where p: "x = F64Fin p" "0 \<le> p" "p \<le> 1"
    using assms(1) by (auto simp: f64_is_prob_def)
  have "p * of_nat T \<le> of_nat T"
    using p mult_right_mono [of p 1 "of_nat T"] by simp
  then obtain v where v: "f64_mul x (f64_of_nat T) = F64Fin v" "0 \<le> v" "v \<le> of_nat T"
    using f64_of_rat_bounds [of "p * of_nat T" T] p assms(2) by (auto simp: f64_of_nat_exact)
  then have "\<lfloor>v + 1 / 2\<rfloor> \<le> int T"
    by (simp add: floor_le_iff)
  then show ?thesis
    using v by (auto simp: min_def)
qed

end
