(* ===== verification/Query_Estimator.thy ===== *)
theory Query_Estimator
  imports Filters Rust_Float
begin

text \<open>
  Cardinality estimations and their combination along a filter
  (\<open>lib/segment/src/index/field_index/mod.rs\<close>, \<open>lib/segment/src/index/query_estimator.rs\<close>).

  Counts are \<open>usize\<close> values below \<open>2 ^ 64\<close> as natural numbers, with the wrap-around of the release build
  written out where the code subtracts, sums or casts.
\<close>

section \<open>Estimations\<close>

datatype primary_condition =
    PCondition field_condition
  | PIsEmpty string
  | PIsNull string
  | PIds "point_offset set"

record cardinality_estimation =
  primary_clauses :: "primary_condition list"
  ce_min :: nat
  ce_exp :: nat
  ce_max :: nat

definition exact :: "nat \<Rightarrow> cardinality_estimation" where
  "exact n = \<lparr>primary_clauses = [], ce_min = n, ce_exp = n, ce_max = n\<rparr>"

definition unknown :: "nat \<Rightarrow> cardinality_estimation" where
  "unknown tot = \<lparr>primary_clauses = [], ce_min = 0, ce_exp = tot div 2, ce_max = tot\<rparr>"

definition usize_sum :: "nat list \<Rightarrow> nat" where
  "usize_sum ns = sum_list ns mod 2 ^ 64"

fun should_clauses :: "cardinality_estimation list \<Rightarrow> primary_condition list \<Rightarrow> primary_condition list" where
  "should_clauses [] clauses = clauses"
| "should_clauses (e # es) clauses =
     (if primary_clauses e = [] then [] else should_clauses es (clauses @ primary_clauses e))"

definition f64_product :: "f64 list \<Rightarrow> f64" where
  "f64_product xs = foldl f64_mul (F64Fin 1) xs"

definition combine_should_estimations :: "cardinality_estimation list \<Rightarrow> nat \<Rightarrow> cardinality_estimation" where
  "combine_should_estimations estimations tot =
     (let element_not_hit_prob =
            f64_product (map (\<lambda>x. f64_div (f64_of_nat (usize_sub tot (ce_exp x))) (f64_of_nat tot)) estimations);
          element_hit_prob = f64_sub (F64Fin 1) element_not_hit_prob
      in \<lparr>primary_clauses = should_clauses estimations [],
          ce_min = foldl max 0 (map ce_min estimations),
          ce_exp = f64_as_usize (f64_round (f64_mul element_hit_prob (f64_of_nat tot))),
          ce_max = min (usize_sum (map ce_max estimations)) tot\<rparr>)"

definition must_min_step :: "nat \<Rightarrow> int \<Rightarrow> nat \<Rightarrow> int" where
  "must_min_step tot acc x = max 0 (i64_wrap (acc + i64_wrap (int x) - i64_wrap (int tot)))"

text \<open>\<open>Iterator::min_by_key\<close>: the first element with the least key.\<close>

fun min_by_key :: "('a \<Rightarrow> nat) \<Rightarrow> 'a list \<Rightarrow> 'a option" where
  "min_by_key f [] = None"
| "min_by_key f (x # xs) =
     (case min_by_key f xs of None \<Rightarrow> Some x | Some y \<Rightarrow> if f x \<le> f y then Some x else Some y)"

definition combine_must_estimations :: "cardinality_estimation list \<Rightarrow> nat \<Rightarrow> cardinality_estimation" where
  "combine_must_estimations estimations tot =
     (let min_estimation = nat (foldl (must_min_step tot) (i64_wrap (int tot)) (map ce_min estimations) mod 2 ^ 64);
          max_estimation = (case estimations of [] \<Rightarrow> tot | e # es \<Rightarrow> foldl min (ce_max e) (map ce_max es));
          exp_estimation_prob = f64_product (map (\<lambda>x. f64_div (f64_of_nat (ce_exp x)) (f64_of_nat tot)) estimations);
          exp_estimation = f64_as_usize (f64_round (f64_mul exp_estimation_prob (f64_of_nat tot)));
          clauses = (case min_by_key ce_exp (filter (\<lambda>x. primary_clauses x \<noteq> []) estimations) of
                       None \<Rightarrow> [] | Some x \<Rightarrow> primary_clauses x)
      in \<lparr>primary_clauses = clauses, ce_min = min_estimation, ce_exp = exp_estimation, ce_max = max_estimation\<rparr>)"

definition invert_estimation :: "cardinality_estimation \<Rightarrow> nat \<Rightarrow> cardinality_estimation" where
  "invert_estimation e tot =
     \<lparr>primary_clauses = [], ce_min = usize_sub tot (ce_max e), ce_exp = usize_sub tot (ce_exp e),
      ce_max = usize_sub tot (ce_min e)\<rparr>"

section \<open>Estimating a filter\<close>

definition non_empty :: "'a list option \<Rightarrow> 'a list" where
  "non_empty x = (case x of None \<Rightarrow> [] | Some cs \<Rightarrow> cs)"

function (sequential) estimate_condition ::
    "(condition \<Rightarrow> cardinality_estimation) \<Rightarrow> nat \<Rightarrow> condition \<Rightarrow> cardinality_estimation"
  and estimate_filter ::
    "(condition \<Rightarrow> cardinality_estimation) \<Rightarrow> nat \<Rightarrow> filter_query \<Rightarrow> cardinality_estimation" where
  "estimate_condition estimator tot (CFilter f) = estimate_filter estimator tot f"
| "estimate_condition estimator tot c = estimator c"
| "estimate_filter estimator tot (FilterQuery should must must_not) =
     combine_must_estimations
       ((if non_empty must = [] then []
         else [combine_must_estimations (map (estimate_condition estimator tot) (non_empty must)) tot])
        @ (if non_empty should = [] then []
           else [combine_should_estimations (map (estimate_condition estimator tot) (non_empty should)) tot])
        @ (if non_empty must_not = [] then []
           else [combine_must_estimations
                   (map (\<lambda>c. invert_estimation (estimate_condition estimator tot c) tot)
                     (non_empty must_not)) tot]))
       tot"
  by pat_completeness auto
termination
  by (relation "measure (\<lambda>x. case x of Inl (_, _, c) \<Rightarrow> size c | Inr (_, _, f) \<Rightarrow> size f)")
    (auto simp: less_Suc_eq_le non_empty_def split: option.splits dest!: size_le_size_list)

section \<open>Soundness of the bounds\<close>

text \<open>
  An estimation is sound for a set of points when the number of points lies between its bounds, and its
  upper bound and its expectation do not exceed the number of all points.
\<close>

definition est_ok :: "nat \<Rightarrow> cardinality_estimation \<Rightarrow> nat \<Rightarrow> bool" where
  "est_ok tot e n \<longleftrightarrow> ce_min e \<le> n \<and> n \<le> ce_max e \<and> ce_max e \<le> tot \<and> ce_exp e \<le> tot"

lemma f64_product_prob: "\<lbrakk>\<forall>x \<in> set xs. f64_is_prob x\<rbrakk> \<Longrightarrow> f64_is_prob (f64_product xs)"
proof -
  have "f64_is_prob a \<Longrightarrow> \<forall>x \<in> set xs. f64_is_prob x \<Longrightarrow> f64_is_prob (foldl f64_mul a xs)" for a
    by (induction xs arbitrary: a) (auto intro: f64_mul_prob)
  moreover have "f64_is_prob (F64Fin 1)"
    by (simp add: f64_is_prob_def)
  ultimately show "\<forall>x \<in> set xs. f64_is_prob x \<Longrightarrow> f64_is_prob (f64_product xs)"
    by (simp add: f64_product_def)
qed

lemma must_min_step_eq:
  "\<lbrakk>tot < 2 ^ 53; a \<le> tot; x \<le> tot\<rbrakk> \<Longrightarrow>
    must_min_step tot (int a) x = int (a + x - tot)"
  by (simp add: must_min_step_def)

lemma card_inter_lower:
  assumes "finite P" "card P = tot" "A \<subseteq> P" "B \<subseteq> P"
  shows "card A + card B - tot \<le> card (A \<inter> B)"
proof -
  have "finite A" "finite B"
    using assms finite_subset by blast+
  then show ?thesis
    using card_Un_Int [of A B] card_mono [of P "A \<union> B"] assms by simp
qed

lemma foldl_must_min:
  assumes "finite P" "card P = tot" "tot < 2 ^ 53"
    and "S \<subseteq> P" "a \<le> card S" "list_all2 (\<lambda>x B. B \<subseteq> P \<and> x \<le> card B) xs Bs"
  shows "\<exists>m. foldl (must_min_step tot) (int a) xs = int m \<and> m \<le> card (S \<inter> \<Inter> (set Bs))"
  using assms(6,4,5)
proof (induction xs Bs arbitrary: a S rule: list_all2_induct)
  case (Cons x xs B Bs)
  have card: "card S \<le> tot" "card B \<le> tot"
    using card_mono [OF assms(1)] assms(2) Cons.prems Cons.hyps(1) by auto
  have step: "must_min_step tot (int a) x = int (a + x - tot)"
    by (rule must_min_step_eq) (use assms(3) card Cons.prems Cons.hyps(1) in auto)
  have "a + x - tot \<le> card (S \<inter> B)"
    using card_inter_lower [OF assms(1,2), of S B] Cons.prems Cons.hyps(1) by auto
  then obtain m where "foldl (must_min_step tot) (int (a + x - tot)) xs = int m"
    "m \<le> card (S \<inter> B \<inter> \<Inter> (set Bs))"
    using Cons.IH [of "S \<inter> B" "a + x - tot"] Cons.prems(1) by blast
  then show ?case
    using step by (intro exI [of _ m]) (simp add: Int_assoc)
qed simp

definition ests_ok :: "'p set \<Rightarrow> nat \<Rightarrow> cardinality_estimation list \<Rightarrow> 'p set list \<Rightarrow> bool" where
  "ests_ok P tot = list_all2 (\<lambda>e B. B \<subseteq> P \<and> est_ok tot e (card B))"

lemma foldl_min_le: "foldl min a xs \<le> (a :: nat)"
proof (induction xs arbitrary: a)
  case (Cons x xs)
  from Cons [of "min a x"] show ?case by simp
qed simp

lemma foldl_min_ge: "\<lbrakk>n \<le> a; \<forall>x \<in> set xs. n \<le> x\<rbrakk> \<Longrightarrow> n \<le> foldl min a (xs :: nat list)"
  by (induction xs arbitrary: a) auto

lemma foldl_max_le: "\<lbrakk>a \<le> n; \<forall>x \<in> set xs. x \<le> n\<rbrakk> \<Longrightarrow> foldl max a xs \<le> (n :: nat)"
  by (induction xs arbitrary: a) auto

lemma scaled_product_le:
  assumes "tot < 2 ^ 53" "0 < tot \<Longrightarrow> f64_is_prob x"
  shows "f64_as_usize (f64_round (f64_mul x (f64_of_nat tot))) \<le> tot"
proof (cases "tot = 0")
  case True
  have zero: "f64_of_nat 0 = F64Fin 0"
    by (simp add: f64_of_nat_def f64_of_rat_def)
  show ?thesis
    unfolding True zero by (cases x) (simp_all add: f64_of_rat_def)
qed (use assms f64_scaled_prob_le in auto)

lemma ests_okD:
  assumes "ests_ok P tot es Bs" "e \<in> set es"
  shows "\<exists>B \<in> set Bs. B \<subseteq> P \<and> est_ok tot e (card B)"
  using assms unfolding ests_ok_def by (induction rule: list_all2_induct) auto

lemma ests_ok_bounds:
  assumes "ests_ok P tot es Bs" "B \<in> set Bs"
  shows "B \<subseteq> P \<and> (\<exists>e \<in> set es. est_ok tot e (card B))"
  using assms unfolding ests_ok_def by (induction rule: list_all2_induct) auto

lemma combine_must_ok:
  assumes "finite P" "card P = tot" "tot < 2 ^ 53" "ests_ok P tot es Bs"
  shows "est_ok tot (combine_must_estimations es tot) (card (P \<inter> \<Inter> (set Bs)))"
proof -
  let ?R = "P \<inter> \<Inter> (set Bs)"
  have le: "card ?R \<le> tot"
    using card_mono [OF assms(1), of ?R] assms(2) by auto
  have "list_all2 (\<lambda>x B. B \<subseteq> P \<and> x \<le> card B) (map ce_min es) Bs"
    using assms(4) unfolding ests_ok_def list_all2_map1
    by (rule list_all2_mono) (simp add: est_ok_def)
  from foldl_must_min [OF assms(1-3) order_refl _ this, of tot] assms(2) obtain m where
    m: "foldl (must_min_step tot) (int tot) (map ce_min es) = int m" "m \<le> card ?R"
    by auto
  have "ce_min (combine_must_estimations es tot) = m"
    using m le assms(3) by (simp add: combine_must_estimations_def Let_def nat_mod_as_int flip: of_nat_mod zmod_int)
  moreover have "card ?R \<le> ce_max e" if e: "e \<in> set es" for e
  proof -
    obtain B where B: "B \<in> set Bs" "est_ok tot e (card B)" "B \<subseteq> P"
      using ests_okD [OF assms(4) e] by blast
    then have "card ?R \<le> card B"
      using assms(1) by (intro card_mono) (auto intro: finite_subset)
    then show ?thesis
      using B(2) by (simp add: est_ok_def)
  qed
  then have "card ?R \<le> ce_max (combine_must_estimations es tot)"
    using le by (auto simp: combine_must_estimations_def Let_def intro!: foldl_min_ge split: list.splits)
  moreover have "ce_max (combine_must_estimations es tot) \<le> tot"
  proof (cases es)
    case (Cons e es')
    then have "ce_max e \<le> tot"
      using ests_okD [OF assms(4), of e] by (auto simp: est_ok_def)
    then show ?thesis
      using foldl_min_le [of "ce_max e" "map ce_max es'"] Cons
      by (simp add: combine_must_estimations_def Let_def)
  qed (simp add: combine_must_estimations_def Let_def)
  moreover have "ce_exp (combine_must_estimations es tot) \<le> tot"
    unfolding combine_must_estimations_def Let_def cardinality_estimation.simps
  proof (rule scaled_product_le [OF assms(3)], rule f64_product_prob, clarsimp)
    fix e assume "0 < tot" "e \<in> set es"
    then show "f64_is_prob (f64_div (f64_of_nat (ce_exp e)) (f64_of_nat tot))"
      using ests_okD [OF assms(4)] assms(3) by (intro f64_ratio_prob) (auto simp: est_ok_def)
  qed
  ultimately show ?thesis
    using m(2) by (simp add: est_ok_def)
qed

lemma card_Union_le:
  assumes "list_all2 (\<lambda>e B. card B \<le> f e) es Bs"
  shows "card (\<Union> (set Bs)) \<le> sum_list (map f es)"
  using assms by (induction rule: list_all2_induct) (auto intro: order.trans [OF card_Un_le])

lemma sum_list_le_length: "\<forall>x \<in> set xs. f x \<le> n \<Longrightarrow> sum_list (map f xs) \<le> length xs * (n :: nat)"
  by (induction xs) auto

lemma combine_should_ok:
  assumes "finite P" "card P = tot" "tot < 2 ^ 53" "ests_ok P tot es Bs" "length es * tot < 2 ^ 64"
  shows "est_ok tot (combine_should_estimations es tot) (card (\<Union> (set Bs)))"
proof -
  let ?R = "\<Union> (set Bs)"
  have sub: "?R \<subseteq> P"
    using ests_ok_bounds [OF assms(4)] by blast
  then have le: "card ?R \<le> tot"
    using card_mono [OF assms(1)] assms(2) by blast
  have e: "ce_min e \<le> card ?R \<and> ce_max e \<le> tot \<and> ce_exp e \<le> tot" if mem: "e \<in> set es" for e
  proof -
    obtain B where B: "B \<in> set Bs" "est_ok tot e (card B)"
      using ests_okD [OF assms(4) mem] by blast
    have "card B \<le> card ?R"
      using finite_subset [OF sub assms(1)] B(1) by (intro card_mono) auto
    then show ?thesis
      using B(2) by (simp add: est_ok_def)
  qed
  have "card ?R \<le> sum_list (map ce_max es)"
    by (rule card_Union_le, rule list_all2_mono [OF assms(4) [unfolded ests_ok_def]]) (simp add: est_ok_def)
  moreover have "sum_list (map ce_max es) < 2 ^ 64"
    using sum_list_le_length [of es ce_max tot] e assms(5) by fastforce
  ultimately have "card ?R \<le> min (usize_sum (map ce_max es)) tot"
    using le by (simp add: usize_sum_def)
  moreover have "foldl max 0 (map ce_min es) \<le> card ?R"
    using e by (intro foldl_max_le) auto
  moreover have "ce_exp (combine_should_estimations es tot) \<le> tot"
    unfolding combine_should_estimations_def Let_def cardinality_estimation.simps
  proof (rule scaled_product_le [OF assms(3)], rule f64_one_minus_prob, rule f64_product_prob, clarsimp)
    fix x assume "0 < tot" "x \<in> set es"
    then show "f64_is_prob (f64_div (f64_of_nat (usize_sub tot (ce_exp x))) (f64_of_nat tot))"
      using e assms(3) by (intro f64_ratio_prob) auto
  qed
  ultimately show ?thesis
    by (simp add: est_ok_def combine_should_estimations_def Let_def)
qed

lemma invert_ok:
  assumes "finite P" "card P = tot" "tot < 2 ^ 53" "B \<subseteq> P" "est_ok tot e (card B)"
  shows "est_ok tot (invert_estimation e tot) (card (P - B))"
proof -
  have "card (P - B) = tot - card B" "card B \<le> tot"
    using assms card_Diff_subset [of B P] card_mono [of P B] finite_subset by auto
  then show ?thesis
    using assms(3,5) by (simp add: est_ok_def invert_estimation_def diff_le_mono2)
qed

lemma ests_ok_map:
  "(\<And>c. c \<in> set cs \<Longrightarrow> B c \<subseteq> P \<and> est_ok tot (e c) (card (B c))) \<Longrightarrow> ests_ok P tot (map e cs) (map B cs)"
  by (induction cs) (auto simp: ests_ok_def)

text \<open>The lengths of all \<open>should\<close> clauses of a filter, nested filters included.\<close>

function (sequential) condition_shoulds :: "condition \<Rightarrow> nat list"
  and filter_shoulds :: "filter_query \<Rightarrow> nat list" where
  "condition_shoulds (CFilter f) = filter_shoulds f"
| "condition_shoulds c = []"
| "filter_shoulds (FilterQuery should must must_not) =
     (case should of None \<Rightarrow> [] | Some cs \<Rightarrow> [length cs])
     @ concat (map condition_shoulds (non_empty should))
     @ concat (map condition_shoulds (non_empty must))
     @ concat (map condition_shoulds (non_empty must_not))"
  by pat_completeness auto
termination
  by (relation "measure (\<lambda>x. case x of Inl c \<Rightarrow> size c | Inr f \<Rightarrow> size f)")
    (auto simp: less_Suc_eq_le non_empty_def split: option.splits dest!: size_le_size_list)

definition shoulds_fit :: "nat \<Rightarrow> nat list \<Rightarrow> bool" where
  "shoulds_fit tot ns \<longleftrightarrow> list_all (\<lambda>n. 0 < n \<and> n * tot < 2 ^ 64) ns"

lemma shoulds_fit_append [simp]:
  "shoulds_fit tot (xs @ ys) \<longleftrightarrow> shoulds_fit tot xs \<and> shoulds_fit tot ys"
  "shoulds_fit tot (concat (map f cs)) \<longleftrightarrow> (\<forall>c \<in> set cs. shoulds_fit tot (f c))"
  by (auto simp: shoulds_fit_def list_all_iff)

lemma estimate_ok:
  assumes "finite P" "card P = tot" "tot < 2 ^ 53"
    and leaf: "\<And>c. is_leaf c \<Longrightarrow> est_ok tot (estimator c) (card {p \<in> P. chk p c})"
  shows "shoulds_fit tot (condition_shoulds c) \<Longrightarrow>
      est_ok tot (estimate_condition estimator tot c) (card {p \<in> P. check_condition (chk p) c})"
    and "shoulds_fit tot (filter_shoulds f) \<Longrightarrow>
      est_ok tot (estimate_filter estimator tot f) (card {p \<in> P. check_filter (chk p) f})"
proof (induction c and f rule: condition_shoulds_filter_shoulds.induct)
  case (3 should must must_not)
  let ?B = "\<lambda>c. {p \<in> P. check_condition (chk p) c}" and ?e = "estimate_condition estimator tot"
  note P = assms(1-3)
  have S: "ests_ok P tot (map ?e (non_empty should)) (map ?B (non_empty should))"
    by (rule ests_ok_map) (use 3 in auto)
  have M: "ests_ok P tot (map ?e (non_empty must)) (map ?B (non_empty must))"
    by (rule ests_ok_map) (use 3 in auto)
  have N: "ests_ok P tot (map (\<lambda>c. invert_estimation (?e c) tot) (non_empty must_not))
      (map (\<lambda>c. P - ?B c) (non_empty must_not))"
    by (rule ests_ok_map, rule conjI, blast, rule invert_ok [OF P]) (use 3 in auto)
  have fit: "length (map ?e (non_empty should)) * tot < 2 ^ 64"
    using 3(4) by (simp add: shoulds_fit_def non_empty_def split: option.splits)
  let ?S = "\<Union> (set (map ?B (non_empty should)))" and ?M = "P \<inter> \<Inter> (set (map ?B (non_empty must)))"
    and ?N = "P \<inter> \<Inter> (set (map (\<lambda>c. P - ?B c) (non_empty must_not)))"
  have all: "ests_ok P tot
      ((if non_empty must = [] then [] else [combine_must_estimations (map ?e (non_empty must)) tot])
        @ (if non_empty should = [] then [] else [combine_should_estimations (map ?e (non_empty should)) tot])
        @ (if non_empty must_not = [] then []
           else [combine_must_estimations (map (\<lambda>c. invert_estimation (?e c) tot) (non_empty must_not)) tot]))
      ((if non_empty must = [] then [] else [?M]) @ (if non_empty should = [] then [] else [?S])
        @ (if non_empty must_not = [] then [] else [?N]))"
    using combine_must_ok [OF P M] combine_should_ok [OF P S fit] combine_must_ok [OF P N]
    by (auto simp: ests_ok_def)
  have "{p \<in> P. check_filter (chk p) (FilterQuery should must must_not)}
      = P \<inter> \<Inter> (set ((if non_empty must = [] then [] else [?M]) @ (if non_empty should = [] then [] else [?S])
        @ (if non_empty must_not = [] then [] else [?N])))"
    using 3(4) by (auto simp: shoulds_fit_def non_empty_def list_ex_iff list_all_iff split: option.splits)
  then show ?case
    using combine_must_ok [OF P all] by simp
qed (simp_all add: leaf)



text \<open>
  A \<open>should\<close> list that is present but empty is treated as absent by the estimator, while the condition
  checker accepts no point at all: the lower bound of the estimation is then above the true count.
\<close>

lemma empty_should_not_bracketed:
  "ce_min (estimate_filter est 5 (FilterQuery (Some []) None None)) = 5"
  "\<not> check_filter chk (FilterQuery (Some []) None None)"
  by (simp_all add: non_empty_def combine_must_estimations_def Let_def)

end
