(* ===== verification/Top_Scores.thy ===== *)
theory Top_Scores
  imports Prelude
begin

text \<open>
  The bounded priority queue of the search code and the selection of the best elements of a stream
  (\<open>lib/segment/src/spaces/tools.rs\<close>).

  The heap of the standard library is a list in increasing order of the key its elements are compared by; the
  order of elements with the same key, which \<open>BinaryHeap\<close> leaves open, is the order of insertion. No lemma
  depends on that choice: they speak about the multiset of the elements and about the keys.
\<close>

section \<open>The queue\<close>

text \<open>\<open>std::cmp::Reverse\<close>.\<close>

datatype 'a reversed = Reverse 'a

instantiation reversed :: (linorder) linorder
begin

fun less_eq_reversed :: "'a reversed \<Rightarrow> 'a reversed \<Rightarrow> bool" where
  "less_eq_reversed (Reverse a) (Reverse b) = (b \<le> a)"

definition less_reversed :: "'a reversed \<Rightarrow> 'a reversed \<Rightarrow> bool" where
  "less_reversed a b \<longleftrightarrow> a \<le> b \<and> \<not> b \<le> a"

instance
proof
  fix x y z :: "'a reversed"
  show "x < y \<longleftrightarrow> x \<le> y \<and> \<not> y \<le> x" by (rule less_reversed_def)
  show "x \<le> x" by (cases x) simp
  show "x \<le> y \<Longrightarrow> y \<le> z \<Longrightarrow> x \<le> z" by (cases x; cases y; cases z) simp
  show "x \<le> y \<Longrightarrow> y \<le> x \<Longrightarrow> x = y" by (cases x; cases y) simp
  show "x \<le> y \<or> y \<le> x" by (cases x; cases y) auto
qed

end

record 'a priority_queue =
  pq_heap :: "'a list"
  pq_length :: nat

text \<open>\<open>None\<close> is the failed assertion on the length.\<close>

definition pq_new :: "nat \<Rightarrow> 'a priority_queue option" where
  "pq_new n = (if 0 < n then Some \<lparr>pq_heap = [], pq_length = n\<rparr> else None)"

definition pq_push :: "('a \<Rightarrow> 'k::linorder) \<Rightarrow> 'a \<Rightarrow> 'a priority_queue \<Rightarrow> 'a option \<times> 'a priority_queue" where
  "pq_push key v q =
     (if length (pq_heap q) < pq_length q then (None, q\<lparr>pq_heap := insort_key key v (pq_heap q)\<rparr>)
      else (let x = hd (pq_heap q)
            in if key x < key v then (Some x, q\<lparr>pq_heap := insort_key key v (tl (pq_heap q))\<rparr>)
               else (Some v, q)))"

definition pq_into_vec :: "'a priority_queue \<Rightarrow> 'a list" where
  "pq_into_vec q = rev (pq_heap q)"

definition pq_top :: "'a priority_queue \<Rightarrow> 'a option" where
  "pq_top q = (case pq_heap q of [] \<Rightarrow> None | x # _ \<Rightarrow> Some x)"

definition pq_push_all :: "('a \<Rightarrow> 'k::linorder) \<Rightarrow> 'a list \<Rightarrow> 'a priority_queue \<Rightarrow> 'a priority_queue" where
  "pq_push_all key xs q = fold (\<lambda>x q. snd (pq_push key x q)) xs q"

lemma pq_push_all_simps [simp]:
  "pq_push_all key [] q = q"
  "pq_push_all key (x # xs) q = pq_push_all key xs (snd (pq_push key x q))"
  by (simp_all add: pq_push_all_def)

definition peek_top_largest_iterable :: "('a \<Rightarrow> 'k::linorder) \<Rightarrow> 'a list \<Rightarrow> nat \<Rightarrow> 'a list" where
  "peek_top_largest_iterable key elements limit =
     (case pq_new limit of None \<Rightarrow> [] | Some pq \<Rightarrow> pq_into_vec (pq_push_all key elements pq))"

definition peek_top_smallest_iterable :: "('a \<Rightarrow> 'k::linorder) \<Rightarrow> 'a list \<Rightarrow> nat \<Rightarrow> 'a list" where
  "peek_top_smallest_iterable key elements limit =
     (case pq_new limit of None \<Rightarrow> []
      | Some pq \<Rightarrow> pq_into_vec (pq_push_all (\<lambda>x. Reverse (key x)) elements pq))"

section \<open>The queue keeps the largest elements\<close>

text \<open>The keys of the \<open>n\<close> largest elements of a collection, in decreasing order.\<close>

definition top_keys :: "nat \<Rightarrow> 'k::linorder list \<Rightarrow> 'k list" where
  "top_keys n ks = take n (rev (sort ks))"

lemma rev_insort_split:
  "sorted xs \<Longrightarrow> rev (insort y xs) = rev (dropWhile (\<lambda>x. x < y) xs) @ y # rev (takeWhile (\<lambda>x. x < y) xs)"
  for xs :: "'k::linorder list"
  by (induction xs) auto

lemma length_dropWhile_sorted:
  "sorted xs \<Longrightarrow> length (dropWhile (\<lambda>x. x < y) xs) = length (filter (\<lambda>x. y \<le> x) xs)" for xs :: "'k::linorder list"
proof (induction xs)
  case (Cons x xs)
  show ?case
  proof (cases "x < y")
    case False
    then have "filter (\<lambda>z. y \<le> z) xs = xs"
      using Cons.prems by (auto simp: filter_id_conv)
    then show ?thesis
      using False by simp
  qed (use Cons in auto)
qed simp

text \<open>An element with at least \<open>n\<close> others above it does not change the largest \<open>n\<close> keys.\<close>

lemma top_keys_insort:
  assumes "n \<le> length (filter (\<lambda>x. y \<le> x) ks)"
  shows "top_keys n (y # ks) = top_keys n ks"
proof -
  let ?d = "dropWhile (\<lambda>x. x < y) (sort ks)" and ?t = "takeWhile (\<lambda>x. x < y) (sort ks)"
  have "length (filter (\<lambda>x. y \<le> x) ks) = length (filter (\<lambda>x. y \<le> x) (sort ks))"
    by (metis mset_filter mset_sort size_mset)
  then have n: "n \<le> length ?d"
    using assms length_dropWhile_sorted [of "sort ks" y] by simp
  have "rev (sort ks) = rev ?d @ rev ?t"
    by (metis rev_append takeWhile_dropWhile_id)
  then show ?thesis
    using n rev_insort_split [of "sort ks" y] by (simp add: top_keys_def)
qed

lemma top_keys_perm: "mset ks = mset ks' \<Longrightarrow> top_keys n ks = top_keys n ks'"
  unfolding top_keys_def by (metis mset_sort properties_for_sort sorted_sort)

lemma top_keys_extend:
  assumes "\<forall>y \<in> set ys. n \<le> length (filter (\<lambda>x. y \<le> x) ks)"
  shows "top_keys n (ys @ ks) = top_keys n ks"
  using assms
proof (induction ys)
  case (Cons y ys)
  have "n \<le> length (filter (\<lambda>x. y \<le> x) (ys @ ks))"
    using Cons.prems by (simp add: trans_le_add2)
  then show ?case
    using Cons by (simp add: top_keys_insort)
qed simp

definition pq_inv :: "('a \<Rightarrow> 'k::linorder) \<Rightarrow> nat \<Rightarrow> 'a multiset \<Rightarrow> 'a priority_queue \<Rightarrow> bool" where
  "pq_inv key n M q \<longleftrightarrow>
     pq_length q = n \<and> sorted (map key (pq_heap q)) \<and> length (pq_heap q) = min n (size M)
     \<and> (\<exists>R. M = mset (pq_heap q) + R \<and> (\<forall>x \<in> set (pq_heap q). \<forall>y \<in># R. key y \<le> key x))"

lemma pq_inv_heap:
  assumes "pq_inv key n (mset S) q"
  shows "sorted (map key (pq_heap q))" "length (pq_heap q) = min n (length S)" "mset (pq_heap q) \<subseteq># mset S"
    "set (pq_heap q) \<subseteq> set S" "distinct S \<Longrightarrow> distinct (pq_heap q)"
proof -
  show "sorted (map key (pq_heap q))" "length (pq_heap q) = min n (length S)"
    using assms unfolding pq_inv_def size_mset by blast+
  obtain R where R: "mset S = mset (pq_heap q) + R"
    using assms unfolding pq_inv_def by blast
  then show sub: "mset (pq_heap q) \<subseteq># mset S"
    by simp
  then show "set (pq_heap q) \<subseteq> set S"
    by (metis set_mset_mono set_mset_mset)
  obtain rs where "mset rs = R"
    using ex_mset by blast
  then have "mset S = mset (pq_heap q @ rs)"
    using R by simp
  then show "distinct S \<Longrightarrow> distinct (pq_heap q)"
    using mset_eq_imp_distinct_iff by fastforce
qed

lemma pq_inv_new: "0 < n \<Longrightarrow> pq_inv key n {#} \<lparr>pq_heap = [], pq_length = n\<rparr>"
  by (simp add: pq_inv_def)

lemma pq_inv_push:
  assumes "pq_inv key n M q" "0 < n"
  shows "pq_inv key n (add_mset v M) (snd (pq_push key v q))"
proof -
  from assms(1) obtain R where q: "pq_length q = n" "sorted (map key (pq_heap q))"
    "length (pq_heap q) = min n (size M)" "M = mset (pq_heap q) + R"
    "\<forall>x \<in> set (pq_heap q). \<forall>y \<in># R. key y \<le> key x"
    unfolding pq_inv_def by blast
  show ?thesis
  proof (cases "length (pq_heap q) < n")
    case True
    then have "length (pq_heap q) = size M"
      using q(3) by simp
    then have "R = {#}"
      unfolding q(4) by simp
    then have M: "M = mset (pq_heap q)"
      using q(4) by simp
    show ?thesis
      using True q(1,2) unfolding M by (simp add: pq_inv_def pq_push_def sorted_insort_key)
  next
    case full: False
    then obtain x h where h: "pq_heap q = x # h"
      using assms(2) by (cases "pq_heap q") auto
    have sz: "n \<le> size M" "Suc (length h) = n"
      using full q(3) h by (auto simp: min_def split: if_splits)
    show ?thesis
    proof (cases "key x < key v")
      case True
      have "\<forall>a \<in> insert v (set h). \<forall>y \<in># add_mset x R. key y \<le> key a"
        using True q(2,5) h by (auto intro: order.trans less_imp_le)
      moreover have "add_mset v M = mset (insort_key key v h) + add_mset x R"
        using q(4) h by simp
      ultimately show ?thesis
        using True full q(1,2) h sz unfolding pq_inv_def
        by (intro conjI exI [of _ "add_mset x R"]) (auto simp: pq_push_def sorted_insort_key set_insort_key)
    next
      case False
      have "\<forall>a \<in> set (x # h). \<forall>y \<in># add_mset v R. key y \<le> key a"
        using False q(2,5) h by (auto intro: order.trans)
      then show ?thesis
        using False full q(1-4) h sz unfolding pq_inv_def
        by (intro conjI exI [of _ "add_mset v R"]) (auto simp: pq_push_def)
    qed
  qed
qed

lemma pq_inv_push_all:
  "\<lbrakk>pq_inv key n M q; 0 < n\<rbrakk> \<Longrightarrow> pq_inv key n (M + mset xs) (pq_push_all key xs q)"
proof (induction xs arbitrary: M q)
  case (Cons x xs)
  have "pq_inv key n (add_mset x M + mset xs) (pq_push_all key xs (snd (pq_push key x q)))"
    by (rule Cons.IH [OF pq_inv_push [OF Cons.prems] Cons.prems(2)])
  then show ?case
    by simp
qed simp

lemma pq_inv_keys:
  assumes "pq_inv key n (mset xs) q"
  shows "map key (pq_into_vec q) = top_keys n (map key xs)"
proof -
  obtain R where q: "sorted (map key (pq_heap q))" "length (pq_heap q) = min n (length xs)"
    "mset xs = mset (pq_heap q) + R" "\<forall>x \<in> set (pq_heap q). \<forall>y \<in># R. key y \<le> key x"
    using assms unfolding pq_inv_def size_mset by blast
  obtain rs where rs: "mset rs = R"
    using ex_mset by blast
  have "n \<le> length (filter (\<lambda>k. y \<le> k) (map key (pq_heap q)))" if "y \<in> set (map key rs)" for y
  proof -
    have "rs \<noteq> []"
      using that by auto
    moreover have "length xs = length (pq_heap q) + length rs"
      using arg_cong [OF q(3), of size] rs by auto
    ultimately have "length (pq_heap q) = n"
      using q(2) by (cases rs) auto
    moreover have "filter (\<lambda>k. y \<le> k) (map key (pq_heap q)) = map key (pq_heap q)"
      using that q(4) rs by (auto simp: filter_id_conv)
    ultimately show ?thesis
      by simp
  qed
  then have "top_keys n (map key rs @ map key (pq_heap q)) = top_keys n (map key (pq_heap q))"
    by (intro top_keys_extend) blast
  moreover have "top_keys n (map key (pq_heap q)) = map key (pq_into_vec q)"
    using q(1,2) by (simp add: top_keys_def pq_into_vec_def sorted_sort_id rev_map)
  moreover have "mset (map key xs) = mset (map key rs @ map key (pq_heap q))"
    unfolding mset_map mset_append q(3) by (simp flip: rs)
  from top_keys_perm [OF this, of n] calculation show ?thesis
    by simp
qed

lemma peek_top_largest_inv:
  assumes "0 < n"
  shows "\<exists>q. pq_inv key n (mset xs) q \<and> peek_top_largest_iterable key xs n = pq_into_vec q"
  using pq_inv_push_all [OF pq_inv_new [OF assms] assms, of key xs] assms
  by (auto simp: peek_top_largest_iterable_def pq_new_def)

lemma peek_top_largest_keys: "map key (peek_top_largest_iterable key xs n) = top_keys n (map key xs)"
proof (cases "n = 0")
  case False
  then show ?thesis
    using peek_top_largest_inv [of n key xs] pq_inv_keys by fastforce
qed (simp add: peek_top_largest_iterable_def pq_new_def top_keys_def)

lemma top_keys_all: "length ks \<le> n \<Longrightarrow> mset (top_keys n ks) = mset ks"
  by (simp add: top_keys_def)

lemma length_top_keys [simp]: "length (top_keys n ks) = min n (length ks)"
  by (simp add: top_keys_def min.commute)

lemma peek_top_subset: "mset (peek_top_largest_iterable key xs n) \<subseteq># mset xs"
proof (cases "n = 0")
  case False
  then show ?thesis
    using peek_top_largest_inv [of n key xs] by (auto simp: pq_inv_def pq_into_vec_def)
qed (simp add: peek_top_largest_iterable_def pq_new_def)

text \<open>
  C28. Selecting the best elements of a stream with a bounded queue. For every limit, \<open>peek_top_largest_iterable\<close>
  returns elements of the stream only, in decreasing order of their keys, and the keys are those of the largest
  elements: the same as sorting the whole stream and cutting it off. \<open>peek_top_smallest_iterable\<close> does the same
  for the smallest elements in increasing order.\<close>

theorem peek_top_spec:
  "mset (peek_top_largest_iterable key xs n) \<subseteq># mset xs
   \<and> map key (peek_top_largest_iterable key xs n) = take n (rev (sort (map key xs)))
   \<and> mset (peek_top_smallest_iterable key xs n) \<subseteq># mset xs
   \<and> map key (peek_top_smallest_iterable key xs n) = take n (sort (map key xs))"
proof -
  have small: "peek_top_smallest_iterable key xs n = peek_top_largest_iterable (\<lambda>x. Reverse (key x)) xs n"
    by (simp add: peek_top_smallest_iterable_def peek_top_largest_iterable_def)
  have "sort (map Reverse ks) = map Reverse (rev (sort ks))" for ks :: "'b list"
  proof (rule properties_for_sort)
    show "sorted (map Reverse (rev (sort ks)))"
      using sorted_sort [of ks] by (auto simp: sorted_map sorted_wrt_rev)
  qed simp
  then have "map (\<lambda>x. Reverse (key x)) (peek_top_smallest_iterable key xs n)
      = map Reverse (take n (sort (map key xs)))"
    unfolding small peek_top_largest_keys top_keys_def
    using \<open>\<And>ks. sort (map Reverse ks) = _\<close> [of "map key xs"] by (simp add: rev_map take_map comp_def)
  then have "map Reverse (map key (peek_top_smallest_iterable key xs n)) = map Reverse (take n (sort (map key xs)))"
    by (simp add: comp_def)
  then have "map key (peek_top_smallest_iterable key xs n) = take n (sort (map key xs))"
    by (rule map_injective) (simp add: inj_def)
  then show ?thesis
    using peek_top_subset [of key xs n] peek_top_subset [of "\<lambda>x. Reverse (key x)" xs n] peek_top_largest_keys [of key xs n]
    unfolding small top_keys_def by blast
qed

end
