(* ===== verification/Query_Optimizer.thy ===== *)
theory Query_Optimizer
  imports Query_Estimator Id_Tracker Top_Scores
begin

text \<open>
  The optimised form of a filter (\<open>lib/segment/src/index/query_optimization\<close>): every condition becomes a checker on
  internal ids, which reads a field index where one fits and the payload otherwise, and the conditions of a clause are
  ordered by their estimated cardinality. The visited lists that make a stream of ids unique are here as well
  (\<open>lib/segment/src/index/visited_pool.rs\<close>).

  Of a field index the checkers read the values stored for a point; a full text index is the check of a text on the
  stored document. The payloads come from a function on internal ids, which stands for the provider of payloads.
\<close>

section \<open>Checkers over field indexes\<close>

datatype index_view =
    IntIndex "point_offset \<Rightarrow> int list option"
  | IntMapIndex "point_offset \<Rightarrow> int list option"
  | KeywordIndex "point_offset \<Rightarrow> string list option"
  | FloatIndex "point_offset \<Rightarrow> f64 list option"
  | GeoIndex "point_offset \<Rightarrow> geo_point list option"
  | FullTextIndex "string \<Rightarrow> point_offset \<Rightarrow> bool"

type_synonym checker = "point_offset \<Rightarrow> bool"

type_synonym indexes_map = "(string \<times> index_view list) list"

definition any_value :: "(point_offset \<Rightarrow> 'a list option) \<Rightarrow> ('a \<Rightarrow> bool) \<Rightarrow> checker" where
  "any_value get_values check point_id =
     (case get_values point_id of None \<Rightarrow> False | Some values \<Rightarrow> list_ex check values)"

fun get_geo_radius_checkers :: "haversine \<Rightarrow> index_view \<Rightarrow> geo_radius \<Rightarrow> checker option" where
  "get_geo_radius_checkers hav (GeoIndex get_values) r =
     Some (any_value get_values (\<lambda>p. radius_check_point hav r (geo_lon p) (geo_lat p)))"
| "get_geo_radius_checkers hav _ r = None"

fun get_geo_bounding_box_checkers :: "index_view \<Rightarrow> geo_bounding_box \<Rightarrow> checker option" where
  "get_geo_bounding_box_checkers (GeoIndex get_values) b =
     Some (any_value get_values (\<lambda>p. box_check_point b (geo_lon p) (geo_lat p)))"
| "get_geo_bounding_box_checkers _ b = None"

fun get_range_checkers :: "index_view \<Rightarrow> range \<Rightarrow> checker option" where
  "get_range_checkers (IntIndex get_values) r =
     Some (any_value get_values (\<lambda>i. check_range r (f64_of_rat (of_int i))))"
| "get_range_checkers (FloatIndex get_values) r = Some (any_value get_values (check_range r))"
| "get_range_checkers _ r = None"

fun get_match_checkers :: "index_view \<Rightarrow> match_cond \<Rightarrow> checker option" where
  "get_match_checkers (KeywordIndex get_values) (MatchValue (VKeyword keyword)) =
     Some (any_value get_values (\<lambda>k. k = keyword))"
| "get_match_checkers (IntMapIndex get_values) (MatchValue (VInteger value)) =
     Some (any_value get_values (\<lambda>i. i = value))"
| "get_match_checkers (FullTextIndex check_match) (MatchText text) = Some (check_match text)"
| "get_match_checkers (KeywordIndex get_values) (MatchAny (Keywords list)) =
     Some (any_value get_values (\<lambda>k. k \<in> set list))"
| "get_match_checkers (IntMapIndex get_values) (MatchAny (Integers list)) =
     Some (any_value get_values (\<lambda>i. i \<in> set list))"
| "get_match_checkers _ _ = None"

definition field_condition_index :: "haversine \<Rightarrow> index_view \<Rightarrow> field_condition \<Rightarrow> checker option" where
  "field_condition_index hav index fc =
     (case Option.bind (fc_match fc) (get_match_checkers index) of
        Some checker \<Rightarrow> Some checker
      | None \<Rightarrow>
     (case Option.bind (fc_range fc) (get_range_checkers index) of
        Some checker \<Rightarrow> Some checker
      | None \<Rightarrow>
     (case Option.bind (fc_geo_radius fc) (get_geo_radius_checkers hav index) of
        Some checker \<Rightarrow> Some checker
      | None \<Rightarrow> Option.bind (fc_geo_bounding_box fc) (get_geo_bounding_box_checkers index))))"

text \<open>\<open>filter_map(..).next()\<close>: the first index that gives a checker.\<close>

fun first_some :: "('a \<Rightarrow> 'b option) \<Rightarrow> 'a list \<Rightarrow> 'b option" where
  "first_some f [] = None"
| "first_some f (x # xs) = (case f x of Some y \<Rightarrow> Some y | None \<Rightarrow> first_some f xs)"

text \<open>The arm for a nested filter is \<open>unreachable!()\<close>; the optimiser never asks for it.\<close>

fun condition_converter ::
    "'n number_api \<Rightarrow> haversine \<Rightarrow> indexes_map \<Rightarrow> (point_offset \<Rightarrow> 'n payload) \<Rightarrow> id_tracker \<Rightarrow> condition \<Rightarrow> checker" where
  "condition_converter N hav field_indexes payload T (CField fc) =
     (case Option.bind (map_of field_indexes (fc_key fc)) (first_some (\<lambda>index. field_condition_index hav index fc)) of
        Some checker \<Rightarrow> checker
      | None \<Rightarrow> (\<lambda>point_id. check_field_condition N hav fc (payload point_id)))"
| "condition_converter N hav field_indexes payload T (CIsEmpty key) =
     (\<lambda>point_id. check_is_empty_condition key (payload point_id))"
| "condition_converter N hav field_indexes payload T (CIsNull key) =
     (\<lambda>point_id. check_is_null_condition key (payload point_id))"
| "condition_converter N hav field_indexes payload T (CHasId ids) =
     (\<lambda>point_id. Some point_id \<in> internal_id T ` ids)"
| "condition_converter N hav field_indexes payload T (CFilter f) = (\<lambda>_. False)"

section \<open>Optimised filters\<close>

datatype optimized_condition = OChecker checker | OFilter optimized_filter
and optimized_filter =
  OptimizedFilter (o_should: "optimized_condition list option") (o_must: "optimized_condition list option")
    (o_must_not: "optimized_condition list option")

function (sequential) check_ocondition :: "optimized_condition \<Rightarrow> point_offset \<Rightarrow> bool"
  and check_optimized_filter :: "optimized_filter \<Rightarrow> point_offset \<Rightarrow> bool" where
  "check_ocondition (OFilter f) point_id = check_optimized_filter f point_id"
| "check_ocondition (OChecker checker) point_id = checker point_id"
| "check_optimized_filter (OptimizedFilter should must must_not) point_id \<longleftrightarrow>
     (case should of None \<Rightarrow> True | Some cs \<Rightarrow> list_ex (\<lambda>c. check_ocondition c point_id) cs)
     \<and> (case must of None \<Rightarrow> True | Some cs \<Rightarrow> list_all (\<lambda>c. check_ocondition c point_id) cs)
     \<and> (case must_not of None \<Rightarrow> True | Some cs \<Rightarrow> list_all (\<lambda>c. \<not> check_ocondition c point_id) cs)"
  by pat_completeness auto
termination
  by (relation "measure (\<lambda>x. case x of Inl (c, _) \<Rightarrow> size c | Inr (f, _) \<Rightarrow> size f)")
    (auto simp: less_Suc_eq_le dest!: size_le_size_list)

type_synonym converted = "optimized_condition \<times> cardinality_estimation"

definition optimize_should :: "nat \<Rightarrow> converted list \<Rightarrow> optimized_condition list \<times> cardinality_estimation" where
  "optimize_should tot converted =
     (let sorted_conditions = sort_key (\<lambda>x. Reverse (ce_exp (snd x))) converted
      in (map fst sorted_conditions, combine_should_estimations (map snd sorted_conditions) tot))"

definition optimize_must :: "nat \<Rightarrow> converted list \<Rightarrow> optimized_condition list \<times> cardinality_estimation" where
  "optimize_must tot converted =
     (let sorted_conditions = sort_key (\<lambda>x. ce_exp (snd x)) converted
      in (map fst sorted_conditions, combine_must_estimations (map snd sorted_conditions) tot))"

definition optimize_must_not :: "nat \<Rightarrow> converted list \<Rightarrow> optimized_condition list \<times> cardinality_estimation" where
  "optimize_must_not tot converted =
     (let sorted_conditions = sort_key (\<lambda>x. ce_exp (snd x)) converted
      in (map fst sorted_conditions,
          combine_must_estimations (map (\<lambda>x. invert_estimation (snd x) tot) sorted_conditions) tot))"

text \<open>A clause that is missing or empty gives neither conditions nor an estimation.\<close>

definition optimize_clause ::
    "(converted list \<Rightarrow> optimized_condition list \<times> cardinality_estimation) \<Rightarrow> converted list
      \<Rightarrow> (optimized_condition list \<times> cardinality_estimation) option" where
  "optimize_clause optimize converted = (if converted = [] then None else Some (optimize converted))"

definition clause_estimations :: "('a \<times> 'b) option list \<Rightarrow> 'b list" where
  "clause_estimations clauses = concat (map (\<lambda>x. case x of None \<Rightarrow> [] | Some c \<Rightarrow> [snd c]) clauses)"

function (sequential) convert_condition ::
    "(condition \<Rightarrow> checker) \<Rightarrow> (condition \<Rightarrow> cardinality_estimation) \<Rightarrow> nat \<Rightarrow> condition \<Rightarrow> converted"
  and optimize_filter ::
    "(condition \<Rightarrow> checker) \<Rightarrow> (condition \<Rightarrow> cardinality_estimation) \<Rightarrow> nat \<Rightarrow> filter_query
      \<Rightarrow> optimized_filter \<times> cardinality_estimation" where
  "convert_condition conv estimator tot (CFilter f) =
     (case optimize_filter conv estimator tot f of (g, e) \<Rightarrow> (OFilter g, e))"
| "convert_condition conv estimator tot c = (OChecker (conv c), estimator c)"
| "optimize_filter conv estimator tot (FilterQuery should must must_not) =
     (let s = optimize_clause (optimize_should tot) (map (convert_condition conv estimator tot) (non_empty should));
          m = optimize_clause (optimize_must tot) (map (convert_condition conv estimator tot) (non_empty must));
          n = optimize_clause (optimize_must_not tot) (map (convert_condition conv estimator tot) (non_empty must_not))
      in (OptimizedFilter (map_option fst s) (map_option fst m) (map_option fst n),
          combine_must_estimations (clause_estimations [s, m, n]) tot))"
  by pat_completeness auto
termination
  by (relation "measure (\<lambda>x. case x of Inl (_, _, _, c) \<Rightarrow> size c | Inr (_, _, _, f) \<Rightarrow> size f)")
    (auto simp: less_Suc_eq_le non_empty_def split: option.splits dest!: size_le_size_list)

section \<open>Visited lists\<close>

record visited_list =
  current_iter :: nat
  visit_counters :: "nat list"

definition vl_new :: "nat \<Rightarrow> visited_list" where
  "vl_new num_points = \<lparr>current_iter = 1, visit_counters = replicate num_points 0\<rparr>"

definition vl_check :: "visited_list \<Rightarrow> point_offset \<Rightarrow> bool" where
  "vl_check vl point_id =
     (case vec_get (visit_counters vl) point_id of None \<Rightarrow> False | Some x \<Rightarrow> x \<ge> current_iter vl)"

definition check_and_update_visited :: "point_offset \<Rightarrow> visited_list \<Rightarrow> bool \<times> visited_list" where
  "check_and_update_visited point_id vl =
     (let counters = vec_grow 0 point_id (visit_counters vl); prev_value = counters ! point_id
      in (prev_value \<ge> current_iter vl, vl\<lparr>visit_counters := counters[point_id := current_iter vl]\<rparr>))"

definition next_iteration :: "visited_list \<Rightarrow> visited_list" where
  "next_iteration vl = vl\<lparr>current_iter := usize_add (current_iter vl) 1\<rparr>"

definition POOL_KEEP_LIMIT :: nat where "POOL_KEEP_LIMIT = 16"

definition pool_get :: "nat \<Rightarrow> visited_list list \<Rightarrow> visited_list \<times> visited_list list" where
  "pool_get num_points pool =
     (if pool = [] then (vl_new num_points, []) else (next_iteration (last pool), butlast pool))"

definition return_back :: "visited_list \<Rightarrow> visited_list list \<Rightarrow> visited_list list" where
  "return_back vl pool = (if length pool < POOL_KEEP_LIMIT then pool @ [vl] else pool)"

text \<open>The adaptor \<open>filter(|id| !visited_list.check_and_update_visited(id))\<close> on a stream of ids.\<close>

fun unvisited :: "visited_list \<Rightarrow> point_offset list \<Rightarrow> point_offset list \<times> visited_list" where
  "unvisited vl [] = ([], vl)"
| "unvisited vl (i # ids) =
     (case check_and_update_visited i vl of
        (seen, vl1) \<Rightarrow> (case unvisited vl1 ids of (rest, vl2) \<Rightarrow> (if seen then rest else i # rest, vl2)))"

section \<open>The values an index stores\<close>

text \<open>
  The methods \<open>get_value\<close> of the index types, and the values \<open>ValueIndexer::add_point\<close> hands to the index for the
  values found at a key: those of the elements of an array, or of the value itself.
\<close>

fun int_value :: "'n number_api \<Rightarrow> 'n json \<Rightarrow> int option" where
  "int_value N (JNumber num) = as_i64 N num"
| "int_value N _ = None"

fun keyword_value :: "'n json \<Rightarrow> string option" where
  "keyword_value (JString keyword) = Some keyword"
| "keyword_value _ = None"

fun float_value :: "'n number_api \<Rightarrow> 'n json \<Rightarrow> f64 option" where
  "float_value N (JNumber num) = as_f64 N num"
| "float_value N _ = None"

definition geo_point_new :: "f64 \<Rightarrow> f64 \<Rightarrow> geo_point option" where
  "geo_point_new lon lat =
     (if f64_le (F64Fin (- 180)) lon \<and> f64_le lon (F64Fin 180) \<and> f64_le (F64Fin (- 90)) lat \<and> f64_le lat (F64Fin 90)
      then Some \<lparr>geo_lon = lon, geo_lat = lat\<rparr> else None)"

fun geo_value :: "'n number_api \<Rightarrow> 'n json \<Rightarrow> geo_point option" where
  "geo_value N (JObject obj) =
     (case geo_coordinates N obj of None \<Rightarrow> None | Some (lon, lat) \<Rightarrow> geo_point_new lon lat)"
| "geo_value N _ = None"

definition flatten_values :: "('n json \<Rightarrow> 'a option) \<Rightarrow> 'n json list \<Rightarrow> 'a list" where
  "flatten_values get_value values = concat (map (\<lambda>v. List.map_filter get_value (json_elements v)) values)"

definition values_at :: "(point_offset \<Rightarrow> 'a list option) \<Rightarrow> point_offset \<Rightarrow> 'a list" where
  "values_at get_values p = (case get_values p of None \<Rightarrow> [] | Some vs \<Rightarrow> vs)"

text \<open>
  An index that reads the payload of a point: it stores what \<open>flatten_values\<close> finds there, and no value the payload
  check would look at is outside its type. The last part is a real restriction: an integer index holds no fractional
  numbers, and a geo index no coordinates out of range.
\<close>

fun index_reads :: "'n number_api \<Rightarrow> 'n json list \<Rightarrow> index_view \<Rightarrow> point_offset \<Rightarrow> bool" where
  "index_reads N vs (IntIndex g) p \<longleftrightarrow>
     set (values_at g p) = set (flatten_values (int_value N) vs)
     \<and> list_all (list_all (\<lambda>x. float_value N x = map_option (\<lambda>i. f64_of_rat (of_int i)) (int_value N x)))
         (map json_elements vs)"
| "index_reads N vs (IntMapIndex g) p \<longleftrightarrow> set (values_at g p) = set (flatten_values (int_value N) vs)"
| "index_reads N vs (KeywordIndex g) p \<longleftrightarrow> set (values_at g p) = set (flatten_values keyword_value vs)"
| "index_reads N vs (FloatIndex g) p \<longleftrightarrow> set (values_at g p) = set (flatten_values (float_value N) vs)"
| "index_reads N vs (GeoIndex g) p \<longleftrightarrow>
     set (values_at g p) = set (flatten_values (geo_value N) vs)
     \<and> list_all (list_all (\<lambda>x. case x of JObject obj \<Rightarrow>
           (case geo_coordinates N obj of None \<Rightarrow> True | Some (lon, lat) \<Rightarrow> geo_point_new lon lat \<noteq> None)
         | _ \<Rightarrow> True)) (map json_elements vs)"
| "index_reads N vs (FullTextIndex chk) p \<longleftrightarrow> True"

text \<open>
  Field conditions with one part that is not a full text match: for these the part the index checks is the whole
  condition, and an index and the payload agree on what a match is.
\<close>

definition single_part :: "field_condition \<Rightarrow> bool" where
  "single_part fc \<longleftrightarrow>
     length (filter (\<lambda>b. b) [fc_match fc \<noteq> None, fc_range fc \<noteq> None, fc_geo_radius fc \<noteq> None,
       fc_geo_bounding_box fc \<noteq> None, fc_values_count fc \<noteq> None]) = 1
     \<and> (case fc_match fc of Some (MatchText _) \<Rightarrow> False | _ \<Rightarrow> True)"

lemma any_value_iff: "any_value g P p \<longleftrightarrow> (\<exists>x \<in> set (values_at g p). P x)"
  by (simp add: any_value_def values_at_def list_ex_iff Bex_def split: option.split)

lemma set_flatten_values:
  "set (flatten_values f vs) = {y. \<exists>v \<in> set vs. \<exists>x \<in> set (json_elements v). f x = Some y}"
  by (force simp: flatten_values_def List.map_filter_def)

lemma flatten_values_ex:
  assumes "set ys = set (flatten_values f vs)"
    and "\<And>v x. \<lbrakk>v \<in> set vs; x \<in> set (json_elements v)\<rbrakk> \<Longrightarrow> Q x \<longleftrightarrow> (\<exists>y. f x = Some y \<and> P y)"
  shows "(\<exists>y \<in> set ys. P y) \<longleftrightarrow> (\<exists>v \<in> set vs. \<exists>x \<in> set (json_elements v). Q x)"
  using assms unfolding assms(1) set_flatten_values by blast

lemma match_elements:
  "match_check_match N (MatchValue (VKeyword k)) x \<longleftrightarrow> (\<exists>y. keyword_value x = Some y \<and> y = k)"
  "match_check_match N (MatchAny (Keywords ks)) x \<longleftrightarrow> (\<exists>y. keyword_value x = Some y \<and> y \<in> set ks)"
  "match_check_match N (MatchValue (VInteger i)) x \<longleftrightarrow> (\<exists>y. int_value N x = Some y \<and> y = i)"
  "match_check_match N (MatchAny (Integers is)) x \<longleftrightarrow> (\<exists>y. int_value N x = Some y \<and> y \<in> set is)"
  by (cases x; auto split: option.splits)+

lemma range_elements: "range_check_match N r x \<longleftrightarrow> (\<exists>y. float_value N x = Some y \<and> check_range r y)"
  by (cases x) (auto split: option.splits)

lemma geo_elements:
  assumes "case x of JObject obj \<Rightarrow>
      (case geo_coordinates N obj of None \<Rightarrow> True | Some (lon, lat) \<Rightarrow> geo_point_new lon lat \<noteq> None) | _ \<Rightarrow> True"
  shows "radius_check_match N hav r x
      \<longleftrightarrow> (\<exists>y. geo_value N x = Some y \<and> radius_check_point hav r (geo_lon y) (geo_lat y))"
    and "box_check_match N b x \<longleftrightarrow> (\<exists>y. geo_value N x = Some y \<and> box_check_point b (geo_lon y) (geo_lat y))"
  using assms by (cases x; auto simp: geo_point_new_def split: option.splits if_splits)+

lemma match_checker_exact:
  assumes "get_match_checkers view m = Some chk" "index_reads N vs view p" "\<forall>t. m \<noteq> MatchText t"
  shows "chk p \<longleftrightarrow> (\<exists>v \<in> set vs. value_check (match_check_match N m) v)"
  using assms unfolding match_vc.check_iff
  by (cases "(view, m)" rule: get_match_checkers.cases;
      clarsimp simp: any_value_iff match_elements set_flatten_values; blast)

lemma range_checker_exact:
  assumes "get_range_checkers view r = Some chk" "index_reads N vs view p"
  shows "chk p \<longleftrightarrow> (\<exists>v \<in> set vs. value_check (range_check_match N r) v)"
proof (cases view)
  case (IntIndex g)
  have "float_value N x = map_option (\<lambda>i. f64_of_rat (of_int i)) (int_value N x)"
    if "v \<in> set vs" "x \<in> set (json_elements v)" for v x
    using assms(2) that by (simp add: IntIndex list_all_iff)
  then have "(\<exists>y \<in> set (values_at g p). check_range r (f64_of_rat (of_int y)))
      \<longleftrightarrow> (\<exists>v \<in> set vs. \<exists>x \<in> set (json_elements v). range_check_match N r x)"
    using assms(2) by (intro flatten_values_ex) (auto simp: IntIndex range_elements)
  then show ?thesis
    using assms(1) by (auto simp: IntIndex any_value_iff range_vc.check_iff)
next
  case (FloatIndex g)
  have "(\<exists>y \<in> set (values_at g p). check_range r y)
      \<longleftrightarrow> (\<exists>v \<in> set vs. \<exists>x \<in> set (json_elements v). range_check_match N r x)"
    using assms(2) by (intro flatten_values_ex) (auto simp: FloatIndex range_elements)
  then show ?thesis
    using assms(1) by (auto simp: FloatIndex any_value_iff range_vc.check_iff)
qed (use assms(1) in auto)

lemma geo_checkers_exact:
  assumes "index_reads N vs view p"
  shows "get_geo_radius_checkers hav view r = Some chk
      \<Longrightarrow> chk p \<longleftrightarrow> (\<exists>v \<in> set vs. value_check (radius_check_match N hav r) v)"
    and "get_geo_bounding_box_checkers view b = Some chk
      \<Longrightarrow> chk p \<longleftrightarrow> (\<exists>v \<in> set vs. value_check (box_check_match N b) v)"
proof -
  have el: "radius_check_match N hav r x
      \<longleftrightarrow> (\<exists>y. geo_value N x = Some y \<and> radius_check_point hav r (geo_lon y) (geo_lat y))"
    "box_check_match N b x \<longleftrightarrow> (\<exists>y. geo_value N x = Some y \<and> box_check_point b (geo_lon y) (geo_lat y))"
    if "view = GeoIndex g" "v \<in> set vs" "x \<in> set (json_elements v)" for g v x
    by (rule geo_elements, use assms that in \<open>simp add: list_all_iff\<close>)+
  show "get_geo_radius_checkers hav view r = Some chk
      \<Longrightarrow> chk p \<longleftrightarrow> (\<exists>v \<in> set vs. value_check (radius_check_match N hav r) v)"
    using assms el(1)
    by (cases view; clarsimp simp: any_value_iff radius_vc.check_iff set_flatten_values; blast)
  show "get_geo_bounding_box_checkers view b = Some chk
      \<Longrightarrow> chk p \<longleftrightarrow> (\<exists>v \<in> set vs. value_check (box_check_match N b) v)"
    using assms el(2)
    by (cases view; clarsimp simp: any_value_iff box_vc.check_iff set_flatten_values; blast)
qed

lemma first_someD: "first_some f xs = Some y \<Longrightarrow> \<exists>x \<in> set xs. f x = Some y"
  by (induction xs) (auto split: option.splits)

lemma field_condition_index_exact:
  assumes "field_condition_index hav view fc = Some chk" "single_part fc"
    and "index_reads N (mv_values (payload_get_value payload (fc_key fc))) view p"
  shows "chk p = check_field_condition N hav fc payload"
proof -
  let ?vs = "mv_values (payload_get_value payload (fc_key fc))"
  consider (m) m where "fc_match fc = Some m" "get_match_checkers view m = Some chk"
    | (r) r where "fc_range fc = Some r" "get_range_checkers view r = Some chk"
    | (g) r where "fc_geo_radius fc = Some r" "get_geo_radius_checkers hav view r = Some chk"
    | (b) b where "fc_geo_bounding_box fc = Some b" "get_geo_bounding_box_checkers view b = Some chk"
    using assms(1) by (auto simp: field_condition_index_def bind_eq_Some_conv split: option.splits)
  then show ?thesis
  proof cases
    case m
    then show ?thesis
      using match_checker_exact [OF m(2) assms(3)] assms(2)
      by (auto simp: check_field_condition_iff check_field_value_def opt_check_def single_part_def
          split: match_cond.splits if_splits)
  next
    case r
    then show ?thesis
      using range_checker_exact [OF r(2) assms(3)] assms(2)
      by (auto simp: check_field_condition_iff check_field_value_def opt_check_def single_part_def split: if_splits)
  next
    case g
    then show ?thesis
      using geo_checkers_exact(1) [OF assms(3) g(2)] assms(2)
      by (auto simp: check_field_condition_iff check_field_value_def opt_check_def single_part_def split: if_splits)
  next
    case b
    then show ?thesis
      using geo_checkers_exact(2) [OF assms(3) b(2)] assms(2)
      by (auto simp: check_field_condition_iff check_field_value_def opt_check_def single_part_def split: if_splits)
  qed
qed

section \<open>The optimised filter decides what the payload check decides\<close>

lemma o_clauses:
  "o_should (fst (optimize_filter conv est tot (FilterQuery should must must_not))) =
     (if non_empty should = [] then None
      else Some (fst (optimize_should tot (map (convert_condition conv est tot) (non_empty should)))))"
  "o_must (fst (optimize_filter conv est tot (FilterQuery should must must_not))) =
     (if non_empty must = [] then None
      else Some (fst (optimize_must tot (map (convert_condition conv est tot) (non_empty must)))))"
  "o_must_not (fst (optimize_filter conv est tot (FilterQuery should must must_not))) =
     (if non_empty must_not = [] then None
      else Some (fst (optimize_must_not tot (map (convert_condition conv est tot) (non_empty must_not)))))"
  by (simp_all add: Let_def optimize_clause_def)

lemma set_optimized_clause [simp]:
  "set (fst (optimize_should tot cs)) = fst ` set cs"
  "set (fst (optimize_must tot cs)) = fst ` set cs"
  "set (fst (optimize_must_not tot cs)) = fst ` set cs"
  by (simp_all add: optimize_should_def optimize_must_def optimize_must_not_def Let_def)

lemma check_optimized_clauses:
  "check_optimized_filter g p \<longleftrightarrow>
     (case o_should g of None \<Rightarrow> True | Some cs \<Rightarrow> \<exists>c \<in> set cs. check_ocondition c p)
     \<and> (case o_must g of None \<Rightarrow> True | Some cs \<Rightarrow> \<forall>c \<in> set cs. check_ocondition c p)
     \<and> (case o_must_not g of None \<Rightarrow> True | Some cs \<Rightarrow> \<forall>c \<in> set cs. \<not> check_ocondition c p)"
  by (cases g) (simp add: list_ex_iff list_all_iff split: option.split)

lemma check_filter_clauses:
  "0 \<notin> set (filter_shoulds (FilterQuery should must must_not)) \<Longrightarrow>
   check_filter chk (FilterQuery should must must_not) \<longleftrightarrow>
     (non_empty should = [] \<or> (\<exists>c \<in> set (non_empty should). check_condition chk c))
     \<and> (\<forall>c \<in> set (non_empty must). check_condition chk c)
     \<and> (\<forall>c \<in> set (non_empty must_not). \<not> check_condition chk c)"
  by (auto simp: non_empty_def list_ex_iff list_all_iff split: option.splits)

lemma optimize_exact:
  "\<lbrakk>\<And>x. x \<in> set (condition_leaves c) \<Longrightarrow> conv x p = chk x; 0 \<notin> set (condition_shoulds c)\<rbrakk>
     \<Longrightarrow> check_ocondition (fst (convert_condition conv est tot c)) p = check_condition chk c"
  "\<lbrakk>\<And>x. x \<in> set (filter_leaves f) \<Longrightarrow> conv x p = chk x; 0 \<notin> set (filter_shoulds f)\<rbrakk>
     \<Longrightarrow> check_optimized_filter (fst (optimize_filter conv est tot f)) p = check_filter chk f"
proof (induction c and f rule: condition_shoulds_filter_shoulds.induct)
  case (3 should must must_not)
  let ?cv = "convert_condition conv est tot"
  have sub: "set (condition_leaves c) \<subseteq> set (filter_leaves (FilterQuery should must must_not))"
    "set (condition_shoulds c) \<subseteq> set (filter_shoulds (FilterQuery should must must_not))"
    if "c \<in> set (non_empty should) \<or> c \<in> set (non_empty must) \<or> c \<in> set (non_empty must_not)" for c
    using that by (auto simp: non_empty_def)
  have pre: "conv x p = chk x"
    if "c \<in> set (non_empty should) \<or> c \<in> set (non_empty must) \<or> c \<in> set (non_empty must_not)"
      "x \<in> set (condition_leaves c)" for c x
    using sub [OF that(1)] that(2) "3.prems" by blast
  have noz: "0 \<notin> set (condition_shoulds c)"
    if "c \<in> set (non_empty should) \<or> c \<in> set (non_empty must) \<or> c \<in> set (non_empty must_not)" for c
    using sub(2) [OF that] "3.prems"(2) by blast
  have S: "check_ocondition (fst (?cv c)) p = check_condition chk c" if "c \<in> set (non_empty should)" for c
    by (rule "3.IH"(1) [OF that]) (use that pre noz in blast)+
  have M: "check_ocondition (fst (?cv c)) p = check_condition chk c" if "c \<in> set (non_empty must)" for c
    by (rule "3.IH"(2) [OF that]) (use that pre noz in blast)+
  have N: "check_ocondition (fst (?cv c)) p = check_condition chk c" if "c \<in> set (non_empty must_not)" for c
    by (rule "3.IH"(3) [OF that]) (use that pre noz in blast)+
  show ?case
    unfolding check_optimized_clauses check_filter_clauses [OF "3.prems"(2)] o_clauses
    by (simp add: S M N)
qed (auto split: prod.split)


definition sample_payload :: "point_offset \<Rightarrow> int payload" where
  "sample_payload p = [(''city'', JArray [JString ''Berlin'', JString ''Paris''])]"

definition sample_indexes :: indexes_map where
  "sample_indexes = [(''city'', [KeywordIndex (\<lambda>_. Some [''Berlin'', ''Paris''])])]"

definition sample_filter :: filter_query where
  "sample_filter = FilterQuery None (Some [CField (new_match ''city'' (match_of_string ''Paris''))])
     (Some [CHasId {Uuid 3}])"

lemma sample_indexes_read:
  assumes "CField fc \<in> set (filter_leaves sample_filter)" "map_of sample_indexes (fc_key fc) = Some views" "view \<in> set views"
  shows "single_part fc
    \<and> index_reads int_numbers (mv_values (payload_get_value (sample_payload 0) (fc_key fc))) view 0"
proof -
  have fc: "fc = new_match ''city'' (match_of_string ''Paris'')"
    using assms(1) by (simp add: sample_filter_def)
  then have "view = KeywordIndex (\<lambda>_. Some [''Berlin'', ''Paris''])"
    using assms(2,3) by (auto simp: sample_indexes_def new_match_def)
  moreover have "payload_get_value (sample_payload 0) (fc_key fc) = Single (Some (JArray [JString ''Berlin'', JString ''Paris'']))"
    unfolding fc by code_simp
  ultimately show ?thesis
    by (simp add: fc single_part_def new_match_def match_of_string_def values_at_def flatten_values_def
        List.map_filter_def)
qed


text \<open>
  A \<open>should\<close> list that is present and empty is dropped by the optimiser, which then accepts every point, while the
  payload check accepts none.
\<close>

lemma empty_should_optimized:
  "check_optimized_filter (fst (optimize_filter conv est tot (FilterQuery (Some []) None None))) p"
  "\<not> check_filter chk (FilterQuery (Some []) None None)"
  by (simp_all add: non_empty_def optimize_clause_def)

section \<open>Unique ids\<close>

text \<open>A visited list is fresh for the current iteration when no counter has reached it.\<close>

definition vl_seen :: "visited_list \<Rightarrow> point_offset set" where
  "vl_seen vl = {i. vl_check vl i}"

lemma in_vl_seen: "i \<in> vl_seen vl \<longleftrightarrow> i < length (visit_counters vl) \<and> current_iter vl \<le> visit_counters vl ! i"
  by (simp add: vl_seen_def vl_check_def vec_get_def)

lemma check_and_update_visited_ok:
  assumes "0 < current_iter vl" "check_and_update_visited i vl = (seen, vl')"
  shows "seen \<longleftrightarrow> i \<in> vl_seen vl" "vl_seen vl' = insert i (vl_seen vl)" "current_iter vl' = current_iter vl"
proof -
  let ?cs = "vec_grow 0 i (visit_counters vl)"
  have r: "seen \<longleftrightarrow> current_iter vl \<le> ?cs ! i" "vl' = vl\<lparr>visit_counters := ?cs[i := current_iter vl]\<rparr>"
    using assms(2) by (auto simp: check_and_update_visited_def Let_def)
  show "seen \<longleftrightarrow> i \<in> vl_seen vl"
    using assms(1) by (simp add: r(1) in_vl_seen nth_vec_grow)
  show "vl_seen vl' = insert i (vl_seen vl)"
  proof (rule set_eqI)
    fix j
    show "j \<in> vl_seen vl' \<longleftrightarrow> j \<in> insert i (vl_seen vl)"
      using assms(1) by (cases "j = i") (auto simp: r(2) in_vl_seen nth_vec_grow split: if_splits)
  qed
  show "current_iter vl' = current_iter vl"
    by (simp add: r(2))
qed

text \<open>Filtering a stream through a visited list keeps the first occurrence of every id that was not marked before.\<close>

lemma unvisited_ok:
  assumes "0 < current_iter vl" "unvisited vl ids = (out, vl')"
  shows "distinct out \<and> set out = set ids - vl_seen vl"
  using assms
proof (induction ids arbitrary: vl out)
  case (Cons i ids)
  obtain seen vl1 where u: "check_and_update_visited i vl = (seen, vl1)"
    by fastforce
  obtain rest vl2 where rest: "unvisited vl1 ids = (rest, vl2)"
    by fastforce
  note u_ok = check_and_update_visited_ok [OF Cons.prems(1) u]
  have out: "out = (if seen then rest else i # rest)" "vl' = vl2"
    using Cons.prems(2) by (simp_all add: u rest)
  have "distinct rest \<and> set rest = set ids - insert i (vl_seen vl)"
    using Cons.IH [of vl1 rest] Cons.prems(1) rest u_ok(2,3) by (simp add: out(2))
  then show ?case
    using u_ok(1) by (auto simp: out(1))
qed simp

end
