(* ===== verification/Map_Index.thy ===== *)
theory Map_Index
  imports Query_Optimizer Payload_Storage
begin

text \<open>
  The map index of keyword and integer fields (\<open>lib/segment/src/index/field_index/map_index.rs\<close>) with the default
  method \<open>add_point\<close> of the trait \<open>ValueIndexer\<close> (\<open>field_index_base.rs\<close>). The index keeps the points of every
  value, the values of every point and two counters in memory, and one record per value and point in a column of the
  key value store, whose key is the text of the value, a slash and the number of the point.

  The type parameter of the code is the type variable \<open>'v\<close>; its traits \<open>Display\<close> and \<open>FromStr\<close> are a record,
  with the two instances the code uses. Ordered sets of ids are ascending lists.
\<close>

section \<open>Text of the keys\<close>

record 'v key_text =
  kt_display :: "'v \<Rightarrow> string"
  kt_from_str :: "string \<Rightarrow> 'v option"

definition string_text :: "string key_text" where
  "string_text = \<lparr>kt_display = (\<lambda>s. s), kt_from_str = Some\<rparr>"

definition display_i64 :: "int \<Rightarrow> string" where
  "display_i64 i = (if i < 0 then CHR ''-'' # display_usize (nat (- i)) else display_usize (nat i))"

definition parse_i64 :: "string \<Rightarrow> int option" where
  "parse_i64 s =
     (case s of
        [] \<Rightarrow> None
      | c # ds \<Rightarrow>
          if c = CHR ''-'' then
            (if ds = [] \<or> \<not> list_all is_digit ds then None
             else map_option (\<lambda>n. - int n) (parse_unsigned (2 ^ 63 + 1) ds))
          else map_option int (parse_unsigned (2 ^ 63) s))"

definition i64_text :: "int key_text" where
  "i64_text = \<lparr>kt_display = display_i64, kt_from_str = parse_i64\<rparr>"

text \<open>A string is the list of its bytes; \<open>std::str::from_utf8\<close> accepts the well formed ones.\<close>

definition str_bytes :: "string \<Rightarrow> bytes" where
  "str_bytes s = map of_char s"

definition utf8_tail :: "u8 \<Rightarrow> bool" where
  "utf8_tail b \<longleftrightarrow> 0x80 \<le> b \<and> b \<le> 0xBF"

definition utf8_second :: "u8 \<Rightarrow> u8 \<Rightarrow> bool" where
  "utf8_second a b \<longleftrightarrow>
     (if a = 0xE0 then 0xA0 \<le> b \<and> b \<le> 0xBF else if a = 0xED then 0x80 \<le> b \<and> b \<le> 0x9F
      else if a = 0xF0 then 0x90 \<le> b \<and> b \<le> 0xBF else if a = 0xF4 then 0x80 \<le> b \<and> b \<le> 0x8F
      else utf8_tail b)"

text \<open>The number of bytes of the first character.\<close>

definition utf8_head :: "bytes \<Rightarrow> nat option" where
  "utf8_head bs =
     (case bs of
        [] \<Rightarrow> None
      | a # cs \<Rightarrow>
          if a < 0x80 then Some 1
          else if 0xC2 \<le> a \<and> a \<le> 0xDF then (if 1 \<le> length cs \<and> utf8_tail (cs ! 0) then Some 2 else None)
          else if 0xE0 \<le> a \<and> a \<le> 0xEF then
            (if 2 \<le> length cs \<and> utf8_second a (cs ! 0) \<and> utf8_tail (cs ! 1) then Some 3 else None)
          else if 0xF0 \<le> a \<and> a \<le> 0xF4 then
            (if 3 \<le> length cs \<and> utf8_second a (cs ! 0) \<and> utf8_tail (cs ! 1) \<and> utf8_tail (cs ! 2) then Some 4
             else None)
          else None)"

lemma utf8_head_bounds: "utf8_head bs = Some n \<Longrightarrow> 0 < n \<and> n \<le> length bs"
  by (auto simp: utf8_head_def split: list.splits if_splits)

function utf8_valid :: "bytes \<Rightarrow> bool" where
  "utf8_valid bs = (bs = [] \<or> (case utf8_head bs of None \<Rightarrow> False | Some n \<Rightarrow> utf8_valid (drop n bs)))"
  by auto
termination
  by (relation "measure length") (auto dest: utf8_head_bounds)

declare utf8_valid.simps [simp del]

definition from_utf8 :: "bytes \<Rightarrow> string option" where
  "from_utf8 bs = (if utf8_valid bs then Some (map (\<lambda>b. char_of (unat b)) bs) else None)"

fun rfind :: "char \<Rightarrow> string \<Rightarrow> nat option" where
  "rfind c [] = None"
| "rfind c (x # s) =
     (case rfind c s of Some i \<Rightarrow> Some (Suc i) | None \<Rightarrow> if x = c then Some 0 else None)"

definition encode_db_record :: "'v key_text \<Rightarrow> 'v \<Rightarrow> point_offset \<Rightarrow> string" where
  "encode_db_record K v idx = kt_display K v @ CHR ''/'' # display_usize idx"

definition decode_err :: "op_error + 'a" where
  "decode_err = Inl (ServiceError ''Index db parsing error: wrong data format'')"

definition decode_db_record :: "'v key_text \<Rightarrow> string \<Rightarrow> op_error + 'v \<times> point_offset" where
  "decode_db_record K s =
     (case rfind (CHR ''/'') s of
        None \<Rightarrow> decode_err
      | Some separator_pos \<Rightarrow>
          if separator_pos = length s - 1 then decode_err
          else (case kt_from_str K (take separator_pos s) of
                  None \<Rightarrow> decode_err
                | Some v \<Rightarrow> (case parse_u32 (drop (separator_pos + 1) s) of
                              None \<Rightarrow> decode_err | Some idx \<Rightarrow> Inr (v, idx))))"

section \<open>The index\<close>

record 'v map_index =
  mi_map :: "('v \<times> point_offset list) list"
  mi_point_to_values :: "'v list list"
  mi_indexed_points :: nat
  mi_values_count :: nat
  mi_cf :: string

type_synonym ('v, 'd) map_state = "'v map_index \<times> 'd"

definition storage_cf_name :: "string \<Rightarrow> string" where
  "storage_cf_name field = field @ ''_map''"

definition map_index_new :: "string \<Rightarrow> 'v map_index" where
  "map_index_new field = \<lparr>mi_map = [], mi_point_to_values = [], mi_indexed_points = 0, mi_values_count = 0,
     mi_cf = storage_cf_name field\<rparr>"

definition mi_get :: "'v \<Rightarrow> 'v map_index \<Rightarrow> point_offset list" where
  "mi_get v M = (case map_of (mi_map M) v of None \<Rightarrow> [] | Some ids \<Rightarrow> ids)"

definition map_entry_insert :: "'v \<Rightarrow> point_offset \<Rightarrow> 'v map_index \<Rightarrow> 'v map_index" where
  "map_entry_insert v idx M = M\<lparr>mi_map := AList.update v (insort_insert idx (mi_get v M)) (mi_map M)\<rparr>"

definition map_entry_remove :: "'v \<Rightarrow> point_offset \<Rightarrow> 'v map_index \<Rightarrow> 'v map_index" where
  "map_entry_remove v idx M =
     (case map_of (mi_map M) v of
        None \<Rightarrow> M
      | Some vals \<Rightarrow> M\<lparr>mi_map := AList.update v (filter (\<lambda>i. i \<noteq> idx) vals) (mi_map M)\<rparr>)"

definition mi_recreate :: "'d rocksdb \<Rightarrow> (('v, 'd) map_state, op_error, unit) st_op" where
  "mi_recreate R s = on_db (recreate_column_family R (mi_cf (fst s))) s"

definition mi_clear :: "'d rocksdb \<Rightarrow> 'v map_index \<Rightarrow> ('d, op_error, unit) st_op" where
  "mi_clear R M = recreate_column_family R (mi_cf M)"

definition mi_flusher :: "'d rocksdb \<Rightarrow> 'v map_index \<Rightarrow> ('d, op_error, unit) st_op" where
  "mi_flusher R M = col_flusher R (mi_cf M)"

definition load_record :: "'v \<Rightarrow> point_offset \<Rightarrow> 'v map_index \<Rightarrow> 'v map_index" where
  "load_record v idx M =
     (let ptv = vec_grow [] idx (mi_point_to_values M);
          M1 = M\<lparr>mi_point_to_values := ptv[idx := ptv ! idx @ [v]],
                 mi_indexed_points :=
                   (if ptv ! idx = [] then usize_add (mi_indexed_points M) 1 else mi_indexed_points M),
                 mi_values_count := usize_add (mi_values_count M) 1\<rparr>
      in map_entry_insert v idx M1)"

fun load_records :: "'v key_text \<Rightarrow> (bytes \<times> bytes) list \<Rightarrow> ('v map_index, op_error, unit) st_op" where
  "load_records K [] M = (Inr (), M)"
| "load_records K ((rec, _) # recs) M =
     (case from_utf8 rec of
        None \<Rightarrow> (Inl (ServiceError ''Index load error: UTF8 error while DB parsing''), M)
      | Some s \<Rightarrow> (case decode_db_record K s of
          Inl e \<Rightarrow> (Inl e, M)
        | Inr (v, idx) \<Rightarrow> load_records K recs (load_record v idx M)))"

definition mi_load :: "'d rocksdb \<Rightarrow> 'v key_text \<Rightarrow> (('v, 'd) map_state, op_error, bool) st_op" where
  "mi_load R K s =
     (case has_column_family R (mi_cf (fst s)) (snd s) of
        Inl e \<Rightarrow> (Inl e, s)
      | Inr False \<Rightarrow> (Inr False, s)
      | Inr True \<Rightarrow>
          (let M = (fst s)\<lparr>mi_indexed_points := 0\<rparr>
           in case col_iter R (mi_cf M) (snd s) of
                Inl e \<Rightarrow> (Inl e, (M, snd s))
              | Inr recs \<Rightarrow> (case load_records K recs M of (r, M') \<Rightarrow> (result_map (\<lambda>_. True) r, (M', snd s)))))"

definition mi_get_values :: "'v map_index \<Rightarrow> point_offset \<Rightarrow> 'v list option" where
  "mi_get_values M idx = vec_get (mi_point_to_values M) idx"

definition match_cardinality :: "'v map_index \<Rightarrow> 'v \<Rightarrow> cardinality_estimation" where
  "match_cardinality M v = exact (length (mi_get v M))"

fun put_values :: "'d rocksdb \<Rightarrow> 'v key_text \<Rightarrow> point_offset \<Rightarrow> 'v list \<Rightarrow> (('v, 'd) map_state, op_error, unit) st_op" where
  "put_values R K idx [] s = (Inr (), s)"
| "put_values R K idx (v # vs) s =
     st_bind (on_db (col_put R (mi_cf (fst s)) (str_bytes (encode_db_record K v idx)) []))
       (\<lambda>_. put_values R K idx vs) (apfst (map_entry_insert v idx) s)"

definition add_many_to_map ::
    "'d rocksdb \<Rightarrow> 'v key_text \<Rightarrow> point_offset \<Rightarrow> 'v list \<Rightarrow> (('v, 'd) map_state, op_error, unit) st_op" where
  "add_many_to_map R K idx values s =
     (if values = [] then (Inr (), s)
      else st_bind (put_values R K idx values)
        (\<lambda>_ s. (Inr (), apfst (\<lambda>M. M\<lparr>mi_indexed_points := usize_add (mi_indexed_points M) 1\<rparr>) s))
        (apfst (\<lambda>M. M\<lparr>mi_values_count := usize_add (mi_values_count M) (length values),
                      mi_point_to_values := (vec_grow [] idx (mi_point_to_values M))[idx := values]\<rparr>) s))"

fun remove_values :: "'d rocksdb \<Rightarrow> 'v key_text \<Rightarrow> point_offset \<Rightarrow> 'v list \<Rightarrow> (('v, 'd) map_state, op_error, unit) st_op" where
  "remove_values R K idx [] s = (Inr (), s)"
| "remove_values R K idx (v # vs) s =
     st_bind (on_db (col_remove R (mi_cf (fst s)) (str_bytes (encode_db_record K v idx))))
       (\<lambda>_. remove_values R K idx vs) (apfst (map_entry_remove v idx) s)"

definition mi_remove_point :: "'d rocksdb \<Rightarrow> 'v key_text \<Rightarrow> point_offset \<Rightarrow> (('v, 'd) map_state, op_error, unit) st_op" where
  "mi_remove_point R K idx s =
     (let M = fst s in
      if length (mi_point_to_values M) \<le> idx then (Inr (), s)
      else let removed_values = mi_point_to_values M ! idx
           in remove_values R K idx removed_values
                (M\<lparr>mi_point_to_values := (mi_point_to_values M)[idx := []],
                   mi_indexed_points :=
                     (if removed_values = [] then mi_indexed_points M else usize_sub (mi_indexed_points M) 1),
                   mi_values_count := usize_sub (mi_values_count M) (length removed_values)\<rparr>, snd s))"

section \<open>The trait methods\<close>

text \<open>\<open>ValueIndexer::add_point\<close>, over the methods of the index.\<close>

definition indexer_add_point ::
    "('n json \<Rightarrow> 'v option) \<Rightarrow> (point_offset \<Rightarrow> ('s, op_error, unit) st_op)
      \<Rightarrow> (point_offset \<Rightarrow> 'v list \<Rightarrow> ('s, op_error, unit) st_op)
      \<Rightarrow> point_offset \<Rightarrow> 'n json multi_value \<Rightarrow> ('s, op_error, unit) st_op" where
  "indexer_add_point get_value remove_point add_many idx payload =
     (case payload of
        Multiple values \<Rightarrow> st_bind (remove_point idx) (\<lambda>_. add_many idx (flatten_values get_value values))
      | Single (Some (JArray values)) \<Rightarrow>
          st_bind (remove_point idx) (\<lambda>_. add_many idx (List.map_filter get_value values))
      | Single (Some value) \<Rightarrow>
          (case get_value value of
             Some x \<Rightarrow> st_bind (remove_point idx) (\<lambda>_. add_many idx [x])
           | None \<Rightarrow> (\<lambda>s. (Inr (), s)))
      | Single None \<Rightarrow> (\<lambda>s. (Inr (), s)))"

definition mi_add_point ::
    "'d rocksdb \<Rightarrow> 'v key_text \<Rightarrow> ('n json \<Rightarrow> 'v option) \<Rightarrow> point_offset \<Rightarrow> 'n json multi_value
      \<Rightarrow> (('v, 'd) map_state, op_error, unit) st_op" where
  "mi_add_point R K get_value = indexer_add_point get_value (mi_remove_point R K) (add_many_to_map R K)"

fun keyword_filter :: "string map_index \<Rightarrow> match_cond option \<Rightarrow> point_offset list option" where
  "keyword_filter M (Some (MatchValue (VKeyword keyword))) = Some (mi_get keyword M)"
| "keyword_filter M _ = None"

fun integer_filter :: "int map_index \<Rightarrow> match_cond option \<Rightarrow> point_offset list option" where
  "integer_filter M (Some (MatchValue (VInteger integer))) = Some (mi_get integer M)"
| "integer_filter M _ = None"

definition keyword_estimate_cardinality :: "string map_index \<Rightarrow> field_condition \<Rightarrow> cardinality_estimation option" where
  "keyword_estimate_cardinality M fc =
     (case fc_match fc of
        Some (MatchValue (VKeyword keyword)) \<Rightarrow>
          Some ((match_cardinality M keyword)\<lparr>primary_clauses := [PCondition fc]\<rparr>)
      | Some (MatchAny (Keywords keywords)) \<Rightarrow>
          Some (combine_should_estimations (map (match_cardinality M) keywords) (mi_indexed_points M))
      | _ \<Rightarrow> None)"

definition integer_estimate_cardinality :: "int map_index \<Rightarrow> field_condition \<Rightarrow> cardinality_estimation option" where
  "integer_estimate_cardinality M fc =
     (case fc_match fc of
        Some (MatchValue (VInteger integer)) \<Rightarrow>
          Some ((match_cardinality M integer)\<lparr>primary_clauses := [PCondition fc]\<rparr>)
      | Some (MatchAny (Integers integers)) \<Rightarrow>
          Some (combine_should_estimations (map (match_cardinality M) integers) (mi_indexed_points M))
      | _ \<Rightarrow> None)"

text \<open>The two instances of \<open>payload_blocks\<close> compare the size of a block with the threshold differently.\<close>

definition keyword_payload_blocks :: "string map_index \<Rightarrow> nat \<Rightarrow> string \<Rightarrow> (field_condition \<times> nat) list" where
  "keyword_payload_blocks M threshold key =
     map (\<lambda>(v, ids). (new_match key (match_of_string v), length ids))
       (filter (\<lambda>e. threshold < length (snd e)) (mi_map M))"

definition integer_payload_blocks :: "int map_index \<Rightarrow> nat \<Rightarrow> string \<Rightarrow> (field_condition \<times> nat) list" where
  "integer_payload_blocks M threshold key =
     map (\<lambda>(v, ids). (new_match key (match_of_int v), length ids))
       (filter (\<lambda>e. threshold \<le> length (snd e)) (mi_map M))"

section \<open>Records of the column\<close>

lemma is_digit_char_of: "n < 10 \<Longrightarrow> is_digit (char_of (48 + n)) \<and> digit_value (char_of (48 + n)) = n"
  by (simp add: is_digit_def digit_value_def less_eq_char_def)

lemma display_usize_ok:
  "display_usize n \<noteq> [] \<and> list_all is_digit (display_usize n)
    \<and> foldl (\<lambda>n c. 10 * n + digit_value c) 0 (display_usize n) = n"
proof (induction n rule: display_usize.induct)
  case (1 n)
  show ?case
  proof (cases "n < 10")
    case True
    then show ?thesis
      using is_digit_char_of [of n] by (simp add: display_usize.simps [of n])
  next
    case False
    then show ?thesis
      using 1 is_digit_char_of [of "n mod 10"] by (simp add: display_usize.simps [of n])
  qed
qed

lemma not_digit [simp]: "\<not> is_digit (CHR ''+'')" "\<not> is_digit (CHR ''-'')" "\<not> is_digit (CHR ''/'')"
  by (simp_all add: is_digit_def less_eq_char_def)

lemma parse_display_usize: "n < bound \<Longrightarrow> parse_unsigned bound (display_usize n) = Some n"
  using display_usize_ok [of n] by (auto simp: parse_unsigned_def Let_def split: list.splits)

lemma slash_notin_display: "CHR ''/'' \<notin> set (display_usize n)"
  using display_usize_ok [of n] by (auto simp: list_all_iff)

lemma rfind_None: "c \<notin> set s \<Longrightarrow> rfind c s = None"
  by (induction s) auto

lemma rfind_append: "c \<notin> set t \<Longrightarrow> rfind c (s @ c # t) = Some (length s)"
  by (induction s) (simp_all add: rfind_None)

definition key_ok :: "'v key_text \<Rightarrow> 'v \<Rightarrow> bool" where
  "key_ok K v \<longleftrightarrow> kt_from_str K (kt_display K v) = Some v \<and> utf8_valid (str_bytes (kt_display K v))"

lemma decode_encode:
  assumes "key_ok K v" "idx < 2 ^ 32"
  shows "decode_db_record K (encode_db_record K v idx) = Inr (v, idx)"
  using assms display_usize_ok [of idx]
  by (simp add: decode_db_record_def encode_db_record_def rfind_append slash_notin_display key_ok_def parse_u32_def
      parse_display_usize)

lemma parse_display_i64: "\<lbrakk>- (2 ^ 63) \<le> i; i < 2 ^ 63\<rbrakk> \<Longrightarrow> parse_i64 (display_i64 i) = Some i"
proof (cases "i < 0")
  case True
  moreover assume "- (2 ^ 63) \<le> i"
  ultimately have "nat (- i) < 2 ^ 63 + 1"
    by simp
  then show ?thesis
    using True display_usize_ok [of "nat (- i)"] parse_display_usize [of "nat (- i)" "2 ^ 63 + 1"]
    by (simp add: parse_i64_def display_i64_def)
next
  case False
  moreover assume "i < 2 ^ 63"
  ultimately have "nat i < 2 ^ 63"
    by simp
  moreover obtain c cs where "display_usize (nat i) = c # cs" "is_digit c"
    using display_usize_ok [of "nat i"] by (cases "display_usize (nat i)") auto
  moreover from this(2) have "c \<noteq> CHR ''-''"
    by auto
  ultimately show ?thesis
    using False parse_display_usize [of "nat i" "2 ^ 63"]
    by (simp add: parse_i64_def display_i64_def)
qed

lemma utf8_head_append: "utf8_head bs = Some n \<Longrightarrow> utf8_head (bs @ cs) = Some n"
proof (cases bs)
  case (Cons a xs)
  have nth: "Suc 0 \<le> length xs \<Longrightarrow> (xs @ cs) ! 0 = xs ! 0"
    "2 \<le> length xs \<Longrightarrow> (xs @ cs) ! 0 = xs ! 0 \<and> (xs @ cs) ! Suc 0 = xs ! Suc 0"
    "3 \<le> length xs \<Longrightarrow> (xs @ cs) ! 0 = xs ! 0 \<and> (xs @ cs) ! Suc 0 = xs ! Suc 0 \<and> (xs @ cs) ! 2 = xs ! 2"
    by (auto simp: nth_append)
  assume "utf8_head bs = Some n"
  then show ?thesis
    unfolding Cons utf8_head_def append_Cons list.case
    by (simp only: split: if_split_asm) (simp_all add: nth)
qed (simp add: utf8_head_def)

lemma utf8_valid_append: "\<lbrakk>utf8_valid bs; utf8_valid cs\<rbrakk> \<Longrightarrow> utf8_valid (bs @ cs)"
proof (induction bs rule: utf8_valid.induct)
  case (1 bs)
  show ?case
  proof (cases "utf8_head bs")
    case None
    then show ?thesis
      using 1(2,3) by (simp add: utf8_valid.simps [of bs])
  next
    case (Some n)
    have "utf8_valid (drop n bs)"
      using 1(2) Some by (auto simp: utf8_valid.simps [of bs] utf8_head_def)
    then show ?thesis
      using 1(1) [OF Some] 1(3) Some utf8_head_append [OF Some, of cs] utf8_head_bounds [OF Some]
      by (auto simp: utf8_valid.simps [of "bs @ cs"] utf8_head_def)
  qed
qed

lemma utf8_valid_ascii: "list_all (\<lambda>b. b < 0x80) bs \<Longrightarrow> utf8_valid bs"
  by (induction bs) (simp_all add: utf8_valid.simps [of "_ # _"] utf8_valid.simps [of "[]"] utf8_head_def)

lemma unat_u8_of_char: "unat (of_char c :: u8) = of_char c"
proof -
  have "of_char c < (256 :: nat)"
    by simp
  then show ?thesis
    by (metis of_nat_of_char unat_byte)
qed

lemma digit_ascii: "is_digit c \<Longrightarrow> (of_char c :: u8) < 0x80"
  by (simp add: is_digit_def less_eq_char_def word_less_nat_alt unat_u8_of_char)

lemma from_utf8_str_bytes: "utf8_valid (str_bytes s) \<Longrightarrow> from_utf8 (str_bytes s) = Some s"
  by (simp add: from_utf8_def str_bytes_def comp_def unat_of_char)

lemma utf8_valid_Cons_ascii: "b < 0x80 \<Longrightarrow> utf8_valid (b # bs) = utf8_valid bs"
  by (simp add: utf8_valid.simps [of "b # bs"] utf8_head_def)

lemma utf8_valid_display: "utf8_valid (map of_char (display_usize n))"
  using display_usize_ok [of n]
  by (intro utf8_valid_ascii) (simp only: list_all_iff list.set_map ball_simps, blast intro: digit_ascii)

lemma ascii_signs: "(of_char CHR ''/'' :: u8) < 0x80" "(of_char CHR ''-'' :: u8) < 0x80"
  by simp_all

lemma utf8_valid_encode: "key_ok K v \<Longrightarrow> utf8_valid (str_bytes (encode_db_record K v idx))"
  unfolding key_ok_def encode_db_record_def str_bytes_def map_append list.map
  by (rule utf8_valid_append) (simp_all only: utf8_valid_Cons_ascii [OF ascii_signs(1)] utf8_valid_display)

lemma key_ok_i64: "\<lbrakk>- (2 ^ 63) \<le> i; i < 2 ^ 63\<rbrakk> \<Longrightarrow> key_ok i64_text i"
  using parse_display_i64 [of i]
  by (simp add: key_ok_def i64_text_def) (simp add: str_bytes_def display_i64_def utf8_valid_display utf8_valid_Cons_ascii)

lemma key_ok_string: "key_ok string_text s \<longleftrightarrow> utf8_valid (str_bytes s)"
  by (simp add: key_ok_def string_text_def)

text \<open>The key of the record of a value and a point, and its injectivity.\<close>

abbreviation rec_key :: "'v key_text \<Rightarrow> 'v \<Rightarrow> point_offset \<Rightarrow> bytes" where
  "rec_key K v idx \<equiv> str_bytes (encode_db_record K v idx)"

lemma rec_key_inj:
  assumes "key_ok K v" "i < 2 ^ 32" "key_ok K w" "j < 2 ^ 32"
  shows "rec_key K v i = rec_key K w j \<longleftrightarrow> v = w \<and> i = j"
proof
  assume "rec_key K v i = rec_key K w j"
  then have "from_utf8 (rec_key K v i) = from_utf8 (rec_key K w j)"
    by simp
  then have "encode_db_record K v i = encode_db_record K w j"
    using assms by (simp add: from_utf8_str_bytes utf8_valid_encode)
  then have "decode_db_record K (encode_db_record K v i) = decode_db_record K (encode_db_record K w j)"
    by simp
  then show "v = w \<and> i = j"
    using assms by (simp add: decode_encode)
qed simp

section \<open>Contents of an index\<close>

definition mi_values :: "'v map_index \<Rightarrow> point_offset \<Rightarrow> 'v list" where
  "mi_values M i = (if i < length (mi_point_to_values M) then mi_point_to_values M ! i else [])"

text \<open>
  The invariant of the structure in memory: the two directions agree, the ids of a value ascend, the number of points
  counts the points with a value, and every value has a key. The number of values serves telemetry only; the
  repetitions it counts are lost by a reload, since the column has one record per value and point.
\<close>

definition mi_wf :: "'v key_text \<Rightarrow> 'v map_index \<Rightarrow> bool" where
  "mi_wf K M \<longleftrightarrow>
     (\<forall>v i. i \<in> set (mi_get v M) \<longleftrightarrow> v \<in> set (mi_values M i))
     \<and> (\<forall>v. sorted_wrt (<) (mi_get v M))
     \<and> length (mi_point_to_values M) \<le> 2 ^ 32
     \<and> mi_indexed_points M = length (filter (\<lambda>vs. vs \<noteq> []) (mi_point_to_values M))
     \<and> (\<forall>i. \<forall>v \<in> set (mi_values M i). key_ok K v)"

text \<open>The column holds exactly the records of the index.\<close>

definition mi_sync :: "'d db_contents \<Rightarrow> 'v key_text \<Rightarrow> ('v, 'd) map_state \<Rightarrow> bool" where
  "mi_sync con K s \<longleftrightarrow>
     (\<exists>m. con (snd s) (mi_cf (fst s)) = Some m \<and> dom m = {rec_key K v i |v i. v \<in> set (mi_values (fst s) i)})"

lemma mi_get_insert:
  "mi_get w (map_entry_insert v idx M) = (if w = v then insort_insert idx (mi_get v M) else mi_get w M)"
  by (simp add: mi_get_def map_entry_insert_def alist_conv)

lemma mi_get_remove:
  "mi_get w (map_entry_remove v idx M) = (if w = v then filter (\<lambda>i. i \<noteq> idx) (mi_get v M) else mi_get w M)"
  by (simp add: mi_get_def map_entry_remove_def alist_conv split: option.split)

lemma map_entry_fields [simp]:
  "mi_cf (map_entry_insert v idx M) = mi_cf M" "mi_cf (map_entry_remove v idx M) = mi_cf M"
  "mi_point_to_values (map_entry_insert v idx M) = mi_point_to_values M"
  "mi_point_to_values (map_entry_remove v idx M) = mi_point_to_values M"
  "mi_indexed_points (map_entry_insert v idx M) = mi_indexed_points M"
  "mi_indexed_points (map_entry_remove v idx M) = mi_indexed_points M"
  "mi_values_count (map_entry_insert v idx M) = mi_values_count M"
  "mi_values_count (map_entry_remove v idx M) = mi_values_count M"
  by (simp_all add: map_entry_insert_def map_entry_remove_def split: option.split)

text \<open>Everything of an index but its map.\<close>

definition mi_rest :: "'v map_index \<Rightarrow> 'v list list \<times> nat \<times> nat \<times> string" where
  "mi_rest M = (mi_point_to_values M, mi_indexed_points M, mi_values_count M, mi_cf M)"

lemma put_values_ok:
  assumes "rocks_ok R con" "put_values R K idx vs (M, d) = (Inr u, (M', d'))" "con d (mi_cf M) = Some m"
  shows "mi_rest M' = mi_rest M
    \<and> (\<forall>v. mi_get v M' = (if v \<in> set vs then insort_insert idx (mi_get v M) else mi_get v M))
    \<and> (\<exists>m'. con d' = (con d)(mi_cf M \<mapsto> m') \<and> dom m' = dom m \<union> (\<lambda>v. rec_key K v idx) ` set vs)"
  using assms(2,3)
proof (induction vs arbitrary: M d m)
  case Nil
  then show ?case
    by (auto simp: fun_eq_iff)
next
  case (Cons v vs)
  obtain d1 where d1: "col_put R (mi_cf M) (rec_key K v idx) [] d = (Inr (), d1)"
    and rest: "put_values R K idx vs (map_entry_insert v idx M, d1) = (Inr u, (M', d'))"
    using Cons.prems(1) by (auto simp: st_bind_Inr on_db_Inr)
  have con1: "con d1 = (con d)(mi_cf M \<mapsto> m(rec_key K v idx \<mapsto> []))"
    using col_put_ok [OF assms(1) d1] Cons.prems(2) by auto
  have twice: "insort_insert idx (insort_insert idx xs) = insort_insert idx xs" for xs
    by (simp add: insort_insert_triv set_insort_insert)
  have "con d1 (mi_cf (map_entry_insert v idx M)) = Some (m(rec_key K v idx \<mapsto> []))"
    by (simp add: con1)
  note IH = Cons.IH [OF rest this]
  then obtain m' where m': "con d' = (con d1)(mi_cf (map_entry_insert v idx M) \<mapsto> m')"
    "dom m' = dom (m(rec_key K v idx \<mapsto> [])) \<union> (\<lambda>v. rec_key K v idx) ` set vs"
    by blast
  have "con d' = (con d)(mi_cf M \<mapsto> m')"
    unfolding m'(1) con1 map_entry_fields fun_upd_upd ..
  moreover have "dom m' = dom m \<union> (\<lambda>v. rec_key K v idx) ` set (v # vs)"
    using m'(2) by auto
  moreover have "mi_rest M' = mi_rest M"
    using IH by (simp add: mi_rest_def)
  ultimately show ?case
    using IH by (auto simp: mi_get_insert twice)
qed

lemma remove_values_ok:
  assumes "rocks_ok R con" "remove_values R K idx vs (M, d) = (Inr u, (M', d'))" "con d (mi_cf M) = Some m"
  shows "mi_rest M' = mi_rest M
    \<and> (\<forall>v. mi_get v M' = (if v \<in> set vs then filter (\<lambda>i. i \<noteq> idx) (mi_get v M) else mi_get v M))
    \<and> (\<exists>m'. con d' = (con d)(mi_cf M \<mapsto> m') \<and> dom m' = dom m - (\<lambda>v. rec_key K v idx) ` set vs)"
  using assms(2,3)
proof (induction vs arbitrary: M d m)
  case Nil
  then show ?case
    by (auto simp: fun_eq_iff)
next
  case (Cons v vs)
  obtain d1 where d1: "col_remove R (mi_cf M) (rec_key K v idx) d = (Inr (), d1)"
    and rest: "remove_values R K idx vs (map_entry_remove v idx M, d1) = (Inr u, (M', d'))"
    using Cons.prems(1) by (auto simp: st_bind_Inr on_db_Inr)
  have con1: "con d1 = (con d)(mi_cf M \<mapsto> m(rec_key K v idx := None))"
    using col_remove_ok [OF assms(1) d1] Cons.prems(2) by auto
  have "con d1 (mi_cf (map_entry_remove v idx M)) = Some (m(rec_key K v idx := None))"
    by (simp add: con1)
  note IH = Cons.IH [OF rest this]
  then obtain m' where m': "con d' = (con d1)(mi_cf (map_entry_remove v idx M) \<mapsto> m')"
    "dom m' = dom (m(rec_key K v idx := None)) - (\<lambda>v. rec_key K v idx) ` set vs"
    by blast
  have "con d' = (con d)(mi_cf M \<mapsto> m')"
    unfolding m'(1) con1 map_entry_fields fun_upd_upd ..
  moreover have "dom m' = dom m - (\<lambda>v. rec_key K v idx) ` set (v # vs)"
    using m'(2) by auto
  moreover have "mi_rest M' = mi_rest M"
    using IH by (simp add: mi_rest_def)
  ultimately show ?case
    using IH by (auto simp: mi_get_remove)
qed

definition mi_inv :: "'d db_contents \<Rightarrow> 'v key_text \<Rightarrow> ('v, 'd) map_state \<Rightarrow> bool" where
  "mi_inv con K s \<longleftrightarrow> mi_wf K (fst s) \<and> mi_sync con K s"

text \<open>An operation on the column of an index leaves the other columns and the name of its own alone.\<close>

definition own_column :: "'d db_contents \<Rightarrow> ('v, 'd) map_state \<Rightarrow> ('v, 'd) map_state \<Rightarrow> bool" where
  "own_column con s s' \<longleftrightarrow>
     mi_cf (fst s') = mi_cf (fst s) \<and> (\<forall>cf. cf \<noteq> mi_cf (fst s) \<longrightarrow> con (snd s') cf = con (snd s) cf)"

lemma own_column_refl [simp]: "own_column con s s"
  by (simp add: own_column_def)

lemma own_column_trans: "\<lbrakk>own_column con s s1; own_column con s1 s2\<rbrakk> \<Longrightarrow> own_column con s s2"
  by (simp add: own_column_def)

lemma length_filter_update:
  assumes "i < length xs"
  shows "length (filter P (xs[i := y])) + (if P (xs ! i) then 1 else 0) = length (filter P xs) + (if P y then 1 else 0)"
  using assms
proof (induction xs arbitrary: i)
  case (Cons x xs)
  then show ?case
  proof (cases i)
    case (Suc j)
    then show ?thesis
      using Cons.IH [of j] Cons.prems by (simp split: if_splits)
  qed simp
qed simp

lemma mi_wfD:
  assumes "mi_wf K M"
  shows "i \<in> set (mi_get v M) \<longleftrightarrow> v \<in> set (mi_values M i)"
    and "sorted_wrt (<) (mi_get v M)"
    and "length (mi_point_to_values M) \<le> 2 ^ 32"
    and "mi_indexed_points M = length (filter (\<lambda>vs. vs \<noteq> []) (mi_point_to_values M))"
    and "v \<in> set (mi_values M i) \<Longrightarrow> key_ok K v"
  using assms unfolding mi_wf_def by blast+

lemma mi_indexed_points_le: "mi_wf K M \<Longrightarrow> mi_indexed_points M \<le> 2 ^ 32"
  unfolding mi_wfD(4) by (rule order_trans [OF length_filter_le mi_wfD(3)])

lemma mi_values_bound: "v \<in> set (mi_values M i) \<Longrightarrow> i < length (mi_point_to_values M)"
  by (simp add: mi_values_def split: if_splits)

lemma mi_wf_update:
  assumes wf: "mi_wf K M" and vals: "mi_values M' = (mi_values M)(idx := ws)"
    and get: "\<And>v i. i \<in> set (mi_get v M') \<longleftrightarrow> (if i = idx then v \<in> set ws else i \<in> set (mi_get v M))"
    and sorted: "\<And>v. sorted_wrt (<) (mi_get v M')"
    and len: "length (mi_point_to_values M') \<le> 2 ^ 32"
    and num: "mi_indexed_points M' = length (filter (\<lambda>vs. vs \<noteq> []) (mi_point_to_values M'))"
    and ok: "\<And>v. v \<in> set ws \<Longrightarrow> key_ok K v"
  shows "mi_wf K M'"
  unfolding mi_wf_def
proof (intro conjI allI ballI)
  show "i \<in> set (mi_get v M') \<longleftrightarrow> v \<in> set (mi_values M' i)" for v i
    using mi_wfD(1) [OF wf, of i v] by (simp add: get vals)
  show "key_ok K v" if "v \<in> set (mi_values M' i)" for v i
    using that ok [of v] mi_wfD(5) [OF wf, of v i] by (simp add: vals split: if_splits)
qed (rule sorted len num)+

text \<open>The invariant after the values of one point have been replaced, in both directions, the counter and the column.\<close>

lemma mi_inv_update:
  assumes inv: "mi_inv con K (M, d)" and vals: "mi_values M' = (mi_values M)(idx := ws)"
    and get: "\<And>v i. i \<in> set (mi_get v M') \<longleftrightarrow> (if i = idx then v \<in> set ws else i \<in> set (mi_get v M))"
    and sorted: "\<And>v. sorted_wrt (<) (mi_get v M')"
    and len: "length (mi_point_to_values M') \<le> 2 ^ 32" "idx < 2 ^ 32"
    and num: "mi_indexed_points M' = length (filter (\<lambda>vs. vs \<noteq> []) (mi_point_to_values M'))"
    and ok: "\<And>v. v \<in> set ws \<Longrightarrow> key_ok K v"
    and db: "mi_cf M' = mi_cf M" "con d (mi_cf M) = Some m" "con d' = (con d)(mi_cf M \<mapsto> m')"
      "dom m' = (dom m - (\<lambda>v. rec_key K v idx) ` set (mi_values M idx)) \<union> (\<lambda>v. rec_key K v idx) ` set ws"
  shows "mi_inv con K (M', d') \<and> own_column con (M, d) (M', d')"
proof -
  have wf: "mi_wf K M"
    using inv by (simp add: mi_inv_def)
  have dm: "dom m = {rec_key K v i |v i. v \<in> set (mi_values M i)}"
    using inv db(2) by (auto simp: mi_inv_def mi_sync_def)
  have keys: "rec_key K v i \<in> (\<lambda>v. rec_key K v idx) ` set (mi_values M idx) \<longleftrightarrow> i = idx"
    if v: "v \<in> set (mi_values M i)" for v i
  proof -
    have "i < 2 ^ 32"
      using mi_values_bound [OF v] mi_wfD(3) [OF wf] by linarith
    then show ?thesis
      using rec_key_inj [of K v i _ idx] mi_wfD(5) [OF wf v] mi_wfD(5) [OF wf, of _ idx] v len(2) by auto
  qed
  have "mi_wf K M'"
    by (rule mi_wf_update [OF wf vals get sorted len(1) num ok])
  moreover have "dom m' = {rec_key K v i |v i. v \<in> set (mi_values M' i)}"
    unfolding db(4) dm vals
    by (rule set_eqI) (use keys in \<open>auto split: if_splits\<close>)
  ultimately show ?thesis
    using db(1,3) by (auto simp: mi_inv_def mi_sync_def own_column_def)
qed

lemma mi_remove_point_ok:
  assumes "rocks_ok R con" "mi_inv con K s" "mi_remove_point R K idx s = (Inr u, s')"
  shows "mi_inv con K s' \<and> own_column con s s' \<and> mi_values (fst s') = (mi_values (fst s))(idx := [])"
proof (cases "length (mi_point_to_values (fst s)) \<le> idx")
  case True
  then have "s' = s"
    using assms(3) by (simp add: mi_remove_point_def Let_def)
  moreover have "mi_values (fst s) = (mi_values (fst s))(idx := [])"
    using True by (simp add: mi_values_def fun_eq_iff)
  ultimately show ?thesis
    using assms(2) by simp
next
  case False
  obtain M d M' d' where s: "s = (M, d)" "s' = (M', d')"
    by (metis surj_pair)
  let ?vs = "mi_point_to_values M ! idx"
  let ?M1 = "M\<lparr>mi_point_to_values := (mi_point_to_values M)[idx := []],
      mi_indexed_points := (if ?vs = [] then mi_indexed_points M else usize_sub (mi_indexed_points M) 1),
      mi_values_count := usize_sub (mi_values_count M) (length ?vs)\<rparr>"
  have wf: "mi_wf K M" and idx: "idx < length (mi_point_to_values M)"
    using assms(2) False by (simp_all add: s mi_inv_def)
  obtain m where m: "con d (mi_cf ?M1) = Some m"
    using assms(2) by (auto simp: s mi_inv_def mi_sync_def)
  have "remove_values R K idx ?vs (?M1, d) = (Inr u, (M', d'))"
    using assms(3) False by (simp add: s mi_remove_point_def Let_def)
  note ok = remove_values_ok [OF assms(1) this m]
  have get: "mi_get v M' = (if v \<in> set ?vs then filter (\<lambda>i. i \<noteq> idx) (mi_get v M) else mi_get v M)" for v
    using ok by (simp add: mi_get_def)
  have rest: "mi_point_to_values M' = (mi_point_to_values M)[idx := []]" "mi_cf M' = mi_cf M"
    "mi_indexed_points M' = (if ?vs = [] then mi_indexed_points M else usize_sub (mi_indexed_points M) 1)"
    using ok by (simp_all add: mi_rest_def)
  have vals: "mi_values M' = (mi_values M)(idx := [])" "mi_values M idx = ?vs"
    using idx by (auto simp: mi_values_def rest)
  obtain m' where m': "con d' = (con d)(mi_cf M \<mapsto> m')" "dom m' = dom m - (\<lambda>v. rec_key K v idx) ` set ?vs"
    using ok by auto
  have num: "mi_indexed_points M' = length (filter (\<lambda>vs. vs \<noteq> []) (mi_point_to_values M'))"
    using length_filter_update [OF idx, of "\<lambda>vs. vs \<noteq> []" "[]"] mi_indexed_points_le [OF wf]
    by (simp add: rest mi_wfD(4) [OF wf] split: if_splits)
  have "mi_inv con K (M', d') \<and> own_column con (M, d) (M', d')"
  proof (rule mi_inv_update [where idx = idx and ws = "[]" and m = m and m' = m'])
    show "i \<in> set (mi_get v M') \<longleftrightarrow> (if i = idx then v \<in> set [] else i \<in> set (mi_get v M))" for v i
      using mi_wfD(1) [OF wf, of i v] by (auto simp: get vals)
    show "sorted_wrt (<) (mi_get v M')" for v
      using mi_wfD(2) [OF wf, of v] by (simp add: get sorted_wrt_filter)
    show "length (mi_point_to_values M') \<le> 2 ^ 32" "idx < 2 ^ 32"
      using mi_wfD(3) [OF wf] idx by (simp_all add: rest)
  qed (rule num | use assms(2) m m' in \<open>simp add: s vals rest\<close>)+
  then show ?thesis
    by (simp add: s vals)
qed

lemma add_many_ok:
  assumes "rocks_ok R con" "mi_inv con K s" "add_many_to_map R K idx ws s = (Inr u, s')"
    and "mi_values (fst s) idx = []" "idx < 2 ^ 32" "\<And>v. v \<in> set ws \<Longrightarrow> key_ok K v"
  shows "mi_inv con K s' \<and> own_column con s s' \<and> mi_values (fst s') = (mi_values (fst s))(idx := ws)"
proof (cases "ws = []")
  case True
  then have "s' = s"
    using assms(3) by (simp add: add_many_to_map_def)
  moreover have "mi_values (fst s) = (mi_values (fst s))(idx := [])"
    using assms(4) by (simp add: fun_eq_iff)
  ultimately show ?thesis
    using assms(2) True by simp
next
  case False
  obtain M d M' d' where s: "s = (M, d)" "s' = (M', d')"
    by (metis surj_pair)
  let ?ptv = "vec_grow [] idx (mi_point_to_values M)"
  let ?M1 = "M\<lparr>mi_values_count := usize_add (mi_values_count M) (length ws), mi_point_to_values := ?ptv[idx := ws]\<rparr>"
  have wf: "mi_wf K M"
    using assms(2) by (simp add: s mi_inv_def)
  obtain m where m: "con d (mi_cf ?M1) = Some m"
    using assms(2) by (auto simp: s mi_inv_def mi_sync_def)
  obtain M2 where put: "put_values R K idx ws (?M1, d) = (Inr (), (M2, d'))"
    and M': "M' = M2\<lparr>mi_indexed_points := usize_add (mi_indexed_points M2) 1\<rparr>"
    using assms(3) False by (auto simp: s add_many_to_map_def st_bind_Inr)
  note ok = put_values_ok [OF assms(1) put m]
  have get: "mi_get v M' = (if v \<in> set ws then insort_insert idx (mi_get v M) else mi_get v M)" for v
    using ok by (simp add: mi_get_def M')
  have rest: "mi_point_to_values M' = ?ptv[idx := ws]" "mi_cf M' = mi_cf M"
    "mi_indexed_points M' = usize_add (mi_indexed_points M) 1"
    using ok by (simp_all add: mi_rest_def M')
  have vals: "mi_values M' = (mi_values M)(idx := ws)"
    by (auto simp: mi_values_def rest nth_vec_grow fun_eq_iff)
  obtain m' where m': "con d' = (con d)(mi_cf M \<mapsto> m')" "dom m' = dom m \<union> (\<lambda>v. rec_key K v idx) ` set ws"
    using ok by auto
  have old: "?ptv ! idx = []"
    using assms(4) by (simp add: s nth_vec_grow mi_values_def)
  have grow: "length (filter (\<lambda>vs. vs \<noteq> []) ?ptv) = mi_indexed_points M"
    by (simp add: mi_wfD(4) [OF wf] vec_grow_def vec_resize_def)
  have num: "mi_indexed_points M' = length (filter (\<lambda>vs. vs \<noteq> []) (mi_point_to_values M'))"
    using length_filter_update [of idx ?ptv "\<lambda>vs. vs \<noteq> []" ws] grow old False
    mi_indexed_points_le [OF wf] by (simp add: rest)
  have "mi_inv con K (M', d') \<and> own_column con (M, d) (M', d')"
  proof (rule mi_inv_update [where idx = idx and ws = ws and m = m and m' = m'])
    show "i \<in> set (mi_get v M') \<longleftrightarrow> (if i = idx then v \<in> set ws else i \<in> set (mi_get v M))" for v i
      using mi_wfD(1) [OF wf, of i v] assms(4) by (auto simp: get s set_insort_insert)
    show "sorted_wrt (<) (mi_get v M')" for v
      using mi_wfD(2) [OF wf, of v]
      by (simp add: get strict_sorted_iff sorted_insort_insert distinct_insort_insert)
    show "length (mi_point_to_values M') \<le> 2 ^ 32" "idx < 2 ^ 32"
      using mi_wfD(3) [OF wf] assms(5) by (simp_all add: rest)
  qed (rule num | use assms(2,4,6) m m' in \<open>simp add: s vals rest\<close>)+
  then show ?thesis
    by (simp add: s vals)
qed

section \<open>Histories of an index\<close>

text \<open>
  What an index is for: the values of every point. \<open>spec_add_point\<close> is the effect of \<open>add_point\<close> on it, which keeps
  the old values of the point when the payload has none or a single value of another type.
\<close>

definition spec_add_point :: "('n json \<Rightarrow> 'v option) \<Rightarrow> point_offset \<Rightarrow> 'n json multi_value
    \<Rightarrow> (point_offset \<Rightarrow> 'v list) \<Rightarrow> point_offset \<Rightarrow> 'v list" where
  "spec_add_point get_value idx mv A =
     (case mv of
        Multiple values \<Rightarrow> A(idx := flatten_values get_value values)
      | Single None \<Rightarrow> A
      | Single (Some (JArray values)) \<Rightarrow> A(idx := List.map_filter get_value values)
      | Single (Some v) \<Rightarrow> (case get_value v of None \<Rightarrow> A | Some x \<Rightarrow> A(idx := [x])))"

text \<open>Adding a point either replaces its values or does nothing.\<close>

lemma indexer_add_point_cases:
  obtains (skip) "\<And>s. indexer_add_point get_value remove_point add_many idx mv s = (Inr (), s)"
    "\<And>A. spec_add_point get_value idx mv A = A"
  | (replace) ws where
    "indexer_add_point get_value remove_point add_many idx mv = st_bind (remove_point idx) (\<lambda>_. add_many idx ws)"
    "\<And>A. spec_add_point get_value idx mv A = A(idx := ws)"
    "set ws \<subseteq> {y. \<exists>v \<in> set (mv_values mv). \<exists>x \<in> set (json_elements v). get_value x = Some y}"
proof (cases mv)
  case (Single o1)
  show thesis
  proof (cases o1)
    case None
    then show thesis
      by (intro skip) (simp_all add: Single indexer_add_point_def spec_add_point_def)
  next
    case (Some v)
    have arr: thesis if "v = JArray vs" for vs
      by (rule replace [of "List.map_filter get_value vs"])
        (auto simp: that Single Some indexer_add_point_def spec_add_point_def List.map_filter_def)
    have other: thesis if "json_elements v = [v]" "\<nexists>vs. v = JArray vs"
    proof (cases "get_value v")
      case None
      then show thesis
        by (intro skip; use that in \<open>cases v\<close>)
          (simp_all add: Single Some indexer_add_point_def spec_add_point_def)
    next
      case (Some x)
      then show thesis
        using that(2)
        by (intro replace [of "[x]"]; (cases v)?)
          (auto simp: Single \<open>o1 = Some v\<close> indexer_add_point_def spec_add_point_def)
    qed
    show thesis
      by (cases v) (use arr other in auto)
  qed
next
  case (Multiple vs)
  then show thesis
    by (intro replace [of "flatten_values get_value vs"])
      (simp_all add: indexer_add_point_def spec_add_point_def set_flatten_values)
qed

text \<open>
  The contract of the trait \<open>ValueIndexer\<close>: \<open>remove_point\<close> forgets the values of a point, \<open>add_many\<close> gives
  values to a point that has none, and neither leaves the part of the state the index owns.
\<close>

locale value_indexer =
  fixes remove_point :: "point_offset \<Rightarrow> ('s, op_error, unit) st_op"
    and add_many :: "point_offset \<Rightarrow> 'v list \<Rightarrow> ('s, op_error, unit) st_op"
    and stored :: "'s \<Rightarrow> point_offset \<Rightarrow> 'v list"
    and inv :: "'s \<Rightarrow> bool"
    and frame :: "'s \<Rightarrow> 's \<Rightarrow> bool"
    and ok :: "'v \<Rightarrow> bool"
  assumes remove_ok: "\<lbrakk>inv s; remove_point idx s = (Inr u, s')\<rbrakk>
      \<Longrightarrow> inv s' \<and> frame s s' \<and> stored s' = (stored s)(idx := [])"
    and add_many_ok: "\<lbrakk>inv s; stored s idx = []; idx < 2 ^ 32; \<forall>v \<in> set ws. ok v; add_many idx ws s = (Inr u, s')\<rbrakk>
      \<Longrightarrow> inv s' \<and> frame s s' \<and> stored s' = (stored s)(idx := ws)"
    and frame_refl: "frame s s"
    and frame_trans: "\<lbrakk>frame s s1; frame s1 s2\<rbrakk> \<Longrightarrow> frame s s2"
begin

lemma replace_ok:
  assumes "inv s" "idx < 2 ^ 32" "\<forall>v \<in> set ws. ok v"
    and "st_bind (remove_point idx) (\<lambda>_. add_many idx ws) s = (Inr u, s')"
  shows "inv s' \<and> frame s s' \<and> stored s' = (stored s)(idx := ws)"
proof -
  obtain s1 where s1: "remove_point idx s = (Inr (), s1)" "add_many idx ws s1 = (Inr u, s')"
    using assms(4) by (auto simp: st_bind_Inr)
  note rm = remove_ok [OF assms(1) s1(1)]
  have "inv s' \<and> frame s1 s' \<and> stored s' = (stored s1)(idx := ws)"
    by (rule add_many_ok [OF _ _ assms(2,3) s1(2)]) (use rm in simp_all)
  then show ?thesis
    using rm frame_trans [of s s1 s'] by simp
qed

lemma add_point_ok:
  assumes "inv s" "idx < 2 ^ 32"
    and "\<And>v x. \<lbrakk>v \<in> set (mv_values mv); x \<in> set (json_elements v)\<rbrakk> \<Longrightarrow> pred_option ok (get_value x)"
    and "indexer_add_point get_value remove_point add_many idx mv s = (Inr u, s')"
  shows "inv s' \<and> frame s s' \<and> stored s' = spec_add_point get_value idx mv (stored s)"
proof (cases rule: indexer_add_point_cases [where get_value = get_value and remove_point = remove_point
      and add_many = add_many and idx = idx and mv = mv])
  case skip
  then show ?thesis
    using assms(1,4) frame_refl by simp
next
  case (replace ws)
  have "ok w" if w: "w \<in> set ws" for w
  proof -
    obtain v x where "v \<in> set (mv_values mv)" "x \<in> set (json_elements v)" "get_value x = Some w"
      using replace(3) w by blast
    then show ?thesis
      using assms(3) [of v x] by simp
  qed
  then show ?thesis
    using replace_ok [OF assms(1,2), of ws u s'] assms(4) by (simp add: replace(1,2))
qed

end

interpretation map_vi: value_indexer "mi_remove_point R K" "add_many_to_map R K" "\<lambda>s. mi_values (fst s)"
  "\<lambda>s. rocks_ok R con \<and> mi_inv con K s" "own_column con" "key_ok K"
proof unfold_locales
  show "(rocks_ok R con \<and> mi_inv con K s') \<and> own_column con s s' \<and> mi_values (fst s') = (mi_values (fst s))(idx := [])"
    if "rocks_ok R con \<and> mi_inv con K s" "mi_remove_point R K idx s = (Inr u, s')" for s s' idx u
    using mi_remove_point_ok [of R con K s idx u s'] that by blast
  show "(rocks_ok R con \<and> mi_inv con K s') \<and> own_column con s s' \<and> mi_values (fst s') = (mi_values (fst s))(idx := ws)"
    if "rocks_ok R con \<and> mi_inv con K s" "mi_values (fst s) idx = []" "idx < 2 ^ 32" "\<forall>v \<in> set ws. key_ok K v"
      "add_many_to_map R K idx ws s = (Inr u, s')" for s s' idx ws u
    using add_many_ok [of R con K s idx ws u s'] that by blast
qed (auto intro: own_column_trans)

section \<open>Reloading an index\<close>

lemma insort_insert_strict: "sorted_wrt (<) (xs :: nat list) \<Longrightarrow> sorted_wrt (<) (insort_insert x xs)"
  by (simp add: strict_sorted_iff sorted_insort_insert distinct_insort_insert)

lemma load_record_ok:
  assumes wf: "mi_wf K M" and "key_ok K v" "idx < 2 ^ 32"
  shows "mi_wf K (load_record v idx M)" "mi_cf (load_record v idx M) = mi_cf M"
    and "mi_values (load_record v idx M) = (mi_values M)(idx := mi_values M idx @ [v])"
proof -
  let ?ptv = "vec_grow [] idx (mi_point_to_values M)" and ?M' = "load_record v idx M"
  have old: "?ptv ! idx = mi_values M idx"
    by (simp add: mi_values_def nth_vec_grow)
  have rest: "mi_point_to_values ?M' = ?ptv[idx := ?ptv ! idx @ [v]]" "mi_cf ?M' = mi_cf M"
    "mi_indexed_points ?M' =
      (if ?ptv ! idx = [] then usize_add (mi_indexed_points M) 1 else mi_indexed_points M)"
    by (simp_all add: load_record_def Let_def)
  have get: "mi_get w ?M' = (if w = v then insort_insert idx (mi_get v M) else mi_get w M)" for w
    by (simp add: load_record_def Let_def mi_get_insert) (simp add: mi_get_def)
  show "mi_cf ?M' = mi_cf M"
    by (rule rest)
  show vals: "mi_values ?M' = (mi_values M)(idx := mi_values M idx @ [v])"
    by (auto simp: mi_values_def rest nth_vec_grow fun_eq_iff)
  have grow: "length (filter (\<lambda>vs. vs \<noteq> []) ?ptv) = mi_indexed_points M"
    by (simp add: mi_wfD(4) [OF wf] vec_grow_def vec_resize_def)
  have idx: "idx < length ?ptv"
    by (simp add: less_max_iff_disj)
  show "mi_wf K ?M'"
  proof (rule mi_wf_update [OF wf vals])
    show "i \<in> set (mi_get w ?M') \<longleftrightarrow>
        (if i = idx then w \<in> set (mi_values M idx @ [v]) else i \<in> set (mi_get w M))" for w i
      using mi_wfD(1) [OF wf, of i w] by (auto simp: get set_insort_insert)
    show "sorted_wrt (<) (mi_get w ?M')" for w
      using mi_wfD(2) [OF wf] by (simp add: get insort_insert_strict)
    show "length (mi_point_to_values ?M') \<le> 2 ^ 32"
      using mi_wfD(3) [OF wf] assms(3) by (simp add: rest)
    show "mi_indexed_points ?M' = length (filter (\<lambda>vs. vs \<noteq> []) (mi_point_to_values ?M'))"
      using length_filter_update [OF idx, of "\<lambda>vs. vs \<noteq> []" "?ptv ! idx @ [v]"] grow mi_indexed_points_le [OF wf]
      by (cases "?ptv ! idx = []") (simp_all add: rest)
    show "key_ok K w" if "w \<in> set (mi_values M idx @ [v])" for w
      using that assms(2) mi_wfD(5) [OF wf, of w idx] by auto
  qed
qed

lemma load_records_ok:
  assumes "mi_wf K M" "\<And>k. k \<in> fst ` set recs \<Longrightarrow> \<exists>v i. k = rec_key K v i \<and> key_ok K v \<and> i < 2 ^ 32"
  shows "\<exists>M'. load_records K recs M = (Inr (), M') \<and> mi_wf K M' \<and> mi_cf M' = mi_cf M
    \<and> (\<forall>v i. key_ok K v \<and> i < 2 ^ 32 \<longrightarrow>
          (v \<in> set (mi_values M' i) \<longleftrightarrow> v \<in> set (mi_values M i) \<or> rec_key K v i \<in> fst ` set recs))"
  using assms
proof (induction recs arbitrary: M)
  case (Cons r recs)
  obtain k x where r: "r = (k, x)"
    by fastforce
  obtain v i where k: "k = rec_key K v i" and ok: "key_ok K v" "i < 2 ^ 32"
    using Cons.prems(2) [of k] by (auto simp: r)
  have "from_utf8 k = Some (encode_db_record K v i)"
    unfolding k by (rule from_utf8_str_bytes [OF utf8_valid_encode [OF ok(1)]])
  then have step: "load_records K (r # recs) M = load_records K recs (load_record v i M)"
    by (simp add: r decode_encode [OF ok])
  note rec = load_record_ok [OF Cons.prems(1) ok]
  have pre: "\<exists>v i. k = rec_key K v i \<and> key_ok K v \<and> i < 2 ^ 32" if "k \<in> fst ` set recs" for k
    by (rule Cons.prems(2)) (use that in auto)
  obtain M' where M': "load_records K recs (load_record v i M) = (Inr (), M')" "mi_wf K M'"
      "mi_cf M' = mi_cf (load_record v i M)"
    and vals: "\<And>w j. \<lbrakk>key_ok K w; j < 2 ^ 32\<rbrakk> \<Longrightarrow>
      w \<in> set (mi_values M' j) \<longleftrightarrow> w \<in> set (mi_values (load_record v i M) j) \<or> rec_key K w j \<in> fst ` set recs"
    using Cons.IH [OF rec(1) pre] by blast
  have "w \<in> set (mi_values M' j) \<longleftrightarrow> w \<in> set (mi_values M j) \<or> rec_key K w j \<in> fst ` set (r # recs)"
    if "key_ok K w" "j < 2 ^ 32" for w j
    using vals [OF that] rec_key_inj [OF that ok] by (auto simp: rec(3) r k)
  then show ?case
    using M' step rec(2) by auto
qed simp

lemma mi_wf_new: "mi_wf K (map_index_new field)"
  by (simp add: mi_wf_def map_index_new_def mi_get_def mi_values_def)

lemma strict_sorted_unique: "\<lbrakk>sorted_wrt (<) (xs :: nat list); sorted_wrt (<) ys; set xs = set ys\<rbrakk> \<Longrightarrow> xs = ys"
  by (simp add: strict_sorted_iff sorted_distinct_set_unique)

lemma mi_load_ok:
  fixes K :: "'v key_text"
  assumes "rocks_ok R con" "mi_inv con K (M, d)" "mi_cf M = storage_cf_name field"
  shows "\<exists>M'. mi_load R K (map_index_new field, d) = (Inr True, (M', d)) \<and> mi_inv con K (M', d)
    \<and> (\<forall>v. mi_get v M' = mi_get v M)"
proof -
  let ?N = "map_index_new field :: 'v map_index"
  have wf: "mi_wf K M"
    using assms(2) by (simp add: mi_inv_def)
  obtain m where m: "con d (mi_cf M) = Some m" "dom m = {rec_key K v i |v i. v \<in> set (mi_values M i)}"
    using assms(2) by (auto simp: mi_inv_def mi_sync_def)
  obtain recs where recs: "col_iter R (mi_cf M) d = Inr recs" "map_of recs = m"
    using col_iter_ok [OF assms(1) m(1)] by blast
  have keys: "fst ` set recs = {rec_key K v i |v i. v \<in> set (mi_values M i)}"
    using m(2) unfolding recs(2) [symmetric] dom_map_of_conv_image_fst .
  have valid: "key_ok K v" "i < 2 ^ 32" if "v \<in> set (mi_values M i)" for v i
    using mi_wfD(5) [OF wf that] mi_values_bound [OF that] mi_wfD(3) [OF wf] by simp_all
  have N: "?N\<lparr>mi_indexed_points := 0\<rparr> = ?N" "mi_values ?N i = []" for i
    by (simp_all add: map_index_new_def mi_values_def)
  have pre: "\<exists>v i. k = rec_key K v i \<and> key_ok K v \<and> i < 2 ^ 32" if k: "k \<in> fst ` set recs" for k
  proof -
    obtain v i where "k = rec_key K v i" "v \<in> set (mi_values M i)"
      using k unfolding keys by blast
    then show ?thesis
      using valid [of v i] by auto
  qed
  have "\<exists>M'. load_records K recs ?N = (Inr (), M') \<and> mi_wf K M' \<and> mi_cf M' = mi_cf ?N
    \<and> (\<forall>v i. key_ok K v \<and> i < 2 ^ 32 \<longrightarrow>
        (v \<in> set (mi_values M' i) \<longleftrightarrow> v \<in> set (mi_values ?N i) \<or> rec_key K v i \<in> fst ` set recs))"
    by (rule load_records_ok [OF mi_wf_new]) (rule pre)
  then obtain M' where M': "load_records K recs ?N = (Inr (), M')" "mi_wf K M'" "mi_cf M' = mi_cf ?N"
    and M'_vals: "\<forall>v i. key_ok K v \<and> i < 2 ^ 32 \<longrightarrow>
      (v \<in> set (mi_values M' i) \<longleftrightarrow> v \<in> set (mi_values ?N i) \<or> rec_key K v i \<in> fst ` set recs)"
    by (elim exE conjE)
  have vals: "v \<in> set (mi_values M' i) \<longleftrightarrow> rec_key K v i \<in> fst ` set recs" if "key_ok K v" "i < 2 ^ 32" for v i
    using M'_vals [rule_format, OF conjI [OF that]] by (simp add: N(2))
  have same: "v \<in> set (mi_values M' i) \<longleftrightarrow> v \<in> set (mi_values M i)" for v i
  proof
    assume v: "v \<in> set (mi_values M' i)"
    have ok: "key_ok K v" "i < 2 ^ 32"
      using mi_wfD(5) [OF M'(2) v] mi_values_bound [OF v] mi_wfD(3) [OF M'(2)] by simp_all
    then obtain w j where "rec_key K v i = rec_key K w j" "w \<in> set (mi_values M j)"
      using vals [OF ok] v keys by auto
    then show "v \<in> set (mi_values M i)"
      using rec_key_inj [OF ok valid] by blast
  next
    assume v: "v \<in> set (mi_values M i)"
    then show "v \<in> set (mi_values M' i)"
      using vals [OF valid [OF v]] keys by blast
  qed
  have cf: "mi_cf ?N = mi_cf M"
    by (simp add: map_index_new_def assms(3))
  have "mi_load R K (?N, d) = (Inr True, (M', d))"
    using recs(1) M'(1) rocks_okD(1) [OF assms(1), of "mi_cf M" d] m(1)
    by (simp add: mi_load_def has_column_family_def cf N(1))
  moreover have "mi_inv con K (M', d)"
    using m M'(2,3) cf by (simp add: mi_inv_def mi_sync_def same)
  moreover have "mi_get v M' = mi_get v M" for v
    by (rule strict_sorted_unique) (use mi_wfD(1,2) [OF M'(2)] mi_wfD(1,2) [OF wf] same in auto)
  ultimately show ?thesis
    by blast
qed

section \<open>The index of a history\<close>

datatype 'n index_cmd = AddPoint point_offset "'n json multi_value" | RemovePoint point_offset

fun run_index_cmd :: "'d rocksdb \<Rightarrow> 'v key_text \<Rightarrow> ('n json \<Rightarrow> 'v option) \<Rightarrow> 'n index_cmd
    \<Rightarrow> (('v, 'd) map_state, op_error, unit) st_op" where
  "run_index_cmd R K get_value (AddPoint idx mv) = mi_add_point R K get_value idx mv"
| "run_index_cmd R K get_value (RemovePoint idx) = mi_remove_point R K idx"

fun run_index_cmds :: "'d rocksdb \<Rightarrow> 'v key_text \<Rightarrow> ('n json \<Rightarrow> 'v option) \<Rightarrow> 'n index_cmd list
    \<Rightarrow> (('v, 'd) map_state, op_error, unit) st_op" where
  "run_index_cmds R K get_value [] s = (Inr (), s)"
| "run_index_cmds R K get_value (c # cs) s =
     st_bind (run_index_cmd R K get_value c) (\<lambda>_. run_index_cmds R K get_value cs) s"

fun spec_index_cmd :: "('n json \<Rightarrow> 'v option) \<Rightarrow> (point_offset \<Rightarrow> 'v list) \<Rightarrow> 'n index_cmd \<Rightarrow> point_offset \<Rightarrow> 'v list" where
  "spec_index_cmd get_value A (AddPoint idx mv) = spec_add_point get_value idx mv A"
| "spec_index_cmd get_value A (RemovePoint idx) = A(idx := [])"

fun index_cmd_ok :: "'v key_text \<Rightarrow> ('n json \<Rightarrow> 'v option) \<Rightarrow> 'n index_cmd \<Rightarrow> bool" where
  "index_cmd_ok K get_value (AddPoint idx mv) \<longleftrightarrow>
     idx < 2 ^ 32 \<and> list_all (\<lambda>v. list_all (\<lambda>x. pred_option (key_ok K) (get_value x)) (json_elements v)) (mv_values mv)"
| "index_cmd_ok K get_value (RemovePoint idx) \<longleftrightarrow> True"

lemma run_index_cmd_ok:
  assumes "rocks_ok R con" "mi_inv con K s" "index_cmd_ok K get_value c" "run_index_cmd R K get_value c s = (Inr u, s')"
  shows "mi_inv con K s' \<and> own_column con s s' \<and> mi_values (fst s') = spec_index_cmd get_value (mi_values (fst s)) c"
proof (cases c)
  case (AddPoint idx mv)
  then show ?thesis
    using map_vi.add_point_ok [of R con K s idx mv get_value u s'] assms by (simp add: list_all_iff mi_add_point_def)
next
  case (RemovePoint idx)
  then show ?thesis
    using mi_remove_point_ok [OF assms(1,2), of idx u s'] assms(4) by simp
qed

lemma run_index_cmds_ok:
  assumes "rocks_ok R con" "mi_inv con K s" "list_all (index_cmd_ok K get_value) cs"
    and "run_index_cmds R K get_value cs s = (Inr u, s')"
  shows "mi_inv con K s' \<and> own_column con s s' \<and> mi_values (fst s') = foldl (spec_index_cmd get_value) (mi_values (fst s)) cs"
  using assms(2-4)
proof (induction cs arbitrary: s)
  case (Cons c cs)
  obtain s1 where s1: "run_index_cmd R K get_value c s = (Inr (), s1)" "run_index_cmds R K get_value cs s1 = (Inr u, s')"
    using Cons.prems(3) by (auto simp: st_bind_Inr)
  have step: "mi_inv con K s1 \<and> own_column con s s1 \<and> mi_values (fst s1) = spec_index_cmd get_value (mi_values (fst s)) c"
    by (rule run_index_cmd_ok [OF assms(1) Cons.prems(1) _ s1(1)]) (use Cons.prems(2) in simp)
  show ?case
    using Cons.IH [of s1] Cons.prems(2) s1(2) step own_column_trans [of con s s1 s'] by simp
qed simp

lemma mi_recreate_ok:
  assumes "rocks_ok R con" "mi_recreate R (map_index_new field, d) = (Inr u, s)"
  shows "mi_inv con K s" "fst s = map_index_new field"
proof -
  obtain d' where "recreate_column_family R (storage_cf_name field) d = (Inr u, d')"
    and s: "s = (map_index_new field, d')"
    using assms(2) by (cases s) (simp add: mi_recreate_def on_db_Inr map_index_new_def)
  then have "con d' = (con d)(storage_cf_name field \<mapsto> Map.empty)"
    using recreate_column_family_ok [OF assms(1)] by blast
  then show "mi_inv con K s" "fst s = map_index_new field"
    using mi_wf_new [of K field] by (simp_all add: s mi_inv_def mi_sync_def mi_values_def map_index_new_def)
qed

lemma card_indexed: "card {i. mi_values M i \<noteq> []} = length (filter (\<lambda>vs. vs \<noteq> []) (mi_point_to_values M))"
proof -
  have "{i. mi_values M i \<noteq> []} = {i. i < length (mi_point_to_values M) \<and> mi_point_to_values M ! i \<noteq> []}"
    by (auto simp: mi_values_def)
  then show ?thesis
    by (simp add: length_filter_conv_card)
qed

text \<open>
  C35. The map index refines a function from points to values. After any sequence of additions and removals on a fresh
  column that report success, the ids listed for a value are, in ascending order and without repetition, the points
  that have the value in the history, the estimated cardinality of the value is exactly their number and the counter
  of indexed points is the number of points with a value. An index opened on the column afterwards loads, and lists
  the same ids for every value. The history is what \<open>spec_index_cmd\<close> says of each call; values must have a text that
  parses back, which holds for every UTF-8 string and every \<open>i64\<close>.\<close>

theorem map_index_history:
  assumes "rocks_ok R con" "mi_recreate R (map_index_new field, d) = (Inr u, s0)"
    and "list_all (index_cmd_ok K get_value) cs" "run_index_cmds R K get_value cs s0 = (Inr w, s1)"
    and "A = foldl (spec_index_cmd get_value) (\<lambda>_. []) cs"
  shows "(\<forall>v. set (mi_get v (fst s1)) = {i. v \<in> set (A i)} \<and> sorted_wrt (<) (mi_get v (fst s1))
        \<and> match_cardinality (fst s1) v = exact (card {i. v \<in> set (A i)}))
    \<and> mi_indexed_points (fst s1) = card {i. A i \<noteq> []}
    \<and> (\<exists>M'. mi_load R K (map_index_new field, snd s1) = (Inr True, (M', snd s1))
        \<and> mi_indexed_points M' = mi_indexed_points (fst s1) \<and> (\<forall>v. mi_get v M' = mi_get v (fst s1)))"
proof -
  note new = mi_recreate_ok(1) [OF assms(1,2), of K] mi_recreate_ok(2) [OF assms(1,2)]
  have "mi_values (fst s0) = (\<lambda>_. [])"
    by (simp add: new(2) map_index_new_def mi_values_def fun_eq_iff)
  then have inv: "mi_inv con K s1" and own: "own_column con s0 s1" and vals: "mi_values (fst s1) = A"
    using run_index_cmds_ok [OF assms(1) new(1) assms(3,4)] assms(5) by simp_all
  have wf: "mi_wf K (fst s1)"
    using inv by (simp add: mi_inv_def)
  have sets: "set (mi_get v (fst s1)) = {i. v \<in> set (A i)}" for v
    using mi_wfD(1) [OF wf, of _ v] by (auto simp: vals)
  have card: "length (mi_get v (fst s1)) = card {i. v \<in> set (A i)}" for v
    using distinct_card [of "mi_get v (fst s1)"] mi_wfD(2) [OF wf, of v] sets [of v] by (simp add: strict_sorted_iff)
  have cf: "mi_cf (fst s1) = storage_cf_name field"
    using own by (simp add: own_column_def new(2) map_index_new_def)
  obtain M' where M': "mi_load R K (map_index_new field, snd s1) = (Inr True, (M', snd s1))" "mi_inv con K (M', snd s1)"
    "\<And>v. mi_get v M' = mi_get v (fst s1)"
    using mi_load_ok [OF assms(1) _ cf, of K "snd s1"] inv by auto
  have wf': "mi_wf K M'"
    using M'(2) by (simp add: mi_inv_def)
  have "mi_values M' i = [] \<longleftrightarrow> mi_values (fst s1) i = []" for i
    using mi_wfD(1) [OF wf', of i] mi_wfD(1) [OF wf, of i] M'(3) by (metis (no_types, lifting) list.set_intros(1) neq_Nil_conv empty_iff empty_set)
  then have "mi_indexed_points M' = mi_indexed_points (fst s1)"
    unfolding mi_wfD(4) [OF wf] mi_wfD(4) [OF wf'] card_indexed [symmetric] by simp
  moreover have "mi_indexed_points (fst s1) = card {i. A i \<noteq> []}"
    unfolding mi_wfD(4) [OF wf] card_indexed [symmetric] vals ..
  ultimately show ?thesis
    using sets card mi_wfD(2) [OF wf] M'(1,3) by (auto simp: match_cardinality_def)
qed

text \<open>On the store in memory no call fails once the column exists.\<close>

definition mem_has :: "('v, mem_db) map_state \<Rightarrow> bool" where
  "mem_has s \<longleftrightarrow> map_of (snd s) (mi_cf (fst s)) \<noteq> None"

lemma mem_put_values: "mem_has s \<Longrightarrow> \<exists>s'. put_values mem_rocksdb K idx vs s = (Inr (), s') \<and> mem_has s'"
  by (induction vs arbitrary: s)
    (auto simp: st_bind_def on_db_def col_put_def get_column_family_def mem_rocksdb_def map_db_err_def mem_has_def)

lemma mem_remove_values: "mem_has s \<Longrightarrow> \<exists>s'. remove_values mem_rocksdb K idx vs s = (Inr (), s') \<and> mem_has s'"
  by (induction vs arbitrary: s)
    (auto simp: st_bind_def on_db_def col_remove_def get_column_family_def mem_rocksdb_def map_db_err_def mem_has_def)

lemma mem_remove_point: "mem_has s \<Longrightarrow> \<exists>s'. mi_remove_point mem_rocksdb K idx s = (Inr (), s') \<and> mem_has s'"
proof (cases "length (mi_point_to_values (fst s)) \<le> idx")
  case False
  let ?vs = "mi_point_to_values (fst s) ! idx"
  let ?s = "((fst s)\<lparr>mi_point_to_values := (mi_point_to_values (fst s))[idx := []],
      mi_indexed_points := (if ?vs = [] then mi_indexed_points (fst s) else usize_sub (mi_indexed_points (fst s)) 1),
      mi_values_count := usize_sub (mi_values_count (fst s)) (length ?vs)\<rparr>, snd s)"
  assume "mem_has s"
  then have "mem_has ?s"
    by (simp add: mem_has_def)
  then obtain s' where "remove_values mem_rocksdb K idx ?vs ?s = (Inr (), s')" "mem_has s'"
    using mem_remove_values by blast
  then show ?thesis
    using False by (simp add: mi_remove_point_def Let_def)
qed (simp add: mi_remove_point_def)

lemma mem_add_many: "mem_has s \<Longrightarrow> \<exists>s'. add_many_to_map mem_rocksdb K idx vs s = (Inr (), s') \<and> mem_has s'"
proof (cases "vs = []")
  case False
  let ?s = "apfst (\<lambda>M. M\<lparr>mi_values_count := usize_add (mi_values_count M) (length vs),
      mi_point_to_values := (vec_grow [] idx (mi_point_to_values M))[idx := vs]\<rparr>) s"
  assume "mem_has s"
  then have "mem_has ?s"
    by (simp add: mem_has_def)
  then obtain s' where "put_values mem_rocksdb K idx vs ?s = (Inr (), s')" "mem_has s'"
    using mem_put_values by blast
  then show ?thesis
    using False by (simp add: add_many_to_map_def st_bind_def mem_has_def)
qed (simp add: add_many_to_map_def)

lemma mem_run_index_cmds: "mem_has s \<Longrightarrow> \<exists>s'. run_index_cmds mem_rocksdb K get_value cs s = (Inr (), s') \<and> mem_has s'"
proof (induction cs arbitrary: s)
  case (Cons c cs)
  have "\<exists>s'. run_index_cmd mem_rocksdb K get_value c s = (Inr (), s') \<and> mem_has s'"
  proof (cases c)
    case (AddPoint idx mv)
    then show ?thesis
    proof (cases rule: indexer_add_point_cases [where get_value = get_value and idx = idx and mv = mv
          and remove_point = "mi_remove_point mem_rocksdb K" and add_many = "add_many_to_map mem_rocksdb K"])
      case (replace ws)
      obtain s1 where "mi_remove_point mem_rocksdb K idx s = (Inr (), s1)" "mem_has s1"
        using mem_remove_point [OF Cons.prems] by blast
      then show ?thesis
        using mem_add_many [of s1 K idx ws] by (simp add: AddPoint mi_add_point_def replace(1) st_bind_def)
    qed (use Cons.prems in \<open>simp add: mi_add_point_def\<close>)
  qed (use mem_remove_point [OF Cons.prems] in simp)
  then show ?case
    using Cons.IH by (force simp: st_bind_def)
qed simp

definition sample_cmds :: "int index_cmd list" where
  "sample_cmds = [AddPoint 3 (Single (Some (JArray [JString ''a/b'', JString ''c'']))),
     AddPoint 1 (Multiple [JString ''c'', JNumber 7]), RemovePoint 3, AddPoint 2 (Single (Some (JString ''a/b'')))]"

definition sample_fresh :: "(string, mem_db) map_state" where
  "sample_fresh = snd (mi_recreate mem_rocksdb (map_index_new ''tag'', []))"

definition sample_run :: "(op_error + unit) \<times> (string, mem_db) map_state" where
  "sample_run = run_index_cmds mem_rocksdb string_text keyword_value sample_cmds sample_fresh"

lemma sample_cmds_ok: "list_all (index_cmd_ok string_text keyword_value) sample_cmds"
proof -
  have "key_ok string_text ''a/b''" "key_ok string_text ''c''"
    unfolding key_ok_string by code_simp+
  then show ?thesis
    by (simp add: sample_cmds_def)
qed

theorem map_index_history_witness:
  "set (mi_get ''c'' (fst (snd sample_run)))
     = {i. ''c'' \<in> set (foldl (spec_index_cmd keyword_value) (\<lambda>_. []) sample_cmds i)}"
proof -
  have "fst (mi_recreate mem_rocksdb (map_index_new ''tag'' :: string map_index, [])) = Inr ()"
    by code_simp
  then have r: "mi_recreate mem_rocksdb (map_index_new ''tag'', []) = (Inr (), sample_fresh)"
    by (simp add: sample_fresh_def prod_eq_iff)
  have "mem_has sample_fresh"
    by code_simp
  then have run: "run_index_cmds mem_rocksdb string_text keyword_value sample_cmds sample_fresh = (Inr (), snd sample_run)"
    using mem_run_index_cmds [of sample_fresh string_text keyword_value sample_cmds] by (auto simp: sample_run_def)
  show ?thesis
    using map_index_history [OF rocks_ok_mem r sample_cmds_ok run refl] by blast
qed

end
