(* ===== verification/Error_Types.thy ===== *)
theory Error_Types
  imports Point_Types
begin

text \<open>
  The error types of the collection and storage crates (\<open>lib/collection/src/operations/types.rs\<close>,
  \<open>lib/storage/src/content_manager/errors.rs\<close>) and the conversions an error takes on its way from a segment
  to the client. Backtraces are not modelled. The display functions of the error enums are derived by a macro
  from the attributes of the variants; the ones that print numbers or identifiers are parameters here.
\<close>

type_synonym peer_id = nat

datatype collection_error =
    CBadInput string
  | CNotFound string
  | CPointNotFound point_id
  | CServiceError string
  | CBadRequest string
  | CCancelled string
  | CBadShardSelection string
  | CInconsistentShardFailure nat nat collection_error
  | CForwardProxyError peer_id collection_error

fun remote_peer_id :: "collection_error \<Rightarrow> peer_id option" where
  "remote_peer_id (CForwardProxyError peer_id e) = Some peer_id"
| "remote_peer_id _ = None"

fun from_operation_error :: "(op_error \<Rightarrow> string) \<Rightarrow> op_error \<Rightarrow> collection_error" where
  "from_operation_error disp (WrongVector d r) = CBadInput (disp (WrongVector d r))"
| "from_operation_error disp (VectorNameNotExists n) = CBadInput (disp (VectorNameNotExists n))"
| "from_operation_error disp (MissedVectorName n) = CBadInput (disp (MissedVectorName n))"
| "from_operation_error disp (PointIdError missed_point_id) = CPointNotFound missed_point_id"
| "from_operation_error disp (ServiceError description) = CServiceError description"
| "from_operation_error disp (TypeError f t) = CBadInput (disp (TypeError f t))"
| "from_operation_error disp (Cancelled description) = CCancelled description"
| "from_operation_error disp (TypeInferenceError f) = CBadInput (disp (TypeInferenceError f))"

datatype storage_error =
    StBadInput string
  | StNotFound string
  | StServiceError string
  | StBadRequest string
  | StLocked string

fun display_storage_error :: "storage_error \<Rightarrow> string" where
  "display_storage_error (StBadInput d) = ''Wrong input: '' @ d"
| "display_storage_error (StNotFound d) = ''Not found: '' @ d"
| "display_storage_error (StServiceError d) = ''Service internal error: '' @ d"
| "display_storage_error (StBadRequest d) = ''Bad request: '' @ d"
| "display_storage_error (StLocked d) = ''Storage locked: '' @ d"

fun from_inconsistent_shard_failure :: "collection_error \<Rightarrow> string \<Rightarrow> storage_error" where
  "from_inconsistent_shard_failure (CBadInput _) descr = StBadInput descr"
| "from_inconsistent_shard_failure (CNotFound _) descr = StNotFound descr"
| "from_inconsistent_shard_failure (CPointNotFound _) descr = StNotFound descr"
| "from_inconsistent_shard_failure (CServiceError _) descr = StServiceError descr"
| "from_inconsistent_shard_failure (CBadRequest _) descr = StBadRequest descr"
| "from_inconsistent_shard_failure (CCancelled _) descr = StServiceError (''Operation cancelled: '' @ descr)"
| "from_inconsistent_shard_failure (CInconsistentShardFailure _ _ first_err) descr =
     from_inconsistent_shard_failure first_err descr"
| "from_inconsistent_shard_failure (CBadShardSelection _) descr = StBadRequest descr"
| "from_inconsistent_shard_failure (CForwardProxyError _ error) descr =
     from_inconsistent_shard_failure error descr"

fun from_collection_error :: "(collection_error \<Rightarrow> string) \<Rightarrow> collection_error \<Rightarrow> storage_error" where
  "from_collection_error disp (CBadInput description) = StBadInput description"
| "from_collection_error disp (CNotFound w) = StNotFound (disp (CNotFound w))"
| "from_collection_error disp (CPointNotFound p) = StNotFound (disp (CPointNotFound p))"
| "from_collection_error disp (CServiceError error) = StServiceError error"
| "from_collection_error disp (CBadRequest description) = StBadRequest description"
| "from_collection_error disp (CCancelled description) = StServiceError (''Operation cancelled: '' @ description)"
| "from_collection_error disp (CInconsistentShardFailure t f first_err) =
     from_inconsistent_shard_failure first_err (disp (CInconsistentShardFailure t f first_err))"
| "from_collection_error disp (CBadShardSelection description) = StBadRequest description"
| "from_collection_error disp (CForwardProxyError p error) =
     from_inconsistent_shard_failure error (disp error)"

section \<open>The class of an error survives the conversions\<close>

fun root_cause :: "collection_error \<Rightarrow> collection_error" where
  "root_cause (CInconsistentShardFailure _ _ e) = root_cause e"
| "root_cause (CForwardProxyError _ e) = root_cause e"
| "root_cause e = e"

fun is_service_error :: "storage_error \<Rightarrow> bool" where
  "is_service_error (StServiceError _) = True"
| "is_service_error _ = False"

fun is_internal :: "collection_error \<Rightarrow> bool" where
  "is_internal (CServiceError _) = True"
| "is_internal (CCancelled _) = True"
| "is_internal _ = False"

lemma service_error_of_inconsistent [simp]:
  "is_service_error (from_inconsistent_shard_failure e descr) = is_internal (root_cause e)"
  by (induction e) auto

lemma service_error_of_collection_error:
  "is_service_error (from_collection_error disp e) = is_internal (root_cause e)"
  by (cases e) auto

end
