(* ===== verification/Consensus_Wal.thy ===== *)
theory Consensus_Wal
  imports Error_Types Key_Encoding
begin

text \<open>
  The write-ahead log of the consensus (\<open>lib/storage/src/content_manager/consensus/consensus_wal.rs\<close>). The log
  file itself is the \<open>wal\<close> crate, its records are encoded by \<open>prost\<close>: both are parameters, with their
  documented behaviour as the predicates \<open>wal_ok\<close> and \<open>prost_ok\<close>. Debug assertions are not part of the
  model, which is that of a release build.

  The log of Raft entries a file holds is \<open>wal_repr\<close>; the lemmas show what reading and appending do to it.
\<close>

section \<open>The crates\<close>

datatype entry_type = EntryNormal | EntryConfChange | EntryConfChangeV2

record raft_entry =
  entry_type :: entry_type
  entry_term :: nat
  entry_index :: nat
  entry_data :: bytes
  entry_context :: bytes

record 'w wal_api =
  wal_first_index :: "'w \<Rightarrow> nat"
  wal_last_index :: "'w \<Rightarrow> nat"
  wal_entry :: "nat \<Rightarrow> 'w \<Rightarrow> bytes option"
  wal_append :: "bytes \<Rightarrow> ('w, string, nat) st_op"
  wal_truncate :: "nat \<Rightarrow> ('w, string, unit) st_op"
  wal_clear :: "('w, string, unit) st_op"
  wal_flush_open_segment :: "('w, string, unit) st_op"

record prost_api =
  prost_encode :: "raft_entry \<Rightarrow> string + bytes"
  prost_decode :: "bytes \<Rightarrow> string + raft_entry"
  limit_size :: "raft_entry list \<Rightarrow> nat option \<Rightarrow> raft_entry list"

text \<open>
  A log file holds records numbered from a first index. Appending adds a record at the end, truncating removes
  the records from an index on, clearing removes all of them and starts again at index 0.
\<close>

type_synonym 'w wal_contents = "'w \<Rightarrow> nat \<times> bytes list"

definition wal_ok :: "'w wal_api \<Rightarrow> 'w wal_contents \<Rightarrow> bool" where
  "wal_ok W wc \<longleftrightarrow>
     (\<forall>w f bs. wc w = (f, bs) \<longrightarrow>
        wal_first_index W w = f
        \<and> (bs \<noteq> [] \<longrightarrow> wal_last_index W w = f + length bs - 1)
        \<and> (\<forall>i. wal_entry W i w = (if f \<le> i \<and> i < f + length bs then Some (bs ! (i - f)) else None))
        \<and> (\<forall>b i w'. wal_append W b w = (Inr i, w') \<longrightarrow> i = f + length bs \<and> wc w' = (f, bs @ [b]))
        \<and> (\<forall>i w'. wal_truncate W i w = (Inr (), w') \<longrightarrow> wc w' = (f, take (i - f) bs))
        \<and> (\<forall>w'. wal_clear W w = (Inr (), w') \<longrightarrow> wc w' = (0, []))
        \<and> (\<forall>w'. wal_flush_open_segment W w = (Inr (), w') \<longrightarrow> wc w' = (f, bs)))"

definition prost_ok :: "prost_api \<Rightarrow> bool" where
  "prost_ok X \<longleftrightarrow>
     (\<forall>e b. prost_encode X e = Inr b \<longrightarrow> prost_decode X b = Inr e)
     \<and> (\<forall>es. limit_size X es None = es)"

lemma wal_okD:
  assumes "wal_ok W wc" "wc w = (f, bs)"
  shows "wal_first_index W w = f"
    and "bs \<noteq> [] \<Longrightarrow> wal_last_index W w = f + length bs - 1"
    and "wal_entry W i w = (if f \<le> i \<and> i < f + length bs then Some (bs ! (i - f)) else None)"
    and "wal_append W b w = (Inr i, w') \<Longrightarrow> wc w' = (f, bs @ [b])"
    and "wal_truncate W i w = (Inr (), w') \<Longrightarrow> wc w' = (f, take (i - f) bs)"
    and "wal_clear W w = (Inr (), w') \<Longrightarrow> wc w' = (0, [])"
    and "wal_flush_open_segment W w = (Inr (), w') \<Longrightarrow> wc w' = (f, bs)"
  using assms unfolding wal_ok_def by blast+

section \<open>The operations\<close>

datatype raft_error = RaftUnavailable | RaftCompacted | RaftSnapshotTemporarilyUnavailable | RaftOther string

definition wal_io_error :: "string + 'a \<Rightarrow> storage_error + 'a" where
  "wal_io_error r = (case r of Inl err \<Rightarrow> Inl (StServiceError err) | Inr a \<Rightarrow> Inr a)"

definition wal_decode_error :: "string + 'a \<Rightarrow> storage_error + 'a" where
  "wal_decode_error r = (case r of Inl err \<Rightarrow> Inl (StServiceError (''prost decode error: '' @ err)) | Inr a \<Rightarrow> Inr a)"

definition wal_encode_error :: "string + 'a \<Rightarrow> storage_error + 'a" where
  "wal_encode_error r = (case r of Inl err \<Rightarrow> Inl (StServiceError (''prost encode error: '' @ err)) | Inr a \<Rightarrow> Inr a)"

definition raft_error_other :: "('e \<Rightarrow> string) \<Rightarrow> 'e + 'a \<Rightarrow> raft_error + 'a" where
  "raft_error_other disp r = (case r of Inl e \<Rightarrow> Inl (RaftOther (disp e)) | Inr a \<Rightarrow> Inr a)"

definition cw_clear :: "'w wal_api \<Rightarrow> ('w, storage_error, unit) st_op" where
  "cw_clear W w = apfst wal_io_error (wal_clear W w)"

definition decode_at :: "'w wal_api \<Rightarrow> prost_api \<Rightarrow> nat \<Rightarrow> 'w \<Rightarrow> storage_error + raft_entry option" where
  "decode_at W X i w =
     (case wal_entry W i w of
        None \<Rightarrow> Inr None
      | Some b \<Rightarrow> result_map Some (wal_decode_error (prost_decode X b)))"

definition first_entry :: "'w wal_api \<Rightarrow> prost_api \<Rightarrow> 'w \<Rightarrow> storage_error + raft_entry option" where
  "first_entry W X w = decode_at W X (wal_first_index W w) w"

definition last_entry :: "'w wal_api \<Rightarrow> prost_api \<Rightarrow> 'w \<Rightarrow> storage_error + raft_entry option" where
  "last_entry W X w = decode_at W X (wal_last_index W w) w"

definition cw_entry :: "'w wal_api \<Rightarrow> prost_api \<Rightarrow> nat \<Rightarrow> 'w \<Rightarrow> raft_error + raft_entry" where
  "cw_entry W X idx w =
     (if idx < 1 then Inl RaftUnavailable
      else res_bind (raft_error_other display_storage_error (first_entry W X w)) (\<lambda>first.
           res_bind (ok_or RaftUnavailable first) (\<lambda>first_entry.
             if idx < entry_index first_entry then Inl RaftCompacted
             else (let offset = usize_sub (entry_index first_entry) (wal_first_index W w)
                   in res_bind (ok_or RaftUnavailable (wal_entry W (usize_sub idx offset) w)) (\<lambda>b.
                        raft_error_other (\<lambda>e. e) (prost_decode X b))))))"

definition cw_entries ::
    "'w wal_api \<Rightarrow> prost_api \<Rightarrow> nat \<Rightarrow> nat \<Rightarrow> nat option \<Rightarrow> 'w \<Rightarrow> raft_error + raft_entry list" where
  "cw_entries W X low high max_size w =
     res_bind (collect_results (map (\<lambda>idx. cw_entry W X idx w) [low..<high])) (\<lambda>entries.
     Inr (limit_size X entries max_size))"

definition index_offset :: "'w wal_api \<Rightarrow> prost_api \<Rightarrow> 'w \<Rightarrow> storage_error + nat option" where
  "index_offset W X w =
     res_bind (first_entry W X w) (\<lambda>first_entry.
     Inr (map_option (\<lambda>entry. usize_sub (entry_index entry) (wal_first_index W w)) first_entry))"

text \<open>The conflict handling and the write of one entry in the loop of \<open>append_entries\<close>.\<close>

definition truncate_conflict ::
    "'w wal_api \<Rightarrow> nat \<Rightarrow> nat option \<Rightarrow> ('w, storage_error, unit) st_op" where
  "truncate_conflict W index off w =
     (case off of
        None \<Rightarrow> (Inr (), w)
      | Some offset \<Rightarrow>
          if index < usize_add (wal_last_index W w) offset then
            if index < offset then (Inl (StServiceError ''Wal index conflict''), w)
            else apfst wal_io_error (wal_truncate W (usize_sub index offset) w)
          else (Inr (), w))"

definition append_entry :: "'w wal_api \<Rightarrow> prost_api \<Rightarrow> raft_entry \<Rightarrow> ('w, storage_error, unit) st_op" where
  "append_entry W X entry =
     st_bind (\<lambda>w. (index_offset W X w, w)) (\<lambda>offset.
     st_bind (truncate_conflict W (entry_index entry) offset) (\<lambda>_.
     st_bind (\<lambda>w. (wal_encode_error (prost_encode X entry), w)) (\<lambda>buf.
     st_bind (\<lambda>w. apfst wal_io_error (wal_append W buf w)) (\<lambda>_ w. (Inr (), w)))))"

fun append_all :: "'w wal_api \<Rightarrow> prost_api \<Rightarrow> raft_entry list \<Rightarrow> ('w, storage_error, unit) st_op" where
  "append_all W X [] w = (Inr (), w)"
| "append_all W X (entry # entries) w = st_bind (append_entry W X entry) (\<lambda>_. append_all W X entries) w"

definition append_entries :: "'w wal_api \<Rightarrow> prost_api \<Rightarrow> raft_entry list \<Rightarrow> ('w, storage_error, unit) st_op" where
  "append_entries W X entries =
     st_bind (append_all W X entries) (\<lambda>_ w. apfst wal_io_error (wal_flush_open_segment W w))"

section \<open>The log a file holds\<close>

text \<open>
  \<open>wal_repr\<close>: the file holds the encodings of the entries of \<open>es\<close>, whose Raft indexes are \<open>n\<close>, \<open>n + 1\<close> and
  so on. An empty file starts at record 0.
\<close>

definition wal_repr :: "'w wal_contents \<Rightarrow> prost_api \<Rightarrow> 'w \<Rightarrow> nat \<Rightarrow> raft_entry list \<Rightarrow> bool" where
  "wal_repr wc X w n es \<longleftrightarrow>
     (\<exists>f bs. wc w = (f, bs) \<and> map (prost_decode X) bs = map Inr es
        \<and> map entry_index es = [n..<n + length es] \<and> f \<le> n
        \<and> (es = [] \<longrightarrow> f = 0) \<and> n + length es < 2 ^ 64)"

lemma wal_repr_index: "\<lbrakk>wal_repr wc X w n es; i < length es\<rbrakk> \<Longrightarrow> entry_index (es ! i) = n + i"
  unfolding wal_repr_def by (metis length_map nth_map nth_upt add_less_cancel_left)

lemma map_eq_map_InrD:
  assumes "map g bs = map Inr xs"
  shows "length bs = length xs" and "i < length xs \<Longrightarrow> g (bs ! i) = Inr (xs ! i)"
proof -
  show len: "length bs = length xs"
    using assms by (metis length_map)
  show "i < length xs \<Longrightarrow> g (bs ! i) = Inr (xs ! i)"
    using assms len by (metis nth_map)
qed

lemma first_entry_repr:
  assumes "wal_ok W wc" "wal_repr wc X w n es"
  shows "first_entry W X w = Inr (if es = [] then None else Some (es ! 0))"
proof -
  obtain f bs where w: "wc w = (f, bs)" "map (prost_decode X) bs = map Inr es"
    using assms(2) unfolding wal_repr_def by blast
  show ?thesis
    using map_eq_map_InrD [OF w(2)] wal_okD(1) [OF assms(1) w(1)] wal_okD(3) [OF assms(1) w(1), of f]
    by (simp add: first_entry_def decode_at_def wal_decode_error_def)
qed

lemma last_entry_repr:
  assumes "wal_ok W wc" "wal_repr wc X w n es"
  shows "last_entry W X w = Inr (if es = [] then None else Some (last es))"
proof -
  obtain f bs where w: "wc w = (f, bs)" "map (prost_decode X) bs = map Inr es"
    using assms(2) unfolding wal_repr_def by blast
  note len = map_eq_map_InrD(1) [OF w(2)]
  show ?thesis
  proof (cases "es = []")
    case True
    then show ?thesis
      using len wal_okD(3) [OF assms(1) w(1), of "wal_last_index W w"]
      by (auto simp: last_entry_def decode_at_def)
  next
    case False
    then have "prost_decode X (bs ! (length es - 1)) = Inr (last es)"
      using map_eq_map_InrD(2) [OF w(2)] by (simp add: last_conv_nth)
    moreover have "wal_last_index W w = f + (length es - 1)"
      using False len wal_okD(2) [OF assms(1) w(1)] by (cases bs; cases es) auto
    ultimately show ?thesis
      using False len wal_okD(3) [OF assms(1) w(1), of "wal_last_index W w"]
      by (simp add: last_entry_def decode_at_def wal_decode_error_def)
  qed
qed

lemma index_offset_repr:
  assumes "wal_ok W wc" "wal_repr wc X w n es"
  shows "index_offset W X w = Inr (if es = [] then None else Some (n - wal_first_index W w))"
proof -
  obtain f bs where w: "wc w = (f, bs)" "f \<le> n" "n + length es < 2 ^ 64"
    using assms(2) unfolding wal_repr_def by blast
  show ?thesis
    using first_entry_repr [OF assms] wal_repr_index [OF assms(2), of 0] w wal_okD(1) [OF assms(1) w(1)]
    by (auto simp: index_offset_def)
qed

lemma cw_entry_repr:
  assumes "wal_ok W wc" "wal_repr wc X w n es" "idx < 2 ^ 64" "0 < n"
  shows "cw_entry W X idx w =
    (if idx = 0 \<or> es = [] then Inl RaftUnavailable
     else if idx < n then Inl RaftCompacted
     else if idx < n + length es then Inr (es ! (idx - n))
     else Inl RaftUnavailable)"
proof (cases "idx = 0 \<or> es = []")
  case True
  then show ?thesis
    using first_entry_repr [OF assms(1,2)] by (auto simp: cw_entry_def raft_error_other_def)
next
  case False
  obtain f bs where w: "wc w = (f, bs)" "map (prost_decode X) bs = map Inr es" "f \<le> n" "n + length es < 2 ^ 64"
    using assms(2) unfolding wal_repr_def by blast
  note len = map_eq_map_InrD(1) [OF w(2)]
  have off: "usize_sub n (wal_first_index W w) = n - f"
    using wal_okD(1) [OF assms(1) w(1)] w(3,4) by simp
  have pos: "usize_sub idx (n - f) = f + (idx - n)" if "n \<le> idx"
    using that assms(3) w(3) by simp
  have rec: "wal_entry W (f + (idx - n)) w = (if idx - n < length es then Some (bs ! (idx - n)) else None)"
    using wal_okD(3) [OF assms(1) w(1), of "f + (idx - n)"] len by simp
  have dec: "prost_decode X (bs ! (idx - n)) = Inr (es ! (idx - n))" if "idx - n < length es"
    by (rule map_eq_map_InrD(2) [OF w(2) that])
  have head: "entry_index (es ! 0) = n"
    using wal_repr_index [OF assms(2), of 0] False by simp
  show ?thesis
    using False first_entry_repr [OF assms(1,2)] head off pos rec dec
    by (auto simp: cw_entry_def raft_error_other_def Let_def)
qed

lemma wal_io_error_Inr [simp]: "wal_io_error r = Inr a \<longleftrightarrow> r = Inr a"
  by (cases r) (auto simp: wal_io_error_def)

lemma apfst_eq_Inr: "apfst wal_io_error r = (Inr a, w') \<longleftrightarrow> r = (Inr a, w')"
  by (cases r) auto

lemma truncate_conflict_contents:
  assumes "wal_ok W wc" "wal_repr wc X w n es" "es \<noteq> []" "n \<le> idx"
    and "truncate_conflict W idx (Some (n - wal_first_index W w)) w = (Inr (), w')" "wc w = (f, bs)"
  shows "wc w' = (f, if idx < n + length es - 1 then take (idx - n) bs else bs)"
proof -
  have w: "map (prost_decode X) bs = map Inr es" "f \<le> n" "n + length es < 2 ^ 64"
    using assms(2,6) unfolding wal_repr_def by auto
  have len: "length bs = length es" "bs \<noteq> []"
    using map_eq_map_InrD(1) [OF w(1)] assms(3) by auto
  have "usize_add (wal_last_index W w) (n - f) = n + length es - 1"
    using wal_okD(2) [OF assms(1,6) len(2)] len w(2,3) by (cases "length es") auto
  moreover have "usize_sub idx (n - f) - f = idx - n" if "idx < n + length es"
    using that assms(4) w(2,3) by simp
  ultimately show ?thesis
    using assms(4-6) wal_okD(1) [OF assms(1,6)] wal_okD(5) [OF assms(1,6)] w(2)
    by (auto simp: truncate_conflict_def apfst_eq_Inr split: if_splits)
qed

lemma append_entry_contents:
  assumes "wal_ok W wc" "prost_ok X" "wal_repr wc X w n es" "es \<noteq> [] \<Longrightarrow> n \<le> entry_index e"
    and "append_entry W X e w = (Inr (), w')" "wc w = (f, bs)"
  shows "\<exists>b. wc w' = (f, (if entry_index e < n + length es - 1 then take (entry_index e - n) bs else bs) @ [b])
     \<and> prost_decode X b = Inr e"
proof -
  obtain b w1 i where
    trunc: "truncate_conflict W (entry_index e) (if es = [] then None else Some (n - wal_first_index W w)) w = (Inr (), w1)"
    and enc: "prost_encode X e = Inr b" and app: "wal_append W b w1 = (Inr i, w')"
    using assms(5) unfolding append_entry_def st_bind_Inr index_offset_repr [OF assms(1,3)] apfst_eq_Inr
    by (auto simp: wal_encode_error_def split: sum.splits)
  have "length bs = length es"
    using assms(3,6) map_eq_map_InrD(1) [of "prost_decode X" bs es] unfolding wal_repr_def by auto
  then have "wc w1 = (f, if entry_index e < n + length es - 1 then take (entry_index e - n) bs else bs)"
    using trunc assms(6) truncate_conflict_contents [OF assms(1,3) _ assms(4) _ assms(6), of w1]
    by (cases "es = []") (auto simp: truncate_conflict_def)
  from wal_okD(4) [OF assms(1) this app] enc assms(2) show ?thesis
    unfolding prost_ok_def by blast
qed

lemma append_entry_repr:
  assumes "wal_ok W wc" "prost_ok X" "wal_repr wc X w n es" "append_entry W X e w = (Inr (), w')"
    and "es \<noteq> [] \<Longrightarrow> n \<le> entry_index e \<and> entry_index e \<le> n + length es \<and> entry_index e \<noteq> n + length es - 1"
    and "entry_index e + 1 < 2 ^ 64"
  shows "wal_repr wc X w' (if es = [] then entry_index e else n) (take (entry_index e - n) es @ [e])"
proof -
  obtain f bs where w: "wc w = (f, bs)" "map (prost_decode X) bs = map Inr es" "f \<le> n" "es = [] \<longrightarrow> f = 0"
    "map entry_index es = [n..<n + length es]"
    using assms(3) unfolding wal_repr_def by blast
  obtain b where b: "wc w' = (f, (if entry_index e < n + length es - 1 then take (entry_index e - n) bs else bs) @ [b])"
    "prost_decode X b = Inr e"
    using append_entry_contents [OF assms(1-3) _ assms(4) w(1)] assms(5) by blast
  have len: "length bs = length es"
    by (rule map_eq_map_InrD(1) [OF w(2)])
  have "map (prost_decode X) (take k bs) = map Inr (take k es)" for k
    using w(2) by (metis take_map)
  moreover have "map entry_index (take k es) = [n..<n + k]" if "k \<le> length es" for k
    using that w(5) by (simp flip: take_map)
  moreover have "wc w' = (f, take (entry_index e - n) bs @ [b])"
    using b(1) assms(5) len by (cases "es = []") auto
  ultimately show ?thesis
    unfolding wal_repr_def using w(3-5) b(2) assms(5,6) len
    by (cases "es = []") (auto simp: min_def)
qed

text \<open>A batch as Raft hands it over: the indexes of its entries are consecutive.\<close>

lemma append_all_repr:
  assumes "wal_ok W wc" "prost_ok X"
  shows "\<lbrakk>wal_repr wc X w n es; append_all W X batch w = (Inr (), w'); batch \<noteq> [];
      map entry_index batch = [m..<m + length batch]; m + length batch < 2 ^ 64;
      es \<noteq> [] \<Longrightarrow> n \<le> m \<and> m \<le> n + length es \<and> m \<noteq> n + length es - 1\<rbrakk>
    \<Longrightarrow> wal_repr wc X w' (if es = [] then m else n) (take (m - n) es @ batch)"
proof (induction batch arbitrary: w n es m)
  case (Cons e batch)
  obtain w1 where w1: "append_entry W X e w = (Inr (), w1)" "append_all W X batch w1 = (Inr (), w')"
    using Cons.prems(2) by (auto simp: st_bind_Inr)
  have idx: "entry_index e = m" "map entry_index batch = [Suc m..<Suc m + length batch]"
    using Cons.prems(4) upt_conv_Cons [of m "m + length (e # batch)"] by auto
  have step: "wal_repr wc X w1 (if es = [] then m else n) (take (m - n) es @ [e])" (is "wal_repr _ _ _ ?n ?es")
    using append_entry_repr [OF assms Cons.prems(1) w1(1)] Cons.prems(5,6) idx(1) by auto
  have len: "?n + length ?es = Suc m"
    using Cons.prems(6) by (cases "es = []") auto
  show ?case
  proof (cases "batch = []")
    case True
    then show ?thesis
      using step w1(2) by simp
  next
    case False
    have "?n \<le> Suc m \<and> Suc m \<le> ?n + length ?es \<and> Suc m \<noteq> ?n + length ?es - 1"
      using len by linarith
    moreover have "take (Suc m - ?n) ?es = ?es"
      using len by simp
    ultimately show ?thesis
      using Cons.IH [OF step w1(2) False idx(2)] Cons.prems(5) by simp
  qed
qed simp

lemma append_entries_Inr:
  assumes "append_entries W X batch w = (Inr (), w')"
  shows "\<exists>w1. append_all W X batch w = (Inr (), w1) \<and> wal_flush_open_segment W w1 = (Inr (), w')"
  using assms by (auto simp: append_entries_def st_bind_Inr apfst_eq_Inr)

lemma flush_repr:
  assumes "wal_ok W wc" "wal_repr wc X w n es" "wal_flush_open_segment W w = (Inr (), w')"
  shows "wal_repr wc X w' n es"
  using assms(2) wal_okD(7) [OF assms(1) _ assms(3)] unfolding wal_repr_def by fastforce

section \<open>A log file in memory\<close>

definition mem_wal :: "bytes list wal_api" where
  "mem_wal = \<lparr>wal_first_index = \<lambda>w. 0, wal_last_index = \<lambda>w. length w - 1, wal_entry = \<lambda>i w. vec_get w i,
     wal_append = \<lambda>b w. (Inr (length w), w @ [b]), wal_truncate = \<lambda>i w. (Inr (), take i w),
     wal_clear = \<lambda>w. (Inr (), []), wal_flush_open_segment = \<lambda>w. (Inr (), w)\<rparr>"

lemma wal_ok_mem: "wal_ok mem_wal (\<lambda>w. (0, w))"
  by (auto simp: wal_ok_def mem_wal_def vec_get_def)

text \<open>A codec for the entries with index below 256, one byte of data and term 1.\<close>

definition byte_entry :: "nat \<Rightarrow> u8 \<Rightarrow> raft_entry" where
  "byte_entry i d = \<lparr>entry_type = EntryNormal, entry_term = 1, entry_index = i, entry_data = [d], entry_context = []\<rparr>"

definition byte_prost :: prost_api where
  "byte_prost =
     \<lparr>prost_encode = \<lambda>e. (case entry_data e of
          [d] \<Rightarrow> if entry_index e < 256 \<and> e = byte_entry (entry_index e) d then Inr [of_nat (entry_index e), d]
                 else Inl ''unsupported''
        | _ \<Rightarrow> Inl ''unsupported''),
      prost_decode = \<lambda>b. (case b of [i, d] \<Rightarrow> Inr (byte_entry (unat i) d) | _ \<Rightarrow> Inl ''unsupported''),
      limit_size = \<lambda>es max_size. es\<rparr>"

lemma prost_ok_byte: "prost_ok byte_prost"
  by (auto simp: prost_ok_def byte_prost_def unat_of_nat split: list.splits if_splits)

section \<open>Properties\<close>



text \<open>
  The guard that detects a conflict is strict, so an entry that rewrites the last index of the log is not seen
  as one: the old entry stays, the new one is appended behind it, and reading the index returns the old entry.
\<close>

lemma rewrite_of_last_entry_lost:
  assumes "wal_ok W wc" "prost_ok X" "wal_repr wc X w n es" "es \<noteq> []" "0 < n"
    and "entry_index e = n + length es - 1" "append_entry W X e w = (Inr (), w')"
  shows "cw_entry W X (entry_index e) w' = Inr (last es)"
proof -
  obtain f bs where w: "wc w = (f, bs)" "map (prost_decode X) bs = map Inr es" "f \<le> n" "n + length es < 2 ^ 64"
    using assms(3) unfolding wal_repr_def by blast
  then obtain b where w': "wc w' = (f, bs @ [b])"
    using append_entry_contents [OF assms(1-3) _ assms(7) w(1)] assms(4,6) by (cases es) auto
  have len: "length bs = length es"
    by (rule map_eq_map_InrD(1) [OF w(2)])
  have dec: "prost_decode X (bs ! i) = Inr (es ! i)" if "i < length es" for i
    by (rule map_eq_map_InrD(2) [OF w(2) that])
  have "entry_index (es ! 0) = n"
    using wal_repr_index [OF assms(3), of 0] assms(4) by simp
  moreover obtain k where k: "length es = Suc k"
    using assms(4) by (cases es) auto
  moreover have "usize_sub (n + k) (n - f) = f + k"
    using w(3,4) k by simp
  ultimately show ?thesis
    using assms(4-6) w(3,4) w' len dec [of 0] dec [of k] wal_okD(1,3) [OF assms(1) w']
    by (simp add: cw_entry_def first_entry_def decode_at_def wal_decode_error_def raft_error_other_def
        nth_append last_conv_nth Let_def)
qed

end
