(* ===== verification/Consensus_State.thy ===== *)
theory Consensus_State
  imports Consensus_Wal "HOL-Library.AList"
begin

text \<open>
  The consensus state a peer keeps between restarts: the queue of committed but unapplied entries
  (\<open>consensus/entry_queue.rs\<close>) and the persistent Raft state with its file (\<open>consensus/persistent.rs\<close>, both under
  \<open>lib/storage/src/content_manager\<close>). The file system and the serialiser are the parameter \<open>('f, 'b) state_file\<close> over the contents \<open>'b\<close> of a file; the
  random id of a new peer is an argument.
\<close>

section \<open>The queue of unapplied entries\<close>

type_synonym entry_id = nat
type_synonym entry_queue = "(entry_id \<times> entry_id) option"

definition queue_new :: "entry_id \<Rightarrow> entry_id \<Rightarrow> entry_queue" where
  "queue_new first_index last_index = Some (first_index, last_index)"

definition queue_current :: "entry_queue \<Rightarrow> entry_id option" where
  "queue_current q =
     (case q of Some (current_index, last_index) \<Rightarrow>
        if current_index > last_index then None else Some current_index
      | None \<Rightarrow> None)"

definition queue_applied :: "entry_queue \<Rightarrow> entry_queue" where
  "queue_applied q =
     (case q of Some (current_index, last_index) \<Rightarrow> Some (usize_add current_index 1, last_index) | None \<Rightarrow> None)"

definition get_last_applied :: "entry_queue \<Rightarrow> entry_id option" where
  "get_last_applied q =
     (case q of Some (current, _) \<Rightarrow> if current = 0 then None else Some (current - 1) | None \<Rightarrow> None)"

definition set_from_snapshot :: "entry_id \<Rightarrow> entry_queue" where
  "set_from_snapshot snapshot_at_commit = Some (usize_add snapshot_at_commit 1, snapshot_at_commit)"

definition queue_len :: "entry_queue \<Rightarrow> nat" where
  "queue_len q =
     (case q of None \<Rightarrow> 0
      | Some (current, last_index) \<Rightarrow>
          nat (i64_wrap (i64_wrap (i64_wrap (int last_index) - i64_wrap (int current)) + 1) mod 2 ^ 64))"

definition queue_is_empty :: "entry_queue \<Rightarrow> bool" where
  "queue_is_empty q \<longleftrightarrow> queue_len q = 0"

text \<open>
  The invariant of a queue: its indexes are signed 64-bit numbers and the current one is at most one past the
  last.
\<close>

definition queue_ok :: "entry_queue \<Rightarrow> bool" where
  "queue_ok q \<longleftrightarrow> (\<forall>c l. q = Some (c, l) \<longrightarrow> c \<le> Suc l \<and> Suc l < 2 ^ 63)"

lemma queue_len_ok: "queue_ok (Some (c, l)) \<Longrightarrow> queue_len (Some (c, l)) = Suc l - c"
proof -
  assume "queue_ok (Some (c, l))"
  then have le: "c \<le> Suc l" "Suc l < 2 ^ 63"
    by (auto simp: queue_ok_def)
  then have "queue_len (Some (c, l)) = nat ((int l - int c + 1) mod 2 ^ 64)"
    unfolding queue_len_def by (simp add: i64_wrap_id)
  also have "(int l - int c + 1) mod 2 ^ 64 = int (Suc l - c)"
    using le by simp
  finally show ?thesis
    by simp
qed

lemma queue_is_empty_iff: "queue_ok q \<Longrightarrow> queue_is_empty q \<longleftrightarrow> queue_current q = None"
proof (cases q)
  case (Some p)
  obtain c l where p: "p = (c, l)" by (cases p)
  assume "queue_ok q"
  then show ?thesis
    using queue_len_ok [of c l] Some p by (auto simp: queue_is_empty_def queue_current_def)
qed (simp add: queue_is_empty_def queue_len_def queue_current_def)

lemma queue_applied_ok:
  assumes "queue_ok q" "queue_current q = Some i"
  shows "queue_ok (queue_applied q)" "Suc (queue_len (queue_applied q)) = queue_len q"
    "get_last_applied (queue_applied q) = Some i"
proof -
  obtain l where q: "q = Some (i, l)" "i \<le> l"
    using assms(2) by (auto simp: queue_current_def split: option.splits if_splits)
  then have a: "queue_applied q = Some (Suc i, l)"
    using assms(1) by (simp add: queue_applied_def queue_ok_def)
  show ok: "queue_ok (queue_applied q)"
    using assms(1) q a by (simp add: queue_ok_def)
  show "Suc (queue_len (queue_applied q)) = queue_len q"
    using queue_len_ok [of i l] queue_len_ok [of "Suc i" l] assms(1) ok q a by simp
  show "get_last_applied (queue_applied q) = Some i"
    by (simp add: a get_last_applied_def)
qed

lemma set_from_snapshot_ok:
  assumes "Suc s < 2 ^ 63"
  shows "queue_ok (set_from_snapshot s)" "queue_current (set_from_snapshot s) = None"
    "get_last_applied (set_from_snapshot s) = Some s"
  using assms by (auto simp: set_from_snapshot_def queue_ok_def queue_current_def get_last_applied_def)

section \<open>The persistent state\<close>

record hard_state =
  hs_term :: nat
  hs_vote :: nat
  hs_commit :: nat

record conf_state =
  voters :: "peer_id list"
  learners :: "peer_id list"
  voters_outgoing :: "peer_id list"
  learners_next :: "peer_id list"
  auto_leave :: bool

record raft_state =
  rs_hard_state :: hard_state
  rs_conf_state :: conf_state

record snapshot_metadata =
  meta_conf_state :: conf_state
  meta_index :: nat
  meta_term :: nat

record snapshot_metadata_ser =
  ser_term :: nat
  ser_index :: nat

type_synonym peer_addresses = "(peer_id \<times> string) list"

record persistent =
  p_state :: raft_state
  latest_snapshot_meta :: snapshot_metadata_ser
  apply_progress_queue :: entry_queue
  peer_address_by_id :: peer_addresses
  this_peer_id :: peer_id
  dirty :: bool

text \<open>
  The state file: whether it exists, opening it, decoding its contents, and the atomic replacement of its
  contents by a serialised state. The field \<open>dirty\<close> is not serialised and read back as false. \<open>file_ok\<close> is the
  documented behaviour of an atomic write: it replaces the file as a whole or leaves it as it was.
\<close>

record ('f, 'b) state_file =
  sf_create_dir_all :: "('f, string, unit) st_op"
  sf_exists :: "'f \<Rightarrow> bool"
  sf_open :: "'f \<Rightarrow> string + 'b"
  sf_decode :: "'b \<Rightarrow> string + persistent"
  sf_write :: "persistent \<Rightarrow> ('f, string, unit) st_op"

definition holds_state :: "('f, 'b) state_file \<Rightarrow> 'f \<Rightarrow> persistent \<Rightarrow> bool" where
  "holds_state F f p \<longleftrightarrow> sf_exists F f \<and> (\<forall>b. sf_open F f = Inr b \<longrightarrow> sf_decode F b = Inr (p\<lparr>dirty := False\<rparr>))"

definition file_ok :: "('f, 'b) state_file \<Rightarrow> bool" where
  "file_ok F \<longleftrightarrow>
     (\<forall>f p f'. sf_write F p f = (Inr (), f') \<longrightarrow> holds_state F f' p)
     \<and> (\<forall>f p e f'. sf_write F p f = (Inl e, f') \<longrightarrow> sf_exists F f' = sf_exists F f \<and> sf_open F f' = sf_open F f)
     \<and> (\<forall>f r f'. sf_create_dir_all F f = (r, f') \<longrightarrow> sf_exists F f' = sf_exists F f \<and> sf_open F f' = sf_open F f)"

type_synonym 'f pst = "persistent \<times> 'f"

definition persistent_save :: "('f, 'b) state_file \<Rightarrow> ('f pst, storage_error, unit) st_op" where
  "persistent_save F s =
     (case s of (p, f) \<Rightarrow>
        (case sf_write F p f of
           (Inl err, f') \<Rightarrow> (Inl (StServiceError (''Failed to write file: '' @ err)), (p\<lparr>dirty := True\<rparr>, f'))
         | (Inr _, f') \<Rightarrow> (Inr (), (p\<lparr>dirty := False\<rparr>, f'))))"

definition save_if_dirty :: "('f, 'b) state_file \<Rightarrow> ('f pst, storage_error, unit) st_op" where
  "save_if_dirty F s = (if dirty (fst s) then persistent_save F s else (Inr (), s))"

definition update_from_snapshot ::
    "('f, 'b) state_file \<Rightarrow> snapshot_metadata \<Rightarrow> peer_addresses \<Rightarrow> ('f pst, storage_error, unit) st_op" where
  "update_from_snapshot F meta address_by_id s =
     (case s of (p, f) \<Rightarrow>
        (let hard = rs_hard_state (p_state p);
             hard' = hard\<lparr>hs_term := max (hs_term hard) (meta_term meta), hs_commit := meta_index meta\<rparr>
         in persistent_save F
              (p\<lparr>peer_address_by_id := address_by_id,
                 p_state := \<lparr>rs_hard_state = hard', rs_conf_state = meta_conf_state meta\<rparr>,
                 apply_progress_queue := set_from_snapshot (meta_index meta),
                 latest_snapshot_meta := \<lparr>ser_term = meta_term meta, ser_index = meta_index meta\<rparr>\<rparr>, f)))"

definition default_hard_state :: hard_state where
  "default_hard_state = \<lparr>hs_term = 0, hs_vote = 0, hs_commit = 0\<rparr>"

definition persistent_init :: "('f, 'b) state_file \<Rightarrow> peer_id \<Rightarrow> bool \<Rightarrow> ('f, storage_error, persistent) st_op" where
  "persistent_init F random_id first_peer f =
     (let state =
        \<lparr>p_state = \<lparr>rs_hard_state = default_hard_state,
                    rs_conf_state = \<lparr>voters = (if first_peer then [random_id] else []), learners = [],
                                     voters_outgoing = [], learners_next = [], auto_leave = False\<rparr>\<rparr>,
         latest_snapshot_meta = \<lparr>ser_term = 0, ser_index = 0\<rparr>, apply_progress_queue = None,
         peer_address_by_id = [], this_peer_id = random_id, dirty = False\<rparr>
      in case persistent_save F (state, f) of
           (Inl e, (_, f')) \<Rightarrow> (Inl e, f')
         | (Inr _, (state', f')) \<Rightarrow> (Inr state', f'))"

definition persistent_load :: "('f, 'b) state_file \<Rightarrow> 'f \<Rightarrow> storage_error + persistent" where
  "persistent_load F f =
     (case sf_open F f of
        Inl err \<Rightarrow> Inl (StServiceError err)
      | Inr b \<Rightarrow> (case sf_decode F b of
                   Inl err \<Rightarrow> Inl (StServiceError (''cbor (de)serialization error: '' @ err))
                 | Inr p \<Rightarrow> Inr p))"

definition load_or_init :: "('f, 'b) state_file \<Rightarrow> peer_id \<Rightarrow> bool \<Rightarrow> ('f, storage_error, persistent) st_op" where
  "load_or_init F random_id first_peer f =
     (case sf_create_dir_all F f of
        (Inl err, f') \<Rightarrow> (Inl (StServiceError err), f')
      | (Inr _, f') \<Rightarrow>
          if sf_exists F f' then (persistent_load F f', f')
          else persistent_init F random_id first_peer f')"

definition unapplied_entities_count :: "persistent \<Rightarrow> nat" where
  "unapplied_entities_count p = queue_len (apply_progress_queue p)"

definition apply_state_update ::
    "('f, 'b) state_file \<Rightarrow> (raft_state \<Rightarrow> raft_state) \<Rightarrow> ('f pst, storage_error, unit) st_op" where
  "apply_state_update F update s = persistent_save F (apfst (\<lambda>p. p\<lparr>p_state := update (p_state p)\<rparr>) s)"

definition current_unapplied_entry :: "persistent \<Rightarrow> entry_id option" where
  "current_unapplied_entry p = queue_current (apply_progress_queue p)"

definition entry_applied :: "('f, 'b) state_file \<Rightarrow> ('f pst, storage_error, unit) st_op" where
  "entry_applied F s =
     persistent_save F (apfst (\<lambda>p. p\<lparr>apply_progress_queue := queue_applied (apply_progress_queue p)\<rparr>) s)"

definition set_unapplied_entries ::
    "('f, 'b) state_file \<Rightarrow> entry_id \<Rightarrow> entry_id \<Rightarrow> ('f pst, storage_error, unit) st_op" where
  "set_unapplied_entries F first_index last_index s =
     persistent_save F (apfst (\<lambda>p. p\<lparr>apply_progress_queue := queue_new first_index last_index\<rparr>) s)"

definition set_peer_address_by_id ::
    "('f, 'b) state_file \<Rightarrow> peer_addresses \<Rightarrow> ('f pst, storage_error, unit) st_op" where
  "set_peer_address_by_id F addresses s =
     persistent_save F (apfst (\<lambda>p. p\<lparr>peer_address_by_id := addresses\<rparr>) s)"

definition insert_peer :: "('f, 'b) state_file \<Rightarrow> peer_id \<Rightarrow> string \<Rightarrow> ('f pst, storage_error, unit) st_op" where
  "insert_peer F peer_id address s =
     persistent_save F (apfst (\<lambda>p. p\<lparr>peer_address_by_id := AList.update peer_id address (peer_address_by_id p)\<rparr>) s)"

definition last_applied_entry :: "persistent \<Rightarrow> entry_id option" where
  "last_applied_entry p = get_last_applied (apply_progress_queue p)"

section \<open>The file follows the state\<close>

text \<open>Every operation of the persistent state: an update of the fields followed by a save.\<close>

inductive pst_reach :: "('f, 'b) state_file \<Rightarrow> 'f pst \<Rightarrow> 'f pst \<Rightarrow> bool" for F where
  pst_start: "pst_reach F s s"
| pst_snapshot: "\<lbrakk>pst_reach F s0 s; update_from_snapshot F meta addresses s = (r, s')\<rbrakk> \<Longrightarrow> pst_reach F s0 s'"
| pst_state: "\<lbrakk>pst_reach F s0 s; apply_state_update F update s = (r, s')\<rbrakk> \<Longrightarrow> pst_reach F s0 s'"
| pst_applied: "\<lbrakk>pst_reach F s0 s; entry_applied F s = (r, s')\<rbrakk> \<Longrightarrow> pst_reach F s0 s'"
| pst_unapplied: "\<lbrakk>pst_reach F s0 s; set_unapplied_entries F i j s = (r, s')\<rbrakk> \<Longrightarrow> pst_reach F s0 s'"
| pst_peers: "\<lbrakk>pst_reach F s0 s; set_peer_address_by_id F addresses s = (r, s')\<rbrakk> \<Longrightarrow> pst_reach F s0 s'"
| pst_insert: "\<lbrakk>pst_reach F s0 s; insert_peer F peer uri s = (r, s')\<rbrakk> \<Longrightarrow> pst_reach F s0 s'"
| pst_save: "\<lbrakk>pst_reach F s0 s; persistent_save F s = (r, s')\<rbrakk> \<Longrightarrow> pst_reach F s0 s'"
| pst_save_if_dirty: "\<lbrakk>pst_reach F s0 s; save_if_dirty F s = (r, s')\<rbrakk> \<Longrightarrow> pst_reach F s0 s'"

definition pst_inv :: "('f, 'b) state_file \<Rightarrow> 'f pst \<Rightarrow> bool" where
  "pst_inv F s \<longleftrightarrow> (\<not> dirty (fst s) \<longrightarrow> holds_state F (snd s) (fst s))"

lemma holds_state_dirty [simp]: "holds_state F f (p\<lparr>dirty := b\<rparr>) = holds_state F f p"
  by (simp add: holds_state_def)

lemma persistent_save_inv: "\<lbrakk>file_ok F; persistent_save F s = (r, s')\<rbrakk> \<Longrightarrow> pst_inv F s'"
  by (auto simp: persistent_save_def pst_inv_def file_ok_def split: prod.splits sum.splits)

lemma persistent_save_result:
  "persistent_save F s = (r, s') \<Longrightarrow> fst s' = (fst s)\<lparr>dirty := dirty (fst s')\<rparr> \<and> (is_ok r \<longleftrightarrow> \<not> dirty (fst s'))"
  by (auto simp: persistent_save_def split: prod.splits sum.splits)

lemma pst_reach_inv:
  assumes "pst_reach F s0 s" "file_ok F" "pst_inv F s0"
  shows "pst_inv F s"
  using assms(1,3)
  by induction
    (use persistent_save_inv [OF assms(2)] in
      \<open>auto simp: update_from_snapshot_def apply_state_update_def entry_applied_def set_unapplied_entries_def
        set_peer_address_by_id_def insert_peer_def save_if_dirty_def Let_def split: prod.splits if_splits\<close>)

lemma load_or_init_inv:
  assumes "file_ok F" "load_or_init F rid first f = (Inr p, f')"
  shows "pst_inv F (p, f')"
  using assms persistent_save_inv [OF assms(1)]
  by (auto simp: load_or_init_def persistent_load_def persistent_init_def Let_def pst_inv_def holds_state_def
      split: prod.splits sum.splits if_splits)

lemma load_or_init_restores:
  assumes "file_ok F" "holds_state F f p" "load_or_init F rid first f = (Inr p', f')"
  shows "p' = p\<lparr>dirty := False\<rparr>"
  using assms unfolding load_or_init_def persistent_load_def file_ok_def holds_state_def
  by (fastforce split: prod.splits sum.splits if_splits)

text \<open>A state file in memory.\<close>

definition mem_file :: "(persistent option, persistent) state_file" where
  "mem_file = \<lparr>sf_create_dir_all = \<lambda>f. (Inr (), f), sf_exists = \<lambda>f. f \<noteq> None,
     sf_open = \<lambda>f. ok_or ''no such file'' f, sf_decode = \<lambda>p. Inr (p\<lparr>dirty := False\<rparr>),
     sf_write = \<lambda>p f. (Inr (), Some p)\<rparr>"

lemma file_ok_mem: "file_ok mem_file"
  by (auto simp: file_ok_def mem_file_def holds_state_def)

text \<open>
  C6. The consensus state survives a restart. Start from a state read or created at boot and apply any sequence
  of operations, each of which may succeed or fail to write the file. Once \<open>save_if_dirty\<close> succeeds, reading
  the file at the next boot gives exactly the state in memory: a failed save is never forgotten.\<close>

theorem persistent_restart:
  assumes "file_ok F" "load_or_init F rid first f = (Inr p, f0)" "pst_reach F (p, f0) s"
    and "save_if_dirty F s = (Inr (), (p', f'))" "load_or_init F rid' first' f' = (Inr p'', f'')"
  shows "p'' = p' \<and> p' = (fst s)\<lparr>dirty := False\<rparr>"
proof -
  have "pst_reach F (p, f0) (p', f')"
    using assms(3,4) by (rule pst_save_if_dirty)
  then have inv: "pst_inv F (p', f')"
    by (rule pst_reach_inv [OF _ assms(1) load_or_init_inv [OF assms(1,2)]])
  have res: "\<not> dirty p' \<and> p' = (fst s)\<lparr>dirty := False\<rparr>"
    using assms(4) persistent_save_result [of F s "Inr ()" "(p', f')"]
    by (cases "fst s") (auto simp: save_if_dirty_def split: if_splits)
  then show ?thesis
    using inv load_or_init_restores [OF assms(1) _ assms(5)] by (auto simp: pst_inv_def)
qed

theorem persistent_restart_witness:
  "\<exists>p f0 s p' f' p''. load_or_init mem_file 7 True None = (Inr p, f0) \<and> entry_applied mem_file (p, f0) = (Inr (), s)
     \<and> save_if_dirty mem_file s = (Inr (), (p', f')) \<and> load_or_init mem_file 8 False f' = (Inr p'', f')
     \<and> p'' = p' \<and> this_peer_id p'' = 7"
proof -
  obtain p f0 where boot: "load_or_init mem_file 7 True None = (Inr p, f0)" "this_peer_id p = 7"
    by (simp add: load_or_init_def mem_file_def persistent_init_def Let_def persistent_save_def)
  obtain s where s: "entry_applied mem_file (p, f0) = (Inr (), s)" "this_peer_id (fst s) = 7" "\<not> dirty (fst s)"
    "snd s = Some (p\<lparr>apply_progress_queue := queue_applied (apply_progress_queue p)\<rparr>)"
    using boot(2) by (simp add: entry_applied_def mem_file_def persistent_save_def)
  have save: "save_if_dirty mem_file s = (Inr (), (fst s, snd s))"
    using s(3) by (simp add: save_if_dirty_def)
  obtain p'' where load: "load_or_init mem_file 8 False (snd s) = (Inr p'', snd s)"
    using s(4) by (simp add: load_or_init_def mem_file_def persistent_load_def)
  have "pst_reach mem_file (p, f0) s"
    by (rule pst_applied [OF pst_start s(1)])
  from persistent_restart [OF file_ok_mem boot(1) this save load] show ?thesis
    using boot s save load by (metis prod.collapse)
qed

end
