(* ===== verification/Consensus_Manager.thy ===== *)
theory Consensus_Manager
  imports Consensus_State
begin

text \<open>
  The consensus manager (\<open>lib/storage/src/content_manager/consensus_manager.rs\<close>): applying committed entries
  to the collections and to the cluster topology, applying and producing snapshots, and the storage interface
  the Raft library reads from.

  The code is generic in the container of the collections; it is the record \<open>container\<close>, whose operation on
  a removed peer also updates the address table it shares with the persistent state. The Raft node, the codecs
  and the parser of addresses are third-party code and fields of \<open>consensus_env\<close>. A channel is a number, and
  what is sent on channels is kept in \<open>notified\<close> in order. Locks are not modelled: each operation runs alone.
\<close>

section \<open>Operations, environment and state\<close>

datatype snapshot_status = SnapshotFinish | SnapshotFailure

datatype 'm consensus_op =
    CollectionMeta 'm
  | AddPeer peer_id string
  | RemovePeer peer_id
  | RequestSnapshot
  | ReportSnapshot peer_id snapshot_status

record ('t, 'm, 'c) container =
  perform_collection_meta_op :: "'m \<Rightarrow> ('t, storage_error, bool) st_op"
  collections_snapshot :: "'t \<Rightarrow> 'c"
  apply_collections_snapshot :: "'c \<Rightarrow> ('t, storage_error, unit) st_op"
  container_remove_peer :: "peer_id \<Rightarrow> ('t \<times> peer_addresses, storage_error, unit) st_op"
  container_sync_local_state :: "('t, storage_error, unit) st_op"

datatype conf_change_type = CcAddNode | CcRemoveNode | CcAddLearnerNode

type_synonym conf_change = "(conf_change_type \<times> peer_id) list"

record 'c snapshot_data =
  collections_data :: 'c
  address_by_id :: peer_addresses

record ('t, 'm, 'c, 'w, 'f, 'b, 'n) consensus_env =
  env_container :: "('t, 'm, 'c) container"
  env_wal :: "'w wal_api"
  env_prost :: prost_api
  env_file :: "('f, 'b) state_file"
  env_decode_op :: "bytes \<Rightarrow> string + 'm consensus_op"
  env_decode_conf_change :: "bytes \<Rightarrow> string + conf_change"
  env_apply_conf_change :: "conf_change \<Rightarrow> ('n, string, conf_state) st_op"
  env_parse_uri :: "bytes \<Rightarrow> string option"
  env_encode_snapshot :: "'c snapshot_data \<Rightarrow> string + bytes"
  env_decode_snapshot :: "bytes \<Rightarrow> string + 'c snapshot_data"

datatype thread_status = ThreadWorking | ThreadStopped | ThreadStoppedWithErr string

record message_send_errors =
  send_error_count :: nat
  latest_error :: "string option"

record ('t, 'm, 'w, 'f, 'r) manager =
  m_persistent :: persistent
  m_file :: 'f
  m_wal :: 'w
  m_toc :: 't
  soft_state :: "(peer_id \<times> 'r) option"
  on_consensus_op_apply :: "('m consensus_op \<times> nat) list"
  notified :: "(nat \<times> (storage_error + bool)) list"
  m_first_voter :: "peer_id option"
  consensus_thread_status :: thread_status
  message_send_failures :: "(string \<times> message_send_errors) list"

text \<open>An operation on the persistent state, run inside the manager.\<close>

definition on_persistent ::
    "('f pst, 'e, 'a) st_op \<Rightarrow> (('t, 'm, 'w, 'f, 'r) manager, 'e, 'a) st_op" where
  "on_persistent op s =
     (case op (m_persistent s, m_file s) of (r, (p, f)) \<Rightarrow> (r, s\<lparr>m_persistent := p, m_file := f\<rparr>))"

section \<open>Bookkeeping\<close>

definition record_message_send_failure ::
    "string \<Rightarrow> string \<Rightarrow> ('t, 'm, 'w, 'f, 'r) manager \<Rightarrow> ('t, 'm, 'w, 'f, 'r) manager" where
  "record_message_send_failure peer_address error s =
     (let entry = (case map_of (message_send_failures s) peer_address of
                     None \<Rightarrow> \<lparr>send_error_count = 0, latest_error = None\<rparr> | Some e \<Rightarrow> e)
      in s\<lparr>message_send_failures :=
             AList.update peer_address
               \<lparr>send_error_count = usize_add (send_error_count entry) 1, latest_error = Some error\<rparr>
               (message_send_failures s)\<rparr>)"

definition record_message_send_success ::
    "string \<Rightarrow> ('t, 'm, 'w, 'f, 'r) manager \<Rightarrow> ('t, 'm, 'w, 'f, 'r) manager" where
  "record_message_send_success peer_address s =
     s\<lparr>message_send_failures := AList.delete peer_address (message_send_failures s)\<rparr>"

definition record_consensus_working :: "('t, 'm, 'w, 'f, 'r) manager \<Rightarrow> ('t, 'm, 'w, 'f, 'r) manager" where
  "record_consensus_working s = s\<lparr>consensus_thread_status := ThreadWorking\<rparr>"

definition on_consensus_stopped :: "('t, 'm, 'w, 'f, 'r) manager \<Rightarrow> ('t, 'm, 'w, 'f, 'r) manager" where
  "on_consensus_stopped s = s\<lparr>consensus_thread_status := ThreadStopped\<rparr>"

definition on_consensus_thread_err ::
    "string \<Rightarrow> ('t, 'm, 'w, 'f, 'r) manager \<Rightarrow> ('t, 'm, 'w, 'f, 'r) manager" where
  "on_consensus_thread_err err s = s\<lparr>consensus_thread_status := ThreadStoppedWithErr err\<rparr>"

definition set_raft_soft_state ::
    "peer_id \<times> 'r \<Rightarrow> ('t, 'm, 'w, 'f, 'r) manager \<Rightarrow> ('t, 'm, 'w, 'f, 'r) manager" where
  "set_raft_soft_state state s = s\<lparr>soft_state := Some state\<rparr>"

definition first_voter :: "('t, 'm, 'w, 'f, 'r) manager \<Rightarrow> peer_id" where
  "first_voter s = (case m_first_voter s of Some voter \<Rightarrow> voter | None \<Rightarrow> this_peer_id (m_persistent s))"

definition set_first_voter :: "peer_id \<Rightarrow> ('t, 'm, 'w, 'f, 'r) manager \<Rightarrow> ('t, 'm, 'w, 'f, 'r) manager" where
  "set_first_voter voter s = s\<lparr>m_first_voter := Some voter\<rparr>"

record 'r cluster_info =
  ci_peer_id :: peer_id
  ci_peers :: peer_addresses
  ci_term :: nat
  ci_commit :: nat
  ci_pending_operations :: nat
  ci_leader :: "peer_id option"
  ci_role :: "'r option"
  ci_is_voter :: bool
  ci_thread_status :: thread_status
  ci_send_failures :: "(string \<times> message_send_errors) list"

definition cluster_status :: "('t, 'm, 'w, 'f, 'r) manager \<Rightarrow> 'r cluster_info" where
  "cluster_status s =
     (let p = m_persistent s; hard = rs_hard_state (p_state p)
      in \<lparr>ci_peer_id = this_peer_id p, ci_peers = peer_address_by_id p, ci_term = hs_term hard,
          ci_commit = hs_commit hard, ci_pending_operations = unapplied_entities_count p,
          ci_leader = map_option fst (soft_state s), ci_role = map_option snd (soft_state s),
          ci_is_voter = List.member (voters (rs_conf_state (p_state p))) (this_peer_id p),
          ci_thread_status = consensus_thread_status s, ci_send_failures = message_send_failures s\<rparr>)"

section \<open>Applying committed entries\<close>

text \<open>Removing the listener of an operation and sending it the result.\<close>

definition take_listener ::
    "'m consensus_op \<Rightarrow> ('t, 'm, 'w, 'f, 'r) manager \<Rightarrow> nat option \<times> ('t, 'm, 'w, 'f, 'r) manager" where
  "take_listener operation s =
     (map_of (on_consensus_op_apply s) operation,
      s\<lparr>on_consensus_op_apply := AList.delete operation (on_consensus_op_apply s)\<rparr>)"

definition notify ::
    "nat option \<Rightarrow> storage_error + bool \<Rightarrow> ('t, 'm, 'w, 'f, 'r) manager \<Rightarrow> ('t, 'm, 'w, 'f, 'r) manager" where
  "notify on_apply res s =
     (case on_apply of None \<Rightarrow> s | Some ch \<Rightarrow> s\<lparr>notified := notified s @ [(ch, res)]\<rparr>)"

definition add_peer ::
    "('t, 'm, 'c, 'w, 'f, 'b, 'n) consensus_env \<Rightarrow> peer_id \<Rightarrow> string
      \<Rightarrow> (('t, 'm, 'w, 'f, 'r) manager, storage_error, unit) st_op" where
  "add_peer E peer_id uri = on_persistent (insert_peer (env_file E) peer_id uri)"

definition remove_peer ::
    "('t, 'm, 'c, 'w, 'f, 'b, 'n) consensus_env \<Rightarrow> peer_id
      \<Rightarrow> (('t, 'm, 'w, 'f, 'r) manager, storage_error, unit) st_op" where
  "remove_peer E peer_id =
     st_bind (\<lambda>s. case container_remove_peer (env_container E) peer_id (m_toc s, peer_address_by_id (m_persistent s)) of
                    (r, (t, addresses)) \<Rightarrow>
                      (r, s\<lparr>m_toc := t, m_persistent := (m_persistent s)\<lparr>peer_address_by_id := addresses\<rparr>\<rparr>))
       (\<lambda>_. on_persistent (persistent_save (env_file E)))"

definition on_peer_remove ::
    "('t, 'm, 'c, 'w, 'f, 'b, 'n) consensus_env \<Rightarrow> peer_id
      \<Rightarrow> (('t, 'm, 'w, 'f, 'r) manager, storage_error, bool) st_op" where
  "on_peer_remove E peer_id s =
     (case remove_peer E peer_id s of
        (Inl (StServiceError d), s1) \<Rightarrow> (Inl (StServiceError d), s1)
      | (r, s1) \<Rightarrow>
          (let stop_consensus = (is_ok r \<and> this_peer_id (m_persistent s1) = peer_id);
               report = result_map (\<lambda>_. True) r;
               (on_apply, s2) = take_listener (RemovePeer peer_id) s1
           in (Inr stop_consensus, notify on_apply report s2)))"

definition apply_normal_entry ::
    "('t, 'm, 'c, 'w, 'f, 'b, 'n) consensus_env \<Rightarrow> raft_entry \<Rightarrow> ('t, 'm, 'w, 'f, 'r) manager
      \<Rightarrow> (storage_error + bool) option \<times> ('t, 'm, 'w, 'f, 'r) manager" where
  "apply_normal_entry E entry s =
     (case env_decode_op E (entry_data entry) of
        Inl err \<Rightarrow> (Some (Inl (StServiceError (''cbor (de)serialization error: '' @ err))), s)
      | Inr operation \<Rightarrow>
          (let (on_apply, s1) = take_listener operation s
           in case operation of
                CollectionMeta op \<Rightarrow>
                  (case perform_collection_meta_op (env_container E) op (m_toc s1) of
                     (res, t) \<Rightarrow> (Some res, notify on_apply res (s1\<lparr>m_toc := t\<rparr>)))
              | AddPeer _ _ \<Rightarrow> (Some (Inr False), notify on_apply (Inr False) s1)
              | RemovePeer _ \<Rightarrow> (Some (Inr False), notify on_apply (Inr False) s1)
              | RequestSnapshot \<Rightarrow> (None, s1)
              | ReportSnapshot _ _ \<Rightarrow> (None, s1)))"

fun apply_conf_changes ::
    "('t, 'm, 'c, 'w, 'f, 'b, 'n) consensus_env \<Rightarrow> raft_entry \<Rightarrow> conf_change \<Rightarrow> bool
      \<Rightarrow> (('t, 'm, 'w, 'f, 'r) manager, storage_error, bool) st_op" where
  "apply_conf_changes E entry [] stop_consensus s = (Inr stop_consensus, s)"
| "apply_conf_changes E entry ((CcAddNode, node_id) # changes) stop_consensus s =
     apply_conf_changes E entry changes stop_consensus s"
| "apply_conf_changes E entry ((CcRemoveNode, node_id) # changes) stop_consensus s =
     st_bind (on_peer_remove E node_id) (\<lambda>stop. apply_conf_changes E entry changes (stop_consensus \<or> stop)) s"
| "apply_conf_changes E entry ((CcAddLearnerNode, node_id) # changes) stop_consensus s =
     (case env_parse_uri E (entry_context entry) of
        Some peer_uri \<Rightarrow>
          st_bind (add_peer E node_id peer_uri) (\<lambda>_ s1.
            (let (on_apply, s2) = take_listener (AddPeer node_id peer_uri) s1
             in apply_conf_changes E entry changes stop_consensus (notify on_apply (Inr True) s2))) s
      | None \<Rightarrow>
          if entry_context entry = [] then apply_conf_changes E entry changes stop_consensus s
          else (Inl (StServiceError ''Failed to parse peer uri''), s))"

definition apply_conf_change_entry ::
    "('t, 'm, 'c, 'w, 'f, 'b, 'n) consensus_env \<Rightarrow> raft_entry
      \<Rightarrow> (('t, 'm, 'w, 'f, 'r) manager \<times> 'n, storage_error, bool) st_op" where
  "apply_conf_change_entry E entry sn =
     (case env_decode_conf_change E (entry_data entry) of
        Inl err \<Rightarrow> (Inl (StServiceError (''prost decode error: '' @ err)), sn)
      | Inr change \<Rightarrow>
          (case env_apply_conf_change E change (snd sn) of
             (Inl err, n) \<Rightarrow> (Inl (StServiceError (''Error in Raft consensus: '' @ err)), (fst sn, n))
           | (Inr conf, n) \<Rightarrow>
               (case st_bind (on_persistent (apply_state_update (env_file E) (\<lambda>st. st\<lparr>rs_conf_state := conf\<rparr>)))
                       (\<lambda>_. apply_conf_changes E entry change False) (fst sn) of
                  (r, s') \<Rightarrow> (r, (s', n)))))"

text \<open>
  The errors \<open>apply_entries\<close> stops the consensus with, by the context the code attaches to them, and the
  panic of \<open>apply_normal_entry\<close>.
\<close>

datatype apply_failure =
    FailedToSaveQueue storage_error
  | FailedToGetEntry entry_id raft_error
  | FailedToApplyMetaOp storage_error
  | FailedToApplyConfChange storage_error
  | UnexpectedEntryType entry_type
  | ApplyPanic

definition apply_entry ::
    "('t, 'm, 'c, 'w, 'f, 'b, 'n) consensus_env \<Rightarrow> raft_entry
      \<Rightarrow> (('t, 'm, 'w, 'f, 'r) manager \<times> 'n, apply_failure, bool) st_op" where
  "apply_entry E entry sn =
     (if entry_data entry = [] then (Inr False, sn)
      else case entry_type entry of
        EntryNormal \<Rightarrow>
          (case apply_normal_entry E entry (fst sn) of
             (None, s) \<Rightarrow> (Inl ApplyPanic, (s, snd sn))
           | (Some (Inr _), s) \<Rightarrow> (Inr False, (s, snd sn))
           | (Some (Inl err), s) \<Rightarrow>
               (if is_service_error err then Inl (FailedToApplyMetaOp err) else Inr False, (s, snd sn)))
      | EntryConfChangeV2 \<Rightarrow>
          (case apply_conf_change_entry E entry sn of
             (Inl err, sn') \<Rightarrow> (Inl (FailedToApplyConfChange err), sn')
           | (Inr stop_consensus, sn') \<Rightarrow> (Inr stop_consensus, sn'))
      | EntryConfChange \<Rightarrow> (Inl (UnexpectedEntryType EntryConfChange), sn))"

definition mark_applied ::
    "('t, 'm, 'c, 'w, 'f, 'b, 'n) consensus_env \<Rightarrow> (('t, 'm, 'w, 'f, 'r) manager \<times> 'n, apply_failure, unit) st_op" where
  "mark_applied E sn =
     (case on_persistent (entry_applied (env_file E)) (fst sn) of
        (Inl e, s) \<Rightarrow> (Inl (FailedToSaveQueue e), (s, snd sn))
      | (Inr _, s) \<Rightarrow> (Inr (), (s, snd sn)))"

text \<open>The loop of \<open>apply_entries\<close>; running out of fuel is None.\<close>

fun apply_loop ::
    "('t, 'm, 'c, 'w, 'f, 'b, 'n) consensus_env \<Rightarrow> nat \<Rightarrow> ('t, 'm, 'w, 'f, 'r) manager \<times> 'n
      \<Rightarrow> ((apply_failure + bool) \<times> (('t, 'm, 'w, 'f, 'r) manager \<times> 'n)) option" where
  "apply_loop E 0 sn = None"
| "apply_loop E (Suc fuel) sn =
     (case current_unapplied_entry (m_persistent (fst sn)) of
        None \<Rightarrow> Some (Inr False, sn)
      | Some index \<Rightarrow>
          (case cw_entry (env_wal E) (env_prost E) index (m_wal (fst sn)) of
             Inl e \<Rightarrow> Some (Inl (FailedToGetEntry index e), sn)
           | Inr entry \<Rightarrow>
               (case apply_entry E entry sn of
                  (Inl e, sn1) \<Rightarrow> Some (Inl e, sn1)
                | (Inr stop_consensus, sn1) \<Rightarrow>
                    if stop_consensus then Some (Inr True, sn1)
                    else (case mark_applied E sn1 of
                            (Inl e, sn2) \<Rightarrow> Some (Inl e, sn2)
                          | (Inr _, sn2) \<Rightarrow> apply_loop E fuel sn2))))"

definition apply_entries ::
    "('t, 'm, 'c, 'w, 'f, 'b, 'n) consensus_env \<Rightarrow> nat \<Rightarrow> ('t, 'm, 'w, 'f, 'r) manager \<times> 'n
      \<Rightarrow> ((apply_failure + bool) \<times> (('t, 'm, 'w, 'f, 'r) manager \<times> 'n)) option" where
  "apply_entries E fuel sn =
     (case on_persistent (save_if_dirty (env_file E)) (fst sn) of
        (Inl e, s) \<Rightarrow> Some (Inl (FailedToSaveQueue e), (s, snd sn))
      | (Inr _, s) \<Rightarrow> apply_loop E fuel (s, snd sn))"

section \<open>Snapshots\<close>

record snapshot =
  snap_data :: bytes
  snap_metadata :: snapshot_metadata

definition apply_snapshot ::
    "('t, 'm, 'c, 'w, 'f, 'b, 'n) consensus_env \<Rightarrow> snapshot
      \<Rightarrow> (('t, 'm, 'w, 'f, 'r) manager, storage_error, unit) st_op" where
  "apply_snapshot E snap s =
     (case env_decode_snapshot E (snap_data snap) of
        Inl err \<Rightarrow> (Inl (StServiceError (''cbor (de)serialization error: '' @ err)), s)
      | Inr data \<Rightarrow>
          st_bind (\<lambda>s. case apply_collections_snapshot (env_container E) (collections_data data) (m_toc s) of
                         (r, t) \<Rightarrow> (r, s\<lparr>m_toc := t\<rparr>)) (\<lambda>_.
          st_bind (\<lambda>s. case cw_clear (env_wal E) (m_wal s) of (r, w) \<Rightarrow> (r, s\<lparr>m_wal := w\<rparr>)) (\<lambda>_.
            on_persistent (update_from_snapshot (env_file E) (snap_metadata snap) (address_by_id data)))) s)"

definition set_hard_state ::
    "('t, 'm, 'c, 'w, 'f, 'b, 'n) consensus_env \<Rightarrow> hard_state
      \<Rightarrow> (('t, 'm, 'w, 'f, 'r) manager, storage_error, unit) st_op" where
  "set_hard_state E hard = on_persistent (apply_state_update (env_file E) (\<lambda>st. st\<lparr>rs_hard_state := hard\<rparr>))"

definition set_conf_state ::
    "('t, 'm, 'c, 'w, 'f, 'b, 'n) consensus_env \<Rightarrow> conf_state
      \<Rightarrow> (('t, 'm, 'w, 'f, 'r) manager, storage_error, unit) st_op" where
  "set_conf_state E conf = on_persistent (apply_state_update (env_file E) (\<lambda>st. st\<lparr>rs_conf_state := conf\<rparr>))"

definition set_commit_index ::
    "('t, 'm, 'c, 'w, 'f, 'b, 'n) consensus_env \<Rightarrow> nat
      \<Rightarrow> (('t, 'm, 'w, 'f, 'r) manager, storage_error, unit) st_op" where
  "set_commit_index E index =
     on_persistent (apply_state_update (env_file E)
       (\<lambda>st. st\<lparr>rs_hard_state := (rs_hard_state st)\<lparr>hs_commit := index\<rparr>\<rparr>))"

definition cm_set_unapplied_entries ::
    "('t, 'm, 'c, 'w, 'f, 'b, 'n) consensus_env \<Rightarrow> entry_id \<Rightarrow> entry_id
      \<Rightarrow> (('t, 'm, 'w, 'f, 'r) manager, raft_error, unit) st_op" where
  "cm_set_unapplied_entries E first_index last_index s =
     apfst (raft_error_other display_storage_error)
       (on_persistent (set_unapplied_entries (env_file E) first_index last_index) s)"

definition is_new_deployment :: "('t, 'm, 'w, 'f, 'r) manager \<Rightarrow> bool" where
  "is_new_deployment s \<longleftrightarrow> hs_term (rs_hard_state (p_state (m_persistent s))) = 0"

definition cm_append_entries ::
    "('t, 'm, 'c, 'w, 'f, 'b, 'n) consensus_env \<Rightarrow> raft_entry list
      \<Rightarrow> (('t, 'm, 'w, 'f, 'r) manager, storage_error, unit) st_op" where
  "cm_append_entries E entries s =
     (case append_entries (env_wal E) (env_prost E) entries (m_wal s) of (r, w) \<Rightarrow> (r, s\<lparr>m_wal := w\<rparr>))"

section \<open>The storage of the Raft library\<close>

definition initial_state :: "('t, 'm, 'w, 'f, 'r) manager \<Rightarrow> raft_error + raft_state" where
  "initial_state s = Inr (p_state (m_persistent s))"

definition cm_first_index ::
    "('t, 'm, 'c, 'w, 'f, 'b, 'n) consensus_env \<Rightarrow> ('t, 'm, 'w, 'f, 'r) manager \<Rightarrow> raft_error + nat" where
  "cm_first_index E s =
     res_bind (raft_error_other display_storage_error (first_entry (env_wal E) (env_prost E) (m_wal s))) (\<lambda>e.
     Inr (case e of Some entry \<Rightarrow> entry_index entry
                  | None \<Rightarrow> usize_add (ser_index (latest_snapshot_meta (m_persistent s))) 1))"

definition cm_last_index ::
    "('t, 'm, 'c, 'w, 'f, 'b, 'n) consensus_env \<Rightarrow> ('t, 'm, 'w, 'f, 'r) manager \<Rightarrow> raft_error + nat" where
  "cm_last_index E s =
     res_bind (raft_error_other display_storage_error (last_entry (env_wal E) (env_prost E) (m_wal s))) (\<lambda>e.
     Inr (case e of Some entry \<Rightarrow> entry_index entry
                  | None \<Rightarrow> ser_index (latest_snapshot_meta (m_persistent s))))"

text \<open>A read past the last index panics: None.\<close>

definition cm_entries ::
    "('t, 'm, 'c, 'w, 'f, 'b, 'n) consensus_env \<Rightarrow> nat \<Rightarrow> nat \<Rightarrow> nat option
      \<Rightarrow> ('t, 'm, 'w, 'f, 'r) manager \<Rightarrow> (raft_error + raft_entry list) option" where
  "cm_entries E low high max_size s =
     (case cm_first_index E s of
        Inl e \<Rightarrow> Some (Inl e)
      | Inr first_index \<Rightarrow>
          if low < first_index then Some (Inl RaftCompacted)
          else (case cm_last_index E s of
                  Inl e \<Rightarrow> Some (Inl e)
                | Inr last_index \<Rightarrow>
                    if high > usize_add last_index 1 then None
                    else Some (cw_entries (env_wal E) (env_prost E) low high max_size (m_wal s))))"

definition cm_term ::
    "('t, 'm, 'c, 'w, 'f, 'b, 'n) consensus_env \<Rightarrow> nat \<Rightarrow> ('t, 'm, 'w, 'f, 'r) manager \<Rightarrow> raft_error + nat" where
  "cm_term E idx s =
     (let snapshot_meta = latest_snapshot_meta (m_persistent s)
      in if idx = ser_index snapshot_meta then Inr (ser_term snapshot_meta)
         else result_map entry_term (cw_entry (env_wal E) (env_prost E) idx (m_wal s)))"

definition cm_snapshot ::
    "('t, 'm, 'c, 'w, 'f, 'b, 'n) consensus_env \<Rightarrow> nat \<Rightarrow> ('t, 'm, 'w, 'f, 'r) manager \<Rightarrow> raft_error + snapshot" where
  "cm_snapshot E request_index s =
     (let data = collections_snapshot (env_container E) (m_toc s);
          p = m_persistent s; hard = rs_hard_state (p_state p)
      in if hs_commit hard \<ge> request_index then
           res_bind (raft_error_other (\<lambda>e. e)
               (env_encode_snapshot E \<lparr>collections_data = data, address_by_id = peer_address_by_id p\<rparr>)) (\<lambda>bytes.
           Inr \<lparr>snap_data = bytes,
                snap_metadata = \<lparr>meta_conf_state = rs_conf_state (p_state p), meta_index = hs_commit hard,
                                 meta_term = hs_term hard\<rparr>\<rparr>)
         else Inl RaftSnapshotTemporarilyUnavailable)"

section \<open>What applying an entry leaves alone\<close>

abbreviation progress :: "('t, 'm, 'w, 'f, 'r) manager \<Rightarrow> entry_queue" where
  "progress s \<equiv> apply_progress_queue (m_persistent s)"

definition keeps_log ::
    "('t, 'm, 'w, 'f, 'r) manager \<Rightarrow> ('t, 'm, 'w, 'f, 'r) manager \<Rightarrow> bool" where
  "keeps_log s s' \<longleftrightarrow> progress s' = progress s \<and> m_wal s' = m_wal s"

lemma keeps_log_refl [simp]: "keeps_log s s"
  by (simp add: keeps_log_def)

lemma keeps_log_trans: "\<lbrakk>keeps_log s s'; keeps_log s' s''\<rbrakk> \<Longrightarrow> keeps_log s s''"
  by (simp add: keeps_log_def)

lemma persistent_save_queue:
  "apply_progress_queue (fst (snd (persistent_save F s))) = apply_progress_queue (fst s)"
  by (auto simp: persistent_save_def split: prod.splits sum.splits)

lemma keeps_log_persistent:
  assumes "\<And>p f. apply_progress_queue (fst (snd (op (p, f)))) = apply_progress_queue p"
    and "on_persistent op s = (r, s')"
  shows "keeps_log s s'"
  using assms(1) [of "m_persistent s" "m_file s"] assms(2)
  by (auto simp: on_persistent_def keeps_log_def split: prod.splits)

lemma keeps_log_add_peer: "add_peer E peer_id uri s = (r, s') \<Longrightarrow> keeps_log s s'"
  unfolding add_peer_def
  by (erule keeps_log_persistent [rotated]) (simp add: insert_peer_def persistent_save_queue)

lemma keeps_log_state_update:
  "on_persistent (apply_state_update F update) s = (r, s') \<Longrightarrow> keeps_log s s'"
  by (erule keeps_log_persistent [rotated]) (simp add: apply_state_update_def persistent_save_queue)

lemma keeps_log_save: "on_persistent (persistent_save F) s = (r, s') \<Longrightarrow> keeps_log s s'"
  by (erule keeps_log_persistent [rotated]) (simp add: persistent_save_queue)

lemma keeps_log_save_if_dirty: "on_persistent (save_if_dirty F) s = (r, s') \<Longrightarrow> keeps_log s s'"
  by (erule keeps_log_persistent [rotated]) (simp add: save_if_dirty_def persistent_save_queue)

lemma keeps_log_remove_peer: "remove_peer E peer_id s = (r, s') \<Longrightarrow> keeps_log s s'"
  unfolding remove_peer_def
  by (auto simp: st_bind_def keeps_log_def split: prod.splits sum.splits dest!: keeps_log_save)

lemma keeps_log_notify [simp]: "keeps_log s (notify on_apply res s') \<longleftrightarrow> keeps_log s s'"
  by (auto simp: notify_def keeps_log_def split: option.splits)

lemma keeps_log_listener: "take_listener operation s = (on_apply, s') \<Longrightarrow> keeps_log s s'"
  by (auto simp: take_listener_def keeps_log_def)

lemma keeps_log_peer_remove: "on_peer_remove E peer_id s = (r, s') \<Longrightarrow> keeps_log s s'"
proof -
  assume run: "on_peer_remove E peer_id s = (r, s')"
  obtain r1 s1 where rm: "remove_peer E peer_id s = (r1, s1)" by (cases "remove_peer E peer_id s")
  have "keeps_log s1 s'"
    using run rm by (auto simp: on_peer_remove_def take_listener_def keeps_log_def notify_def Let_def
        split: sum.splits storage_error.splits option.splits)
  then show ?thesis
    using keeps_log_remove_peer [OF rm] keeps_log_trans by blast
qed

lemma keeps_log_bind:
  assumes "st_bind m k s = (r, s')" "\<And>r1 s1. m s = (r1, s1) \<Longrightarrow> keeps_log s s1"
    and "\<And>a s1. k a s1 = (r, s') \<Longrightarrow> keeps_log s1 s'"
  shows "keeps_log s s'"
proof (cases "m s")
  case (Pair r1 s1)
  show ?thesis
  proof (cases r1)
    case (Inl e)
    then show ?thesis
      using assms(1,2) Pair by (simp add: st_bind_def)
  next
    case (Inr a)
    then have "k a s1 = (r, s')"
      using assms(1) Pair by (simp add: st_bind_def)
    then show ?thesis
      using assms(2) [OF Pair] assms(3) keeps_log_trans by blast
  qed
qed

lemma keeps_log_conf_changes:
  "apply_conf_changes E entry changes stop_consensus s = (r, s') \<Longrightarrow> keeps_log s s'"
proof (induction changes arbitrary: stop_consensus s)
  case (Cons c changes)
  note IH = Cons.IH
  obtain t node_id where c: "c = (t, node_id)" by (cases c)
  show ?case
  proof (cases t)
    case CcAddNode
    then show ?thesis
      using Cons.prems c IH [of stop_consensus s] by simp
  next
    case CcRemoveNode
    then show ?thesis
      using Cons.prems c by (auto elim!: keeps_log_bind intro: keeps_log_peer_remove IH)
  next
    case CcAddLearnerNode
    show ?thesis
    proof (cases "env_parse_uri E (entry_context entry)")
      case None
      then show ?thesis
        using Cons.prems c CcAddLearnerNode IH [of stop_consensus s] by (simp split: if_splits)
    next
      case (Some uri)
      have run: "st_bind (add_peer E node_id uri) (\<lambda>_ s1.
            (let (on_apply, s2) = take_listener (AddPeer node_id uri) s1
             in apply_conf_changes E entry changes stop_consensus (notify on_apply (Inr True) s2))) s = (r, s')"
        using Cons.prems c CcAddLearnerNode Some by simp
      show ?thesis
      proof (rule keeps_log_bind [OF run keeps_log_add_peer])
        fix s1
        assume "(let (on_apply, s2) = take_listener (AddPeer node_id uri) s1
             in apply_conf_changes E entry changes stop_consensus (notify on_apply (Inr True) s2)) = (r, s')"
        then obtain on_apply s2 where "take_listener (AddPeer node_id uri) s1 = (on_apply, s2)"
          "keeps_log (notify on_apply (Inr True) s2) s'"
          using IH by (cases "take_listener (AddPeer node_id uri) s1") auto
        then show "keeps_log s1 s'"
          by (auto dest: keeps_log_listener simp: keeps_log_def notify_def split: option.splits)
      qed
    qed
  qed
qed simp

lemma keeps_log_conf_change_entry:
  assumes "apply_conf_change_entry E entry sn = (r, sn')"
  shows "keeps_log (fst sn) (fst sn')"
proof -
  have "keeps_log s s'" if run: "st_bind (on_persistent (apply_state_update (env_file E) upd))
      (\<lambda>_. apply_conf_changes E entry change False) s = (r', s')" for s s' r' upd change
    by (rule keeps_log_bind [OF run keeps_log_state_update keeps_log_conf_changes])
  then show ?thesis
    using assms unfolding apply_conf_change_entry_def
    by (auto split: sum.splits prod.splits)
qed

lemma keeps_log_normal_entry: "apply_normal_entry E entry s = (r, s') \<Longrightarrow> keeps_log s s'"
  unfolding apply_normal_entry_def take_listener_def
  by (auto simp: keeps_log_def notify_def split: sum.splits consensus_op.splits prod.splits option.splits)

lemma apply_entry_keeps_log:
  assumes "apply_entry E entry sn = (r, sn')"
  shows "keeps_log (fst sn) (fst sn')"
proof (cases "entry_data entry = [] \<or> entry_type entry = EntryConfChange")
  case True
  then show ?thesis
    using assms by (auto simp: apply_entry_def split: if_splits)
next
  case False
  show ?thesis
  proof (cases "entry_type entry")
    case EntryNormal
    obtain r1 s1 where n: "apply_normal_entry E entry (fst sn) = (r1, s1)"
      by (cases "apply_normal_entry E entry (fst sn)")
    then have "fst sn' = s1"
      using assms False EntryNormal by (auto simp: apply_entry_def split: option.splits sum.splits)
    then show ?thesis
      using keeps_log_normal_entry [OF n] by simp
  next
    case EntryConfChangeV2
    obtain r1 sn1 where n: "apply_conf_change_entry E entry sn = (r1, sn1)"
      by (cases "apply_conf_change_entry E entry sn")
    then have "sn' = sn1"
      using assms False EntryConfChangeV2 by (auto simp: apply_entry_def split: sum.splits)
    then show ?thesis
      using keeps_log_conf_change_entry [OF n] by simp
  qed (use False in simp)
qed

section \<open>Committed entries are applied in order and once\<close>

text \<open>
  A run applies entries one after the other, each the current unapplied one, and marks each as applied after
  its effect.
\<close>

inductive apply_run ::
    "('t, 'm, 'c, 'w, 'f, 'b, 'n) consensus_env \<Rightarrow> ('t, 'm, 'w, 'f, 'r) manager \<times> 'n \<Rightarrow> entry_id list
      \<Rightarrow> ('t, 'm, 'w, 'f, 'r) manager \<times> 'n \<Rightarrow> bool" for E where
  run_nil: "apply_run E sn [] sn"
| run_step: "\<lbrakk>current_unapplied_entry (m_persistent (fst sn)) = Some i;
     cw_entry (env_wal E) (env_prost E) i (m_wal (fst sn)) = Inr entry; apply_entry E entry sn = (Inr False, sn1);
     mark_applied E sn1 = (Inr (), sn2); apply_run E sn2 is sn3\<rbrakk> \<Longrightarrow> apply_run E sn (i # is) sn3"

lemma mark_applied_progress:
  assumes "mark_applied E sn = (r, sn')"
  shows "progress (fst sn') = queue_applied (progress (fst sn)) \<and> m_wal (fst sn') = m_wal (fst sn)"
proof -
  obtain r1 p f where e: "entry_applied (env_file E) (m_persistent (fst sn), m_file (fst sn)) = (r1, (p, f))"
    by (metis prod_cases3)
  have "apply_progress_queue (fst (snd (entry_applied (env_file E) (m_persistent (fst sn), m_file (fst sn)))))
      = queue_applied (progress (fst sn))"
    unfolding entry_applied_def persistent_save_queue by simp
  then have "apply_progress_queue p = queue_applied (progress (fst sn))"
    using e by simp
  then show ?thesis
    using assms e by (auto simp: mark_applied_def on_persistent_def split: sum.splits)
qed

lemma current_Some:
  assumes "current_unapplied_entry p = Some i"
  shows "\<exists>l. apply_progress_queue p = Some (i, l) \<and> i \<le> l"
  using assms by (auto simp: current_unapplied_entry_def queue_current_def split: option.splits if_splits)

definition stopped_at ::
    "('t, 'm, 'w, 'f, 'r) manager \<times> 'n \<Rightarrow> apply_failure + bool \<Rightarrow> ('t, 'm, 'w, 'f, 'r) manager \<times> 'n \<Rightarrow> bool" where
  "stopped_at sn1 res sn' \<longleftrightarrow>
     (case res of
        Inr stop_consensus \<Rightarrow>
          if stop_consensus then progress (fst sn') = progress (fst sn1) \<and> queue_current (progress (fst sn1)) \<noteq> None
          else sn' = sn1 \<and> queue_current (progress (fst sn')) = None
      | Inl (FailedToSaveQueue _) \<Rightarrow> dirty (m_persistent (fst sn'))
      | Inl _ \<Rightarrow> progress (fst sn') = progress (fst sn1) \<and> queue_current (progress (fst sn1)) \<noteq> None)"

lemma mark_applied_Inl:
  assumes "mark_applied E sn = (Inl e, sn')"
  shows "\<exists>err. e = FailedToSaveQueue err \<and> dirty (m_persistent (fst sn'))"
  using assms
  by (auto simp: mark_applied_def on_persistent_def entry_applied_def persistent_save_def
      split: prod.splits sum.splits)

lemma apply_entry_failure:
  assumes "apply_entry E entry sn = (Inl e, sn')"
  shows "e \<noteq> FailedToSaveQueue err"
  using assms by (auto simp: apply_entry_def split: if_splits entry_type.splits option.splits sum.splits prod.splits)

lemma stopped_at_failure:
  assumes "apply_entry E entry sn = (r, sn')" "queue_current (progress (fst sn)) \<noteq> None" "r \<noteq> Inr False"
  shows "stopped_at sn r sn'"
proof -
  have "progress (fst sn') = progress (fst sn)"
    using apply_entry_keeps_log [OF assms(1)] by (simp add: keeps_log_def)
  then show ?thesis
    using assms apply_entry_failure [of E entry sn _ sn']
    by (auto simp: stopped_at_def split: sum.splits apply_failure.splits)
qed

lemma apply_loop_run:
  assumes "queue_ok (progress (fst sn))" "queue_len (progress (fst sn)) < fuel"
  shows "\<exists>res sn' is sn1. apply_loop E fuel sn = Some (res, sn') \<and> apply_run E sn is sn1 \<and> stopped_at sn1 res sn'"
  using assms
proof (induction fuel arbitrary: sn)
  case (Suc fuel)
  show ?case
  proof (cases "current_unapplied_entry (m_persistent (fst sn))")
    case None
    then show ?thesis
      using run_nil [of E sn] by (intro exI [of _ "Inr False"] exI [of _ sn] exI [of _ "[]"])
        (simp add: stopped_at_def current_unapplied_entry_def)
  next
    case (Some i)
    then have cur: "queue_current (progress (fst sn)) = Some i"
      by (simp add: current_unapplied_entry_def)
    show ?thesis
    proof (cases "cw_entry (env_wal E) (env_prost E) i (m_wal (fst sn))")
      case (Inl e)
      have "stopped_at sn (Inl (FailedToGetEntry i e)) sn"
        using cur by (simp add: stopped_at_def)
      moreover have "apply_loop E (Suc fuel) sn = Some (Inl (FailedToGetEntry i e), sn)"
        using Some Inl by simp
      ultimately show ?thesis
        using run_nil [of E sn] by blast
    next
      case (Inr entry)
      obtain r sn1 where step: "apply_entry E entry sn = (r, sn1)" by (cases "apply_entry E entry sn")
      show ?thesis
      proof (cases "r = Inr False")
        case False
        have "apply_loop E (Suc fuel) sn = Some (r, sn1)"
          using False Some Inr step by (auto split: sum.splits)
        then show ?thesis
          using stopped_at_failure [OF step _ False] cur run_nil [of E sn] by blast
      next
        case True
        obtain r2 sn2 where mark: "mark_applied E sn1 = (r2, sn2)" by (cases "mark_applied E sn1")
        have prog: "progress (fst sn2) = queue_applied (progress (fst sn))"
          using mark_applied_progress [OF mark] apply_entry_keeps_log [OF step] by (simp add: keeps_log_def)
        show ?thesis
        proof (cases r2)
          case (Inl e)
          then have "stopped_at sn (Inl e) sn2"
            using mark_applied_Inl [of E sn1 e sn2] mark by (auto simp: stopped_at_def)
          moreover have "apply_loop E (Suc fuel) sn = Some (Inl e, sn2)"
            using Some Inr step True mark Inl by simp
          ultimately show ?thesis
            using run_nil [of E sn] by blast
        next
          case (Inr u)
          have "queue_ok (progress (fst sn2))" "queue_len (progress (fst sn2)) < fuel"
            using queue_applied_ok(1,2) [OF Suc.prems(1) cur] Suc.prems(2) prog by auto
          from Suc.IH [OF this] obtain res sn' "is" sn3 where rest: "apply_loop E fuel sn2 = Some (res, sn')"
            "apply_run E sn2 is sn3" "stopped_at sn3 res sn'" by blast
          have "apply_loop E (Suc fuel) sn = Some (res, sn')"
            using Some \<open>cw_entry _ _ _ _ = _\<close> step True mark Inr rest(1) by simp
          moreover have "apply_run E sn (i # is) sn3"
            using run_step [OF Some \<open>cw_entry _ _ _ _ = _\<close> _ _ rest(2)] step True mark Inr by simp
          ultimately show ?thesis
            using rest(3) by blast
        qed
      qed
    qed
  qed
qed simp

lemma apply_run_indexes:
  assumes "apply_run E sn is sn1" "queue_ok (progress (fst sn))" "progress (fst sn) = Some (c, l)"
  shows "\<exists>j. is = [c..<j] \<and> c \<le> j \<and> j \<le> Suc l \<and> progress (fst sn1) = Some (j, l)"
  using assms
proof (induction arbitrary: c)
  case (run_nil sn)
  then show ?case
    by (intro exI [of _ c]) (auto simp: queue_ok_def)
next
  case (run_step sn i entry sn1 sn2 "is" sn3)
  have cur: "queue_current (progress (fst sn)) = Some i" "i = c" "c \<le> l"
    using run_step.hyps(1) run_step.prems(2)
    by (auto simp: current_unapplied_entry_def queue_current_def split: if_splits)
  have prog: "progress (fst sn2) = queue_applied (progress (fst sn))"
    using mark_applied_progress [OF run_step.hyps(4)] apply_entry_keeps_log [OF run_step.hyps(3)]
    by (simp add: keeps_log_def)
  moreover have "queue_applied (Some (c, l)) = Some (Suc c, l)"
    using run_step.prems cur(3) by (simp add: queue_applied_def queue_ok_def)
  ultimately obtain j where j: "is = [Suc c..<j]" "Suc c \<le> j" "j \<le> Suc l" "progress (fst sn3) = Some (j, l)"
    using run_step.IH queue_applied_ok(1) [OF run_step.prems(1) cur(1)] run_step.prems(2) by auto
  then show ?case
    using cur(2) by (intro exI [of _ j]) (simp add: upt_conv_Cons)
qed


text \<open>A container that records the operations performed on it, and a manager over files in memory.\<close>

definition log_container :: "(u8 list, u8, unit) container" where
  "log_container = \<lparr>perform_collection_meta_op = \<lambda>op t. (Inr True, t @ [op]), collections_snapshot = \<lambda>t. (),
     apply_collections_snapshot = \<lambda>c t. (Inr (), t), container_remove_peer = \<lambda>p ta. (Inr (), ta),
     container_sync_local_state = \<lambda>t. (Inr (), t)\<rparr>"

definition log_env :: "(u8 list, u8, unit, bytes list, persistent option, persistent, unit) consensus_env" where
  "log_env = \<lparr>env_container = log_container, env_wal = mem_wal, env_prost = byte_prost, env_file = mem_file,
     env_decode_op = \<lambda>b. Inr (CollectionMeta (hd b)), env_decode_conf_change = \<lambda>b. Inr [],
     env_apply_conf_change = \<lambda>c n. (Inl ''unsupported'', n), env_parse_uri = \<lambda>b. None,
     env_encode_snapshot = \<lambda>d. if address_by_id d = [] then Inr [] else Inl ''unsupported'',
     env_decode_snapshot = \<lambda>b. Inr \<lparr>collections_data = (), address_by_id = []\<rparr>\<rparr>"

definition boot_state :: persistent where
  "boot_state = \<lparr>p_state = \<lparr>rs_hard_state = default_hard_state,
       rs_conf_state = \<lparr>voters = [1], learners = [], voters_outgoing = [], learners_next = [], auto_leave = False\<rparr>\<rparr>,
     latest_snapshot_meta = \<lparr>ser_term = 0, ser_index = 0\<rparr>, apply_progress_queue = None,
     peer_address_by_id = [], this_peer_id = 1, dirty = False\<rparr>"

definition log_manager :: "(u8 list, u8, bytes list, persistent option, unit) manager" where
  "log_manager = \<lparr>m_persistent = boot_state\<lparr>apply_progress_queue := Some (1, 2)\<rparr>, m_file = Some boot_state,
     m_wal = [[1, 5], [2, 6]], m_toc = [], soft_state = None, on_consensus_op_apply = [], notified = [],
     m_first_voter = None, consensus_thread_status = ThreadWorking, message_send_failures = []\<rparr>"

lemmas log_defs = log_manager_def log_env_def log_container_def boot_state_def mem_wal_def byte_prost_def
  byte_entry_def mem_file_def


section \<open>The storage contract and snapshots\<close>

text \<open>
  C27. The storage interface of the Raft library on a peer whose log holds entries: the first and the last index
  are those of the log, and reading any range between them returns exactly the entries of the range, without an
  error and without the panic that guards reads past the end.\<close>

theorem raft_storage_contract:
  assumes "wal_ok (env_wal E) wc" "prost_ok (env_prost E)" "wal_repr wc (env_prost E) (m_wal s) n es"
    and "es \<noteq> []" "0 < n" "n \<le> low" "low \<le> high" "high \<le> n + length es"
  shows "cm_first_index E s = Inr n \<and> cm_last_index E s = Inr (n + length es - 1)
    \<and> cm_entries E low high None s = Some (Inr (take (high - low) (drop (low - n) es)))"
proof -
  let ?W = "env_wal E" and ?X = "env_prost E"
  have idx: "entry_index (es ! 0) = n" "entry_index (last es) = n + length es - 1"
    using wal_repr_index [OF assms(3), of 0] wal_repr_index [OF assms(3), of "length es - 1"] assms(4)
    by (cases "length es"; simp add: last_conv_nth)+
  have first: "cm_first_index E s = Inr n" and last: "cm_last_index E s = Inr (n + length es - 1)"
    using first_entry_repr [OF assms(1,3)] last_entry_repr [OF assms(1,3)] idx assms(4)
    by (simp_all add: cm_first_index_def cm_last_index_def raft_error_other_def)
  have bound: "n + length es < 2 ^ 64"
    using assms(3) by (auto simp: wal_repr_def)
  have "map (\<lambda>idx. cw_entry ?W ?X idx (m_wal s)) [low..<high] = map Inr (take (high - low) (drop (low - n) es))"
  proof (rule nth_equalityI)
    fix i assume "i < length (map (\<lambda>idx. cw_entry ?W ?X idx (m_wal s)) [low..<high])"
    moreover have "low + i - n = low - n + i"
      using assms(6) by simp
    ultimately show "map (\<lambda>idx. cw_entry ?W ?X idx (m_wal s)) [low..<high] ! i
        = map Inr (take (high - low) (drop (low - n) es)) ! i"
      using cw_entry_repr [OF assms(1,3), of "low + i"] assms(4-8) bound by simp
  qed (use assms(6-8) in simp)
  then have "cw_entries ?W ?X low high None (m_wal s) = Inr (take (high - low) (drop (low - n) es))"
    using assms(2) by (simp add: cw_entries_def collect_results_Inr_iff [THEN iffD2] prost_ok_def)
  moreover have "usize_add (n + length es - 1) 1 = n + length es"
    using bound assms(5) by simp
  ultimately show ?thesis
    using first last assms(6,8) unfolding cm_entries_def by (simp only: sum.case if_False leD not_less)
qed

theorem raft_storage_contract_witness:
  "cm_entries log_env 2 3 None log_manager = Some (Inr [byte_entry 2 6])"
proof -
  have "wal_repr (\<lambda>w. (0, w)) (env_prost log_env) (m_wal log_manager) 1 [byte_entry 1 5, byte_entry 2 6]"
    by (simp add: wal_repr_def log_defs upt_rec)
  moreover have "wal_ok (env_wal log_env) (\<lambda>w. (0, w))" "prost_ok (env_prost log_env)"
    using wal_ok_mem prost_ok_byte by (simp_all add: log_env_def)
  ultimately show ?thesis
    using raft_storage_contract [of log_env "\<lambda>w. (0, w)" log_manager 1 "[byte_entry 1 5, byte_entry 2 6]" 2 3] by simp
qed

lemma update_from_snapshot_Inr:
  assumes "update_from_snapshot F meta addresses (p, f) = (Inr (), (p', f'))"
  shows "peer_address_by_id p' = addresses" "rs_conf_state (p_state p') = meta_conf_state meta"
    "hs_commit (rs_hard_state (p_state p')) = meta_index meta"
    "hs_term (rs_hard_state (p_state p')) = max (hs_term (rs_hard_state (p_state p))) (meta_term meta)"
    "apply_progress_queue p' = set_from_snapshot (meta_index meta)"
    "latest_snapshot_meta p' = \<lparr>ser_term = meta_term meta, ser_index = meta_index meta\<rparr>"
  using assms by (auto simp: update_from_snapshot_def persistent_save_def Let_def split: prod.splits sum.splits)

lemma apply_snapshot_Inr:
  assumes "apply_snapshot E snap s = (Inr (), s')"
  shows "\<exists>data t w p f. env_decode_snapshot E (snap_data snap) = Inr data
    \<and> apply_collections_snapshot (env_container E) (collections_data data) (m_toc s) = (Inr (), t)
    \<and> wal_clear (env_wal E) (m_wal s) = (Inr (), w)
    \<and> update_from_snapshot (env_file E) (snap_metadata snap) (address_by_id data) (m_persistent s, m_file s)
        = (Inr (), (p, f))
    \<and> s' = s\<lparr>m_toc := t, m_wal := w, m_persistent := p, m_file := f\<rparr>"
  using assms
  by (auto simp: apply_snapshot_def st_bind_def on_persistent_def cw_clear_def apfst_eq_Inr apfst_def map_prod_def
      split: sum.splits prod.splits)

text \<open>
  C7. A snapshot carries the state of one peer to another. If the snapshot that a peer produced is applied
  without an error on a second one, the second peer has the address table, the voters and the commit index of
  the first, has applied the collections the first one described, and waits for the entry after the commit
  index: its log is empty and starts there, and nothing is left to apply.\<close>

theorem snapshot_transfer:
  assumes "wal_ok (env_wal E) wc"
    and "\<And>d b. env_encode_snapshot E d = Inr b \<Longrightarrow> env_decode_snapshot E b = Inr d"
    and "cm_snapshot E request_index s1 = Inr snap" "apply_snapshot E snap s2 = (Inr (), s2')"
    and "hs_commit (rs_hard_state (p_state (m_persistent s1))) + 1 < 2 ^ 63"
  shows "let p1 = m_persistent s1; p2 = m_persistent s2'; commit = hs_commit (rs_hard_state (p_state p1)) in
    request_index \<le> commit
    \<and> peer_address_by_id p2 = peer_address_by_id p1 \<and> rs_conf_state (p_state p2) = rs_conf_state (p_state p1)
    \<and> hs_commit (rs_hard_state (p_state p2)) = commit
    \<and> apply_collections_snapshot (env_container E) (collections_snapshot (env_container E) (m_toc s1)) (m_toc s2)
        = (Inr (), m_toc s2')
    \<and> cm_first_index E s2' = Inr (commit + 1) \<and> cm_last_index E s2' = Inr commit
    \<and> cm_term E commit s2' = Inr (hs_term (rs_hard_state (p_state p1)))
    \<and> current_unapplied_entry p2 = None \<and> last_applied_entry p2 = Some commit"
proof -
  let ?p1 = "m_persistent s1"
  let ?hard = "rs_hard_state (p_state ?p1)"
  let ?d = "\<lparr>collections_data = collections_snapshot (env_container E) (m_toc s1), address_by_id = peer_address_by_id ?p1\<rparr>"
  obtain b where snap: "request_index \<le> hs_commit ?hard" "env_encode_snapshot E ?d = Inr b"
    "snap = \<lparr>snap_data = b, snap_metadata = \<lparr>meta_conf_state = rs_conf_state (p_state ?p1),
               meta_index = hs_commit ?hard, meta_term = hs_term ?hard\<rparr>\<rparr>"
    using assms(3) by (auto simp: cm_snapshot_def Let_def raft_error_other_def res_bind_Inr_iff split: if_splits sum.splits)
  obtain t w p f where app:
    "apply_collections_snapshot (env_container E) (collections_data ?d) (m_toc s2) = (Inr (), t)"
    "wal_clear (env_wal E) (m_wal s2) = (Inr (), w)"
    "update_from_snapshot (env_file E) (snap_metadata snap) (address_by_id ?d) (m_persistent s2, m_file s2) = (Inr (), (p, f))"
    "s2' = s2\<lparr>m_toc := t, m_wal := w, m_persistent := p, m_file := f\<rparr>"
    using apply_snapshot_Inr [OF assms(4)] assms(2) [OF snap(2)] snap(3) by auto
  have empty: "wc w = (0, [])"
    using wal_okD(6) [OF assms(1) _ app(2)] by (cases "wc (m_wal s2)") auto
  then have none: "wal_entry (env_wal E) i w = None" for i
    using wal_okD(3) [OF assms(1) empty, of i] by simp
  note upd = update_from_snapshot_Inr [OF app(3)]
  have "Suc (hs_commit ?hard) < 2 ^ 63"
    using assms(5) by simp
  from set_from_snapshot_ok [OF this] show ?thesis
    using snap(1,3) app(1,4) upd none assms(5)
    by (simp add: Let_def cm_first_index_def cm_last_index_def first_entry_def last_entry_def decode_at_def
        raft_error_other_def cm_term_def current_unapplied_entry_def last_applied_entry_def)
qed

theorem snapshot_transfer_witness:
  "\<exists>snap s2'. cm_snapshot log_env 0 log_manager = Inr snap \<and> apply_snapshot log_env snap log_manager = (Inr (), s2')
     \<and> cm_first_index log_env s2' = Inr 1"
proof -
  obtain snap where snap: "cm_snapshot log_env 0 log_manager = Inr snap"
    by (simp add: cm_snapshot_def log_defs raft_error_other_def default_hard_state_def)
  obtain s2' where app: "apply_snapshot log_env snap log_manager = (Inr (), s2')"
    by (simp add: apply_snapshot_def st_bind_def cw_clear_def on_persistent_def update_from_snapshot_def
        persistent_save_def wal_io_error_def log_defs Let_def)
  have codec: "env_decode_snapshot log_env b = Inr d" if "env_encode_snapshot log_env d = Inr b" for d b
    using that by (cases d) (auto simp: log_env_def split: if_splits)
  have wal: "wal_ok (env_wal log_env) (\<lambda>w. (0, w))"
    using wal_ok_mem by (simp add: log_env_def)
  have commit: "hs_commit (rs_hard_state (p_state (m_persistent log_manager))) = 0"
    by (simp add: log_manager_def boot_state_def default_hard_state_def)
  show ?thesis
    using snapshot_transfer [OF wal codec snap app] snap app commit by (simp add: Let_def)
qed

end
