(* ===== verification/Search_Aggregator.thy ===== *)
theory Search_Aggregator
  imports Top_Scores Point_Types "HOL-Library.AList"
begin

text \<open>
  Merging the search results of segments (\<open>lib/collection/src/collection_manager/search_result_aggregator.rs\<close> and
  \<open>process_search_result_step1\<close> of \<open>segments_searcher.rs\<close>): one bounded queue per request, fed with the newest
  version of every point once, and the list of searches to repeat because a segment was searched with a reduced
  limit. An index out of range and a queue of length 0 are panics. The bounds of the score type, \<open>f32::MIN\<close> and
  \<open>f32::MAX\<close>, are the arguments \<open>smin\<close> and \<open>smax\<close>.
\<close>

section \<open>The aggregators\<close>

record ('s, 'n, 'v) search_aggregator =
  sa_queue :: "('s, 'n, 'v) scored_point priority_queue"
  sa_seen :: "point_id set"

definition sa_new :: "nat \<Rightarrow> ('s, 'n, 'v) search_aggregator option" where
  "sa_new limit = map_option (\<lambda>q. \<lparr>sa_queue = q, sa_seen = {}\<rparr>) (pq_new limit)"

definition sa_push ::
    "('s::linorder, 'n, 'v) scored_point \<Rightarrow> ('s, 'n, 'v) search_aggregator \<Rightarrow> ('s, 'n, 'v) search_aggregator" where
  "sa_push point a =
     (if sp_id point \<in> sa_seen a then a
      else \<lparr>sa_queue = snd (pq_push sp_score point (sa_queue a)), sa_seen = insert (sp_id point) (sa_seen a)\<rparr>)"

definition sa_into_vec :: "('s, 'n, 'v) search_aggregator \<Rightarrow> ('s, 'n, 'v) scored_point list" where
  "sa_into_vec a = pq_into_vec (sa_queue a)"

definition sa_lowest :: "('s, 'n, 'v) search_aggregator \<Rightarrow> ('s, 'n, 'v) scored_point option" where
  "sa_lowest a = pq_top (sa_queue a)"

record ('s, 'n, 'v) batch_aggregator =
  batch_aggregators :: "('s, 'n, 'v) search_aggregator list"
  point_versions :: "point_id \<rightharpoonup> seq_number"

fun new_aggregators :: "nat list \<Rightarrow> ('s, 'n, 'v) search_aggregator list option" where
  "new_aggregators [] = Some []"
| "new_aggregators (limit # tops) =
     (case sa_new limit of None \<Rightarrow> None | Some a \<Rightarrow> map_option ((#) a) (new_aggregators tops))"

definition ba_new :: "nat list \<Rightarrow> ('s, 'n, 'v) batch_aggregator option" where
  "ba_new tops = map_option (\<lambda>as. \<lparr>batch_aggregators = as, point_versions = Map.empty\<rparr>) (new_aggregators tops)"

definition note_version ::
    "('s, 'n, 'v) scored_point \<Rightarrow> (point_id \<rightharpoonup> seq_number) \<Rightarrow> (point_id \<rightharpoonup> seq_number)" where
  "note_version point versions =
     (let current = (case versions (sp_id point) of None \<Rightarrow> sp_version point | Some v \<Rightarrow> v)
      in versions(sp_id point \<mapsto> max current (sp_version point)))"

definition update_point_versions ::
    "('s, 'n, 'v) scored_point list list list \<Rightarrow> ('s, 'n, 'v) batch_aggregator \<Rightarrow> ('s, 'n, 'v) batch_aggregator" where
  "update_point_versions search_results ba =
     ba\<lparr>point_versions := fold (fold (fold note_version)) search_results (point_versions ba)\<rparr>"

definition offer_point ::
    "(point_id \<rightharpoonup> seq_number) \<Rightarrow> ('s::linorder, 'n, 'v) scored_point
      \<Rightarrow> ('s, 'n, 'v) search_aggregator \<Rightarrow> ('s, 'n, 'v) search_aggregator" where
  "offer_point versions point a =
     (let point_max_version = (case versions (sp_id point) of None \<Rightarrow> 0 | Some v \<Rightarrow> v)
      in if sp_version point \<ge> point_max_version then sa_push point a else a)"

definition update_batch_results ::
    "nat \<Rightarrow> ('s::linorder, 'n, 'v) scored_point list \<Rightarrow> ('s, 'n, 'v) batch_aggregator
      \<Rightarrow> ('s, 'n, 'v) batch_aggregator option" where
  "update_batch_results batch_id search_results ba =
     (if batch_id < length (batch_aggregators ba) then
        Some (ba\<lparr>batch_aggregators :=
                  (batch_aggregators ba)[batch_id :=
                     fold (offer_point (point_versions ba)) search_results (batch_aggregators ba ! batch_id)]\<rparr>)
      else None)"

text \<open>The outer option is the panic, the inner one the result.\<close>

definition batch_lowest_scores :: "nat \<Rightarrow> ('s, 'n, 'v) batch_aggregator \<Rightarrow> 's option option" where
  "batch_lowest_scores batch_id ba =
     (if batch_id < length (batch_aggregators ba)
      then Some (map_option sp_score (sa_lowest (batch_aggregators ba ! batch_id))) else None)"

definition into_topk :: "('s, 'n, 'v) batch_aggregator \<Rightarrow> ('s, 'n, 'v) scored_point list list" where
  "into_topk ba = map sa_into_vec (batch_aggregators ba)"

section \<open>The first step of a search\<close>

record ('s, 'n, 'v) step1 =
  s1_aggregator :: "('s, 'n, 'v) batch_aggregator"
  s1_lowest :: "'s list list"
  s1_retrieved :: "nat list list"

definition merge_query_result ::
    "'s \<Rightarrow> nat \<Rightarrow> nat \<times> ('s::linorder, 'n, 'v) scored_point list \<Rightarrow> ('s, 'n, 'v) step1 \<Rightarrow> ('s, 'n, 'v) step1 option" where
  "merge_query_result smin segment_idx bq s1 =
     (case bq of (batch_req_idx, query_res) \<Rightarrow>
        if segment_idx < length (s1_lowest s1) \<and> batch_req_idx < length (s1_lowest s1 ! segment_idx) then
          (let lowest = (if query_res = [] then smin else sp_score (last query_res));
               set_cell = (\<lambda>m v. m[segment_idx := (m ! segment_idx)[batch_req_idx := v]])
           in map_option
                (\<lambda>ba. \<lparr>s1_aggregator = ba, s1_lowest = set_cell (s1_lowest s1) lowest,
                       s1_retrieved = (s1_retrieved s1)[segment_idx :=
                         (s1_retrieved s1 ! segment_idx)[batch_req_idx := length query_res]]\<rparr>)
                (update_batch_results batch_req_idx query_res (s1_aggregator s1)))
        else None)"

definition merge_segment_result ::
    "'s \<Rightarrow> nat \<times> ('s::linorder, 'n, 'v) scored_point list list \<Rightarrow> ('s, 'n, 'v) step1 \<Rightarrow> ('s, 'n, 'v) step1 option" where
  "merge_segment_result smin sr s1 =
     fold_opt (merge_query_result smin (fst sr)) (enumerate 0 (snd sr)) s1"

type_synonym reruns = "(nat \<times> nat list) list"

definition add_rerun :: "nat \<Rightarrow> nat \<Rightarrow> reruns \<Rightarrow> reruns" where
  "add_rerun segment_id batch_id m =
     AList.update segment_id ((case map_of m segment_id of None \<Rightarrow> [] | Some bs \<Rightarrow> bs) @ [batch_id]) m"

definition check_rerun ::
    "('s::linorder, 'n, 'v) step1 \<Rightarrow> bool list list \<Rightarrow> nat \<Rightarrow> nat \<Rightarrow> 's \<Rightarrow> nat \<Rightarrow> reruns \<Rightarrow> reruns option" where
  "check_rerun s1 further_results batch_id required_limit lowest_batch_score segment_id m =
     (if segment_id < length further_results \<and> batch_id < length (further_results ! segment_id) then
        Some (if further_results ! segment_id ! batch_id
                 \<and> s1_retrieved s1 ! segment_id ! batch_id < required_limit
                 \<and> s1_lowest s1 ! segment_id ! batch_id \<ge> lowest_batch_score
              then add_rerun segment_id batch_id m else m)
      else None)"

definition check_batch ::
    "('s::linorder, 'n, 'v) step1 \<Rightarrow> nat \<Rightarrow> bool list list \<Rightarrow> nat \<times> nat \<Rightarrow> reruns \<Rightarrow> reruns option" where
  "check_batch s1 number_segments further_results bl m =
     (case batch_lowest_scores (fst bl) (s1_aggregator s1) of
        None \<Rightarrow> None
      | Some None \<Rightarrow> Some m
      | Some (Some lowest_batch_score) \<Rightarrow>
          fold_opt (check_rerun s1 further_results (fst bl) (snd bl) lowest_batch_score) [0..<number_segments] m)"

definition process_search_result_step1 ::
    "'s \<Rightarrow> 's \<Rightarrow> ('s::linorder, 'n, 'v) scored_point list list list \<Rightarrow> nat list \<Rightarrow> bool list list
      \<Rightarrow> (('s, 'n, 'v) batch_aggregator \<times> reruns) option" where
  "process_search_result_step1 smin smax search_result limits further_results =
     (let number_segments = length search_result; batch_size = length limits
      in case ba_new limits of
           None \<Rightarrow> None
         | Some ba \<Rightarrow>
             (case fold_opt (merge_segment_result smin) (enumerate 0 search_result)
                     \<lparr>s1_aggregator = update_point_versions search_result ba,
                      s1_lowest = replicate number_segments (replicate batch_size smax),
                      s1_retrieved = replicate number_segments (replicate batch_size 0)\<rparr> of
                None \<Rightarrow> None
              | Some s1 \<Rightarrow>
                  map_option (Pair (s1_aggregator s1))
                    (fold_opt (check_batch s1 number_segments further_results) (enumerate 0 limits) [])))"

section \<open>What an aggregator holds\<close>

text \<open>The points of a stream whose id did not occur before.\<close>

fun first_by_id :: "point_id set \<Rightarrow> ('s, 'n, 'v) scored_point list \<Rightarrow> ('s, 'n, 'v) scored_point list" where
  "first_by_id seen [] = []"
| "first_by_id seen (p # ps) =
     (if sp_id p \<in> seen then first_by_id seen ps else p # first_by_id (insert (sp_id p) seen) ps)"

lemma fold_sa_push:
  "fold sa_push ps a =
     \<lparr>sa_queue = pq_push_all sp_score (first_by_id (sa_seen a) ps) (sa_queue a),
      sa_seen = sa_seen a \<union> sp_id ` set ps\<rparr>"
proof (induction ps arbitrary: a)
  case Nil
  then show ?case
    by (cases a) simp
next
  case (Cons p ps)
  show ?case
    by (auto simp: Cons sa_push_def [of p a])
qed

lemma sa_push_all_result:
  assumes "sa_new limit = Some a"
  shows "sa_into_vec (fold sa_push ps a) = peek_top_largest_iterable sp_score (first_by_id {} ps) limit"
  using assms by (auto simp: sa_new_def fold_sa_push sa_into_vec_def peek_top_largest_iterable_def)

lemma first_by_id_set:
  "inj_on sp_id (set ps) \<Longrightarrow> set (first_by_id seen ps) = {p \<in> set ps. sp_id p \<notin> seen}"
proof (induction ps arbitrary: seen)
  case (Cons p ps)
  have "inj_on sp_id (set ps)"
    using Cons.prems by simp
  moreover have "sp_id q = sp_id p \<longleftrightarrow> q = p" if "q \<in> set ps" for q
    using Cons.prems that unfolding inj_on_def by auto
  ultimately show ?case
    using Cons.IH by auto
qed simp

lemma first_by_id_ids: "p \<in> set (first_by_id seen ps) \<Longrightarrow> p \<in> set ps \<and> sp_id p \<notin> seen"
  by (induction ps arbitrary: seen) (auto split: if_splits)

lemma first_by_id_distinct: "distinct (map sp_id (first_by_id seen ps))"
  by (induction ps arbitrary: seen) (auto dest: first_by_id_ids)

section \<open>A reduced stream with the same best scores\<close>

text \<open>
  If every point left out has at least \<open>L\<close> points above it among those kept, the best \<open>L\<close> scores are the same.
\<close>

lemma top_keys_reduced:
  assumes "distinct D" "distinct G" "set D \<subseteq> set G"
    and "\<And>y. y \<in> set G - set D \<Longrightarrow> L \<le> length (filter (\<lambda>x. score y \<le> score x) D)"
  shows "top_keys L (map score D) = top_keys L (map (score :: 'a \<Rightarrow> 'k::linorder) G)"
proof -
  let ?Y = "filter (\<lambda>y. y \<notin> set D) G"
  have "distinct (?Y @ D)" "set (?Y @ D) = set G"
    using assms(1-3) by auto
  then have "mset (?Y @ D) = mset G"
    using assms(2) set_eq_iff_mset_eq_distinct by blast
  then have "mset (map score ?Y @ map score D) = mset (map score G)"
    by (metis map_append mset_map)
  moreover have "top_keys L (map score ?Y @ map score D) = top_keys L (map score D)"
    using assms(4) by (intro top_keys_extend) (auto simp: filter_map comp_def)
  ultimately show ?thesis
    using top_keys_perm by metis
qed

lemma card_le_length: "A \<subseteq> set xs \<Longrightarrow> card A \<le> length xs"
  using card_mono [of "set xs" A] card_length [of xs] by simp

text \<open>The points after position \<open>L\<close> of a list in decreasing order have the first \<open>L\<close> above them.\<close>

definition score_desc :: "('s::linorder, 'n, 'v) scored_point list \<Rightarrow> bool" where
  "score_desc ps \<longleftrightarrow> sorted_wrt (\<lambda>x y. sp_score y \<le> sp_score x) ps"

lemma covered_by_prefix:
  assumes "score_desc ps" "set (take L ps) \<subseteq> set D" "distinct ps" "y \<in> set ps - set D"
  shows "L \<le> length (filter (\<lambda>x. sp_score y \<le> sp_score x) D)"
proof -
  have "set ps = set (take L ps) \<union> set (drop L ps)"
    by (metis append_take_drop_id set_append)
  then have y: "y \<in> set (drop L ps)"
    using assms(2,4) by blast
  then have L: "L \<le> length ps"
    by (cases "L \<le> length ps") auto
  have "sorted_wrt (\<lambda>x y. sp_score y \<le> sp_score x) (take L ps @ drop L ps)"
    using assms(1) unfolding score_desc_def append_take_drop_id .
  then have "\<forall>x \<in> set (take L ps). sp_score y \<le> sp_score x"
    using y unfolding sorted_wrt_append by blast
  then have "set (take L ps) \<subseteq> set (filter (\<lambda>x. sp_score y \<le> sp_score x) D)"
    using assms(2) by auto
  from card_le_length [OF this] show ?thesis
    using distinct_card [of "take L ps"] assms(3) L by simp
qed

text \<open>A score below the lowest of a full queue has \<open>L\<close> points above it.\<close>

lemma covered_by_queue:
  assumes "pq_inv sp_score L (mset S) q" "pq_top q = Some low" "sp_score y \<le> sp_score low"
    and "L \<le> length S" "set S \<subseteq> set D" "distinct S"
  shows "L \<le> length (filter (\<lambda>x. sp_score y \<le> sp_score x) D)"
proof -
  note q = pq_inv_heap [OF assms(1)]
  obtain h where h: "pq_heap q = low # h"
    using assms(2) by (auto simp: pq_top_def split: list.splits)
  have "card (set (pq_heap q)) = L"
    using q(2) q(5) [OF assms(6)] assms(4) distinct_card by force
  moreover have "sp_score low \<le> sp_score x" if "x \<in> set (pq_heap q)" for x
    using q(1) h that by auto
  then have "set (pq_heap q) \<subseteq> set (filter (\<lambda>x. sp_score y \<le> sp_score x) D)"
    using assms(3,5) q(4) by (auto intro: order.trans)
  from card_le_length [OF this] calculation show ?thesis
    by simp
qed

text \<open>The lowest score of a queue that is not full is the lowest of all.\<close>

lemma queue_lowest_not_full:
  assumes "pq_inv sp_score L (mset S) q" "length S < L" "pq_top q = Some low" "x \<in> set S"
  shows "sp_score low \<le> sp_score x"
proof -
  note q = pq_inv_heap [OF assms(1)]
  have "mset (pq_heap q) = mset S"
    using q(2,3) assms(2) by (metis min.absorb4 mset_subset_size nat_less_le size_mset subset_mset.less_le)
  then have "set S = set (pq_heap q)"
    by (metis set_mset_mset)
  then show ?thesis
    using assms(3,4) q(1) by (auto simp: pq_top_def split: list.splits)
qed

text \<open>
  The reason to repeat a search or not: a point of a ranking \<open>G\<close> that is neither among the first \<open>K\<close> already merged,
  nor added by a repetition, has \<open>L\<close> points above it.
\<close>

lemma covered_unless_rerun:
  assumes "pq_inv sp_score L (mset S) q" "distinct S" "set S \<subseteq> set D" "0 < L"
    and "score_desc G" "distinct G" "set (take K G) \<subseteq> set S" "K = 0 \<Longrightarrow> G = []" "y \<in> set G - set D"
    and "\<And>low. \<lbrakk>pq_top q = Some low; length (take K G) = K; length (take K G) < L; sp_score low \<le> sp_score (last (take K G))\<rbrakk>
           \<Longrightarrow> set (take L G) \<subseteq> set D"
  shows "L \<le> length (filter (\<lambda>x. sp_score y \<le> sp_score x) D)"
proof -
  let ?t = "take K G"
  have y: "y \<in> set G" "y \<notin> set ?t"
    using assms(3,7,9) by auto
  have "G \<noteq> []" "\<not> length G \<le> K"
    using y by auto
  then have len: "length ?t = K" "?t \<noteq> []"
    using assms(8) by auto
  note prefix = covered_by_prefix [OF assms(5) _ assms(6,9)]
  show ?thesis
  proof (cases "L \<le> K")
    case True
    then have "set (take L G) \<subseteq> set ?t"
      by (rule set_take_subset_set_take)
    then show ?thesis
      using assms(3,7) by (intro prefix) blast
  next
    case False
    have lt: "last ?t \<in> set S"
      using len(2) assms(7) last_in_set by blast
    then have "0 < length (pq_heap q)"
      using pq_inv_heap(2) [OF assms(1)] assms(4) by (cases S) auto
    then obtain low where low: "pq_top q = Some low"
      by (cases "pq_heap q") (auto simp: pq_top_def)
    show ?thesis
    proof (cases "sp_score low \<le> sp_score (last ?t)")
      case True
      then show ?thesis
        using assms(10) [OF low] len(1) False by (intro prefix) simp
    next
      case less: False
      have full: "L \<le> length S"
        using queue_lowest_not_full [OF assms(1) _ low lt] less by (cases "length S < L") auto
      have "sorted_wrt (\<lambda>x y. sp_score y \<le> sp_score x) (?t @ drop K G)"
        using assms(5) unfolding score_desc_def append_take_drop_id .
      moreover have "y \<in> set (drop K G)"
        using y by (metis Un_iff append_take_drop_id set_append)
      ultimately have "sp_score y \<le> sp_score (last ?t)"
        using len(2) last_in_set unfolding sorted_wrt_append by blast
      then show ?thesis
        using less by (intro covered_by_queue [OF assms(1) low _ full assms(3,2)]) auto
    qed
  qed
qed

section \<open>The state after merging\<close>

definition s1_shape :: "nat \<Rightarrow> nat \<Rightarrow> ('s, 'n, 'v) step1 \<Rightarrow> bool" where
  "s1_shape N B s1 \<longleftrightarrow>
     length (batch_aggregators (s1_aggregator s1)) = B
     \<and> length (s1_lowest s1) = N \<and> (\<forall>j < N. length (s1_lowest s1 ! j) = B)
     \<and> length (s1_retrieved s1) = N \<and> (\<forall>j < N. length (s1_retrieved s1 ! j) = B)"

definition lowest_of :: "'s \<Rightarrow> ('s, 'n, 'v) scored_point list \<Rightarrow> 's" where
  "lowest_of smin query_res = (if query_res = [] then smin else sp_score (last query_res))"

text \<open>
  Merging the results \<open>rs\<close> of segment \<open>i\<close>: the aggregator of every request in it has got its points, and the cells
  of the segment describe its result.
\<close>

definition merged ::
    "'s \<Rightarrow> nat \<Rightarrow> nat \<Rightarrow> nat \<Rightarrow> ('s::linorder, 'n, 'v) scored_point list list \<Rightarrow> ('s, 'n, 'v) step1
      \<Rightarrow> ('s, 'n, 'v) step1 \<Rightarrow> bool" where
  "merged smin N B i rs s0 s1 \<longleftrightarrow>
     s1_shape N B s1 \<and> point_versions (s1_aggregator s1) = point_versions (s1_aggregator s0)
     \<and> (\<forall>b < B. batch_aggregators (s1_aggregator s1) ! b =
          (if b < length rs
           then fold (offer_point (point_versions (s1_aggregator s0))) (rs ! b) (batch_aggregators (s1_aggregator s0) ! b)
           else batch_aggregators (s1_aggregator s0) ! b))
     \<and> (\<forall>j < N. \<forall>b < B. s1_lowest s1 ! j ! b =
          (if j = i \<and> b < length rs then lowest_of smin (rs ! b) else s1_lowest s0 ! j ! b))
     \<and> (\<forall>j < N. \<forall>b < B. s1_retrieved s1 ! j ! b =
          (if j = i \<and> b < length rs then length (rs ! b) else s1_retrieved s0 ! j ! b))"

lemma merged_refl: "s1_shape N B s0 \<Longrightarrow> merged smin N B i [] s0 s0"
  by (simp add: merged_def)

lemma length_row_update [simp]: "length (m[i := (m ! i)[b := v]] ! j) = length (m ! j)"
  by (cases "i = j"; cases "i < length m") (auto simp: list_update_beyond)

lemma merge_query_result_step:
  assumes "merged smin N B i rs s0 s1" "s1_shape N B s0" "length rs < B" "i < N"
  shows "\<exists>s2. merge_query_result smin i (length rs, r) s1 = Some s2 \<and> merged smin N B i (rs @ [r]) s0 s2"
proof -
  let ?b = "length rs" and ?V = "point_versions (s1_aggregator s0)"
  have sh: "length (batch_aggregators (s1_aggregator s1)) = B" "length (s1_lowest s1) = N" "length (s1_lowest s1 ! i) = B"
    "length (s1_retrieved s1) = N" "length (s1_retrieved s1 ! i) = B"
    using assms(1,4) unfolding merged_def s1_shape_def by auto
  obtain s2 where s2: "merge_query_result smin i (?b, r) s1 = Some s2"
    "s2 = \<lparr>s1_aggregator = (s1_aggregator s1)\<lparr>batch_aggregators := (batch_aggregators (s1_aggregator s1))[?b :=
             fold (offer_point (point_versions (s1_aggregator s1))) r (batch_aggregators (s1_aggregator s1) ! ?b)]\<rparr>,
           s1_lowest = (s1_lowest s1)[i := (s1_lowest s1 ! i)[?b := lowest_of smin r]],
           s1_retrieved = (s1_retrieved s1)[i := (s1_retrieved s1 ! i)[?b := length r]]\<rparr>"
    using sh assms(3,4) by (simp add: merge_query_result_def update_batch_results_def lowest_of_def Let_def)
  have V: "point_versions (s1_aggregator s1) = ?V"
    using assms(1) by (simp add: merged_def)
  have "s1_shape N B s2"
    using assms(1) unfolding merged_def s1_shape_def s2(2) by simp
  moreover have "batch_aggregators (s1_aggregator s2) ! b =
      (if b < length (rs @ [r]) then fold (offer_point ?V) ((rs @ [r]) ! b) (batch_aggregators (s1_aggregator s0) ! b)
       else batch_aggregators (s1_aggregator s0) ! b)" if "b < B" for b
    using assms(1,3) that sh(1) V unfolding merged_def s2(2) by (cases "b = ?b") (simp_all add: nth_append less_Suc_eq)
  moreover have "s1_lowest s2 ! j ! b =
      (if j = i \<and> b < length (rs @ [r]) then lowest_of smin ((rs @ [r]) ! b) else s1_lowest s0 ! j ! b)"
    if "j < N" "b < B" for j b
    using assms(1,3,4) that sh(2,3) unfolding merged_def s2(2)
    by (cases "b = ?b"; cases "j = i") (simp_all add: nth_append less_Suc_eq)
  moreover have "s1_retrieved s2 ! j ! b =
      (if j = i \<and> b < length (rs @ [r]) then length ((rs @ [r]) ! b) else s1_retrieved s0 ! j ! b)"
    if "j < N" "b < B" for j b
    using assms(1,3,4) that sh(4,5) unfolding merged_def s2(2)
    by (cases "b = ?b"; cases "j = i") (simp_all add: nth_append less_Suc_eq)
  moreover have "point_versions (s1_aggregator s2) = ?V"
    using V s2(2) by simp
  ultimately show ?thesis
    using s2(1) unfolding merged_def by blast
qed

lemma enumerate_prefix:
  assumes "enumerate 0 rs = ys @ x # zs"
  shows "x = (length ys, rs ! length ys)" "length ys < length rs"
proof -
  show len: "length ys < length rs"
    using arg_cong [OF assms, of length] by simp
  show "x = (length ys, rs ! length ys)"
    using arg_cong [OF assms, of "\<lambda>l. l ! length ys"] len by (simp add: nth_enumerate_eq)
qed

lemma merge_segment_result_spec:
  assumes "s1_shape N B s0" "length rs = B" "i < N"
  shows "\<exists>s1. merge_segment_result smin (i, rs) s0 = Some s1 \<and> merged smin N B i rs s0 s1"
proof -
  have "\<exists>s1. fold_opt (merge_query_result smin i) (enumerate 0 rs) s0 = Some s1
      \<and> (\<lambda>ys s1. merged smin N B i (take (length ys) rs) s0 s1) (enumerate 0 rs) s1"
  proof (rule fold_opt_inv)
    show "merged smin N B i (take (length []) rs) s0 s0"
      using merged_refl [OF assms(1)] by simp
    fix ys x s
    assume "\<exists>rest. enumerate 0 rs = ys @ x # rest" and inv: "merged smin N B i (take (length ys) rs) s0 s"
    then have x: "x = (length ys, rs ! length ys)" "length ys < B"
      using enumerate_prefix assms(2) by blast+
    have "\<exists>s2. merge_query_result smin i (length (take (length ys) rs), rs ! length ys) s = Some s2
        \<and> merged smin N B i (take (length ys) rs @ [rs ! length ys]) s0 s2"
      using x(2) assms(2) by (intro merge_query_result_step [OF inv assms(1) _ assms(3)]) simp
    then show "\<exists>s'. merge_query_result smin i x s = Some s' \<and> merged smin N B i (take (length (ys @ [x])) rs) s0 s'"
      using x assms(2) by (simp add: take_Suc_conv_app_nth)
  qed
  then show ?thesis
    by (simp add: merge_segment_result_def)
qed

text \<open>The state after all segments: the aggregator of a request has got the results of all segments in order.\<close>

definition merged_all ::
    "'s \<Rightarrow> nat \<Rightarrow> nat \<Rightarrow> ('s::linorder, 'n, 'v) scored_point list list list \<Rightarrow> ('s, 'n, 'v) step1
      \<Rightarrow> ('s, 'n, 'v) step1 \<Rightarrow> bool" where
  "merged_all smin N B results s0 s1 \<longleftrightarrow>
     s1_shape N B s1 \<and> point_versions (s1_aggregator s1) = point_versions (s1_aggregator s0)
     \<and> (\<forall>b < B. batch_aggregators (s1_aggregator s1) ! b =
          fold (offer_point (point_versions (s1_aggregator s0))) (concat (map (\<lambda>rs. rs ! b) results))
            (batch_aggregators (s1_aggregator s0) ! b))
     \<and> (\<forall>j < length results. \<forall>b < B. s1_lowest s1 ! j ! b = lowest_of smin (results ! j ! b)
          \<and> s1_retrieved s1 ! j ! b = length (results ! j ! b))"

lemma merged_all_step:
  assumes "merged_all smin N B results s0 s1" "merged smin N B (length results) rs s1 s2" "length rs = B"
    "length results < N"
  shows "merged_all smin N B (results @ [rs]) s0 s2"
  using assms unfolding merged_all_def merged_def by (auto simp: nth_append less_Suc_eq)

lemma merge_all_spec:
  assumes "s1_shape (length results) B s0" "\<forall>rs \<in> set results. length rs = B"
  shows "\<exists>s1. fold_opt (merge_segment_result smin) (enumerate 0 results) s0 = Some s1
    \<and> merged_all smin (length results) B results s0 s1"
proof -
  let ?N = "length results"
  have "\<exists>s1. fold_opt (merge_segment_result smin) (enumerate 0 results) s0 = Some s1
      \<and> (\<lambda>ys s1. merged_all smin ?N B (take (length ys) results) s0 s1) (enumerate 0 results) s1"
  proof (rule fold_opt_inv)
    show "merged_all smin ?N B (take (length []) results) s0 s0"
      using assms(1) by (simp add: merged_all_def)
    fix ys x s
    assume "\<exists>rest. enumerate 0 results = ys @ x # rest" and inv: "merged_all smin ?N B (take (length ys) results) s0 s"
    then have x: "x = (length ys, results ! length ys)" "length ys < ?N"
      using enumerate_prefix by blast+
    have "length (results ! length ys) = B"
      using x(2) assms(2) by simp
    moreover have "s1_shape ?N B s"
      using inv by (simp add: merged_all_def)
    ultimately obtain s2 where s2: "merge_segment_result smin x s = Some s2"
      "merged smin ?N B (length ys) (results ! length ys) s s2"
      using merge_segment_result_spec [of ?N B s "results ! length ys" "length ys" smin] x by blast
    have "merged_all smin ?N B (take (length ys) results @ [results ! length ys]) s0 s2"
      using merged_all_step [OF inv, of "results ! length ys" s2] s2(2) x(2) \<open>length (results ! length ys) = B\<close>
      by simp
    then show "\<exists>s'. merge_segment_result smin x s = Some s' \<and> merged_all smin ?N B (take (length (ys @ [x])) results) s0 s'"
      using s2(1) x(2) by (simp add: take_Suc_conv_app_nth)
  qed
  then show ?thesis
    by simp
qed

section \<open>The searches to repeat\<close>

definition reruns_of :: "reruns \<Rightarrow> nat \<Rightarrow> nat list" where
  "reruns_of m segment_id = (case map_of m segment_id of None \<Rightarrow> [] | Some bs \<Rightarrow> bs)"

definition reruns_wf :: "nat \<Rightarrow> reruns \<Rightarrow> bool" where
  "reruns_wf N m \<longleftrightarrow> distinct (map fst m) \<and> (\<forall>e \<in> set m. fst e < N \<and> snd e \<noteq> [])"

lemma reruns_of_add: "reruns_of (add_rerun i b m) j = (if i = j then reruns_of m j @ [b] else reruns_of m j)"
  by (auto simp: reruns_of_def add_rerun_def update_conv')

lemma reruns_wf_add: "\<lbrakk>reruns_wf N m; i < N\<rbrakk> \<Longrightarrow> reruns_wf N (add_rerun i b m)"
proof -
  assume wf: "reruns_wf N m" and i: "i < N"
  have "distinct (map fst (add_rerun i b m))"
    using wf by (simp add: reruns_wf_def add_rerun_def distinct_update)
  moreover have "fst e < N \<and> snd e \<noteq> []" if "e \<in> set (add_rerun i b m)" for e
  proof -
    have "e \<in> set m \<or> e = (i, reruns_of m i @ [b])"
      using that unfolding add_rerun_def reruns_of_def by (induction m) (auto split: if_splits)
    then show ?thesis
      using wf i by (auto simp: reruns_wf_def)
  qed
  ultimately show ?thesis
    by (simp add: reruns_wf_def)
qed

definition needs_rerun ::
    "('s::linorder, 'n, 'v) step1 \<Rightarrow> bool list list \<Rightarrow> nat \<Rightarrow> 's option \<Rightarrow> nat \<Rightarrow> nat \<Rightarrow> bool" where
  "needs_rerun s1 further_results required_limit lowest batch_id segment_id \<longleftrightarrow>
     (case lowest of None \<Rightarrow> False
      | Some low \<Rightarrow> further_results ! segment_id ! batch_id \<and> s1_retrieved s1 ! segment_id ! batch_id < required_limit
                   \<and> s1_lowest s1 ! segment_id ! batch_id \<ge> low)"

lemma check_batch_spec:
  assumes "s1_shape N B s1" "length further = N" "\<forall>fs \<in> set further. length fs = B" "b < B" "reruns_wf N m"
  shows "\<exists>m'. check_batch s1 N further (b, limit) m = Some m' \<and> reruns_wf N m'
    \<and> (\<forall>j < N. reruns_of m' j = reruns_of m j @
        (if needs_rerun s1 further limit (map_option sp_score (sa_lowest (batch_aggregators (s1_aggregator s1) ! b))) b j
         then [b] else []))"
proof (cases "sa_lowest (batch_aggregators (s1_aggregator s1) ! b)")
  case None
  then show ?thesis
    using assms by (simp add: check_batch_def batch_lowest_scores_def s1_shape_def needs_rerun_def)
next
  case (Some p)
  let ?need = "needs_rerun s1 further limit (Some (sp_score p)) b"
  have "\<exists>m'. fold_opt (check_rerun s1 further b limit (sp_score p)) [0..<N] m = Some m'
      \<and> (\<lambda>ys m'. reruns_wf N m'
          \<and> (\<forall>j < N. reruns_of m' j = reruns_of m j @ (if j < length ys \<and> ?need j then [b] else []))) [0..<N] m'"
  proof (rule fold_opt_inv)
    show "reruns_wf N m \<and> (\<forall>j < N. reruns_of m j = reruns_of m j @ (if j < length [] \<and> ?need j then [b] else []))"
      using assms(5) by simp
    fix ys x m1
    assume pre: "\<exists>rest. [0..<N] = ys @ x # rest"
      and inv: "reruns_wf N m1 \<and> (\<forall>j < N. reruns_of m1 j = reruns_of m j @ (if j < length ys \<and> ?need j then [b] else []))"
    then obtain rest where split: "[0..<N] = ys @ x # rest"
      by blast
    have len: "length ys < N"
      using arg_cong [OF split, of length] by simp
    then have x: "length ys < N" "x = length ys"
      using arg_cong [OF split, of "\<lambda>l. l ! length ys"] by simp_all
    have run: "check_rerun s1 further b limit (sp_score p) x m1 = Some (if ?need x then add_rerun x b m1 else m1)"
      using x assms(2-4) by (auto simp: check_rerun_def needs_rerun_def)
    show "\<exists>m2. check_rerun s1 further b limit (sp_score p) x m1 = Some m2 \<and> reruns_wf N m2
        \<and> (\<forall>j < N. reruns_of m2 j = reruns_of m j @ (if j < length (ys @ [x]) \<and> ?need j then [b] else []))"
      unfolding run using inv x reruns_wf_add [of N m1 x b] by (auto simp: reruns_of_add less_Suc_eq)
  qed
  then show ?thesis
    using Some assms(1,4) by (simp add: check_batch_def batch_lowest_scores_def s1_shape_def)
qed

lemma check_all_spec:
  assumes "s1_shape N (length limits) s1" "length further = N" "\<forall>fs \<in> set further. length fs = length limits"
  shows "\<exists>m. fold_opt (check_batch s1 N further) (enumerate 0 limits) [] = Some m \<and> reruns_wf N m
    \<and> (\<forall>j < N. reruns_of m j = filter (\<lambda>b. needs_rerun s1 further (limits ! b)
          (map_option sp_score (sa_lowest (batch_aggregators (s1_aggregator s1) ! b))) b j) [0..<length limits])"
proof -
  let ?need = "\<lambda>j b. needs_rerun s1 further (limits ! b)
    (map_option sp_score (sa_lowest (batch_aggregators (s1_aggregator s1) ! b))) b j"
  have "\<exists>m. fold_opt (check_batch s1 N further) (enumerate 0 limits) [] = Some m
      \<and> (\<lambda>ys m. reruns_wf N m \<and> (\<forall>j < N. reruns_of m j = filter (?need j) [0..<length ys])) (enumerate 0 limits) m"
  proof (rule fold_opt_inv)
    show "reruns_wf N [] \<and> (\<forall>j < N. reruns_of [] j = filter (?need j) [0..<length []])"
      by (simp add: reruns_wf_def reruns_of_def)
    fix ys x m
    assume "\<exists>rest. enumerate 0 limits = ys @ x # rest"
      and inv: "reruns_wf N m \<and> (\<forall>j < N. reruns_of m j = filter (?need j) [0..<length ys])"
    then have x: "x = (length ys, limits ! length ys)" "length ys < length limits"
      using enumerate_prefix by blast+
    obtain m' where m': "check_batch s1 N further x m = Some m'" "reruns_wf N m'"
      "\<forall>j < N. reruns_of m' j = reruns_of m j @ (if ?need j (length ys) then [length ys] else [])"
      using check_batch_spec [OF assms x(2), of m "limits ! length ys"] inv x(1) by blast
    then show "\<exists>m'. check_batch s1 N further x m = Some m'
        \<and> reruns_wf N m' \<and> (\<forall>j < N. reruns_of m' j = filter (?need j) [0..<length (ys @ [x])])"
      using inv by auto
  qed
  then show ?thesis
    by simp
qed

lemma new_aggregators_spec:
  "\<forall>l \<in> set limits. 0 < l \<Longrightarrow>
    \<exists>as :: ('s, 'n, 'v) search_aggregator list. new_aggregators limits = Some as \<and> length as = length limits \<and> (\<forall>b < length limits. sa_new (limits ! b) = Some (as ! b))"
proof (induction limits)
  case (Cons l limits)
  then obtain as :: "('s, 'n, 'v) search_aggregator list" where "new_aggregators limits = Some as" "length as = length limits"
    "\<forall>b < length limits. sa_new (limits ! b) = Some (as ! b)"
    by auto
  moreover obtain a :: "('s, 'n, 'v) search_aggregator" where "sa_new l = Some a"
    using Cons.prems by (simp add: sa_new_def pq_new_def)
  ultimately show ?case
    by (auto simp: nth_Cons split: nat.splits)
qed simp

text \<open>
  When the version of a point is a function of its id, every point offered is of the newest version known, and
  the aggregators take the points of the stream.
\<close>

definition versions_fit :: "(point_id \<Rightarrow> seq_number) \<Rightarrow> (point_id \<rightharpoonup> seq_number) \<Rightarrow> bool" where
  "versions_fit ver V \<longleftrightarrow> (\<forall>i v. V i = Some v \<longrightarrow> v = ver i)"

lemma versions_fit_note:
  "\<lbrakk>versions_fit ver V; sp_version p = ver (sp_id p)\<rbrakk> \<Longrightarrow> versions_fit ver (note_version p V)"
  by (auto simp: versions_fit_def note_version_def Let_def split: option.splits)

lemma versions_fit_update:
  assumes "versions_fit ver (point_versions ba)" "\<forall>rs \<in> set results. \<forall>r \<in> set rs. \<forall>p \<in> set r. sp_version p = ver (sp_id p)"
  shows "versions_fit ver (point_versions (update_point_versions results ba))"
proof -
  have a: "versions_fit ver (fold note_version ps V)"
    if "versions_fit ver V" "\<forall>p \<in> set ps. sp_version p = ver (sp_id p)" for ps :: "('a, 'b, 'c) scored_point list" and V
    using that by (induction ps arbitrary: V) (auto intro: versions_fit_note)
  have b: "versions_fit ver (fold (fold note_version) rs V)"
    if "versions_fit ver V" "\<forall>r \<in> set rs. \<forall>p \<in> set r. sp_version p = ver (sp_id p)"
    for rs :: "('a, 'b, 'c) scored_point list list" and V
    using that by (induction rs arbitrary: V) (auto intro: a)
  have "versions_fit ver (fold (fold (fold note_version)) results V)" if "versions_fit ver V" for V
    using that assms(2) by (induction results arbitrary: V) (auto intro: b)
  then show ?thesis
    using assms(1) by (simp add: update_point_versions_def)
qed

lemma fold_offer_point:
  assumes "versions_fit ver V" "\<forall>p \<in> set ps. sp_version p = ver (sp_id p)"
  shows "fold (offer_point V) ps a = fold sa_push ps a"
  using assms(2)
proof (induction ps arbitrary: a)
  case (Cons p ps)
  have "offer_point V p a = sa_push p a"
    using assms(1) Cons.prems by (auto simp: offer_point_def versions_fit_def Let_def split: option.splits)
  then show ?case
    using Cons by simp
qed simp

section \<open>The merged results of the first step\<close>

text \<open>The newest version of a point among the results.\<close>

definition newest :: "('s, 'n, 'v) scored_point list \<Rightarrow> point_id \<Rightarrow> seq_number" where
  "newest ps i = foldr max (map sp_version (filter (\<lambda>p. sp_id p = i) ps)) 0"

definition known_version :: "(point_id \<rightharpoonup> seq_number) \<Rightarrow> point_id \<Rightarrow> seq_number" where
  "known_version V i = (case V i of None \<Rightarrow> 0 | Some v \<Rightarrow> v)"

lemma known_version_note:
  "known_version (note_version p V) i = (if sp_id p = i then max (sp_version p) (known_version V i) else known_version V i)"
  by (auto simp: known_version_def note_version_def Let_def split: option.splits)

lemma known_version_fold:
  "known_version (fold note_version ps V) i = max (known_version V i) (newest ps i)"
  by (induction ps arbitrary: V) (auto simp: newest_def known_version_note)

lemma fold_offer_filter:
  "fold (offer_point V) ps a = fold sa_push (filter (\<lambda>p. known_version V (sp_id p) \<le> sp_version p) ps) a"
  by (induction ps arbitrary: a) (auto simp: offer_point_def known_version_def Let_def)

lemma fold_concat: "fold (fold f) xss = fold f (concat xss)"
  by (induction xss) auto

lemma newest_ge: "p \<in> set ps \<Longrightarrow> sp_version p \<le> newest ps (sp_id p)"
  by (induction ps) (auto simp: newest_def)

text \<open>
  C9. Merging the results of all segments. For results of the right shape the first step of a search does not
  panic, and the queue of every request holds the best points, by score, of those returned for it: only points of
  the newest version seen in any result count, a point that several segments return counts once, and there are
  at most as many as the request asks for.\<close>

theorem process_search_result_merges:
  fixes results :: "('s::linorder, 'n, 'v) scored_point list list list"
  assumes "\<forall>l \<in> set limits. 0 < l" "\<forall>rs \<in> set results. length rs = length limits"
    and "length further = length results" "\<forall>fs \<in> set further. length fs = length limits"
  shows "\<exists>ba reruns. process_search_result_step1 smin smax results limits further = Some (ba, reruns)
    \<and> length (into_topk ba) = length limits
    \<and> (\<forall>b < length limits. into_topk ba ! b =
        peek_top_largest_iterable sp_score
          (first_by_id {} (filter (\<lambda>p. sp_version p = newest (concat (concat results)) (sp_id p))
             (concat (map (\<lambda>rs. rs ! b) results)))) (limits ! b))"
proof -
  let ?N = "length results" and ?B = "length limits" and ?all = "concat (concat results)"
  obtain as :: "('s, 'n, 'v) search_aggregator list"
    where as: "new_aggregators limits = Some as" "length as = ?B"
    "\<forall>b < ?B. sa_new (limits ! b) = Some (as ! b)"
    using new_aggregators_spec [OF assms(1)] by blast
  let ?ba = "update_point_versions results \<lparr>batch_aggregators = as, point_versions = Map.empty\<rparr>"
  let ?s0 = "\<lparr>s1_aggregator = ?ba, s1_lowest = replicate ?N (replicate ?B smax),
    s1_retrieved = replicate ?N (replicate ?B 0)\<rparr>"
  have shape: "s1_shape ?N ?B ?s0"
    using as(2) by (simp add: s1_shape_def update_point_versions_def)
  obtain s1 where s1: "fold_opt (merge_segment_result smin) (enumerate 0 results) ?s0 = Some s1"
    "merged_all smin ?N ?B results ?s0 s1"
    using merge_all_spec [OF shape assms(2)] by blast
  obtain m where m: "fold_opt (check_batch s1 ?N further) (enumerate 0 limits) [] = Some m"
    using check_all_spec [of ?N limits s1 further] s1(2) assms(3,4) by (auto simp: merged_all_def)
  have known: "known_version (point_versions ?ba) i = newest ?all i" for i
    by (simp add: update_point_versions_def fold_concat known_version_fold) (simp add: known_version_def)
  have "into_topk (s1_aggregator s1) ! b =
      peek_top_largest_iterable sp_score (first_by_id {} (filter (\<lambda>p. sp_version p = newest ?all (sp_id p))
        (concat (map (\<lambda>rs. rs ! b) results)))) (limits ! b)" if b: "b < ?B" for b
  proof -
    let ?ps = "concat (map (\<lambda>rs. rs ! b) results)"
    have "set ?ps \<subseteq> set ?all"
      using b assms(2) by (fastforce intro: nth_mem)
    then have "sp_version p \<le> newest ?all (sp_id p)" if "p \<in> set ?ps" for p
      using newest_ge [of p ?all] that by blast
    then have "filter (\<lambda>p. newest ?all (sp_id p) \<le> sp_version p) ?ps = filter (\<lambda>p. sp_version p = newest ?all (sp_id p)) ?ps"
      by (intro filter_cong refl) (metis order.antisym order.refl)
    moreover have "batch_aggregators (s1_aggregator s1) ! b = fold (offer_point (point_versions ?ba)) ?ps (as ! b)"
      using s1(2) b by (simp add: merged_all_def) (simp add: update_point_versions_def)
    moreover have "b < length (batch_aggregators (s1_aggregator s1))"
      using s1(2) b by (simp add: merged_all_def s1_shape_def)
    ultimately show ?thesis
      using sa_push_all_result [of "limits ! b" "as ! b"] as(3) b
      by (simp add: into_topk_def fold_offer_filter known)
  qed
  moreover have "length (into_topk (s1_aggregator s1)) = ?B"
    using s1(2) by (simp add: into_topk_def merged_all_def s1_shape_def)
  moreover have "process_search_result_step1 smin smax results limits further = Some (s1_aggregator s1, m)"
    using as(1) s1(1) m by (simp add: process_search_result_step1_def ba_new_def Let_def)
  ultimately show ?thesis
    by blast
qed

theorem process_search_result_merges_witness:
  "\<exists>ba reruns. process_search_result_step1 0 9
       [[[\<lparr>sp_id = NumId 1, sp_version = 3, sp_score = 5, sp_payload = None, sp_vector = None\<rparr>]],
        [[\<lparr>sp_id = NumId 1, sp_version = 4, sp_score = 2, sp_payload = None, sp_vector = None\<rparr>]]]
       [1] [[False], [False]] = Some (ba, reruns)
     \<and> map (map sp_version) (into_topk ba) = [[4]]
     \<and> (\<forall>p \<in> set (concat (into_topk ba)). (sp_score p :: nat) = 2 \<and> sp_payload p = (None :: unit payload option)
          \<and> sp_vector p = (None :: unit option))"
proof -
  let ?p = "\<lparr>sp_id = NumId 1, sp_version = 3, sp_score = 5 :: nat, sp_payload = None :: unit payload option,
    sp_vector = None :: unit option\<rparr>" and ?q = "\<lparr>sp_id = NumId 1, sp_version = 4, sp_score = 2 :: nat,
    sp_payload = None :: unit payload option, sp_vector = None :: unit option\<rparr>"
  obtain ba reruns where run: "process_search_result_step1 0 9 [[[?p]], [[?q]]] [1] [[False], [False]] = Some (ba, reruns)"
    "length (into_topk ba) = 1"
    "into_topk ba ! 0 = peek_top_largest_iterable sp_score (first_by_id {} (filter
       (\<lambda>p. sp_version p = newest [?p, ?q] (sp_id p)) [?p, ?q])) 1"
    using process_search_result_merges [of "[1]" "[[[?p]], [[?q]]]" "[[False], [False]]" 0 9] by auto
  have "into_topk ba ! 0 = [?q]"
    unfolding run(3)
    by (simp add: newest_def peek_top_largest_iterable_def pq_new_def pq_push_def pq_into_vec_def)
  then have "into_topk ba = [[?q]]"
    using run(2) by (cases "into_topk ba") auto
  then show ?thesis
    using run(1) by simp
qed

end
