(* ===== verification/Segments_Search.thy ===== *)
theory Segments_Search
  imports Search_Aggregator Filters Rust_Float Error_Types
begin

text \<open>
  Searching all segments of a shard (\<open>lib/collection/src/collection_manager/segments_searcher.rs\<close> with the
  sampling table of \<open>probabilistic_segment_search_sampling.rs\<close>): the requests are sent to every segment, grouped
  by their parameters and with a reduced limit, the results are merged, and the searches whose reduced limit may
  have lost results are repeated with the full one.

  A segment is the record of what the search reads of it. The futures of the code run one after the other here:
  the code joins them in the order of the segments. Searches to repeat are visited in the order they were found,
  where the code takes the order of a hash map.
\<close>

section \<open>The sampling limit\<close>

text \<open>
  \<open>binary_search_by\<close> on the sorted table: the position of an equal entry, of which the first one is taken, or the
  position where the value would be inserted. Comparing with NaN and a position past the end are panics.
\<close>

definition poisson_table :: "(f64 \<times> nat) list" where
  "poisson_table = [
    (f64_of_rat (19342359767891684 / 100000000000000000), 4),
    (f64_of_rat (398406374501992 / 1000000000000000), 5), (f64_of_rat (6666666666666667 / 10000000000000000), 6),
    (f64_of_rat (9900990099009901 / 10000000000000000), 7),
    (f64_of_rat (13513513513513513 / 10000000000000000), 8),
    (f64_of_rat (17543859649122806 / 10000000000000000), 9),
    (f64_of_rat (22222222222222223 / 10000000000000000), 10),
    (f64_of_rat (27027027027027026 / 10000000000000000), 11), (f64_of_rat (3125 / 1000), 12),
    (f64_of_rat (37037037037037033 / 10000000000000000), 13),
    (f64_of_rat (4166666666666666 / 1000000000000000), 14),
    (f64_of_rat (4761904761904762 / 1000000000000000), 15),
    (f64_of_rat (5263157894736842 / 1000000000000000), 16), (f64_of_rat (588235294117647 / 100000000000000), 17),
    (f64_of_rat (625 / 100), 18), (f64_of_rat (7142857142857142 / 1000000000000000), 19),
    (f64_of_rat (76923076923076925 / 10000000000000000), 20),
    (f64_of_rat (9090909090909092 / 1000000000000000), 22), (f64_of_rat (10), 24),
    (f64_of_rat (11538461538461538 / 1000000000000000), 26), (f64_of_rat (125 / 10), 28),
    (f64_of_rat (14285714285714285 / 1000000000000000), 30),
    (f64_of_rat (15384615384615385 / 1000000000000000), 32),
    (f64_of_rat (16666666666666668 / 1000000000000000), 34),
    (f64_of_rat (18181818181818183 / 1000000000000000), 36), (f64_of_rat (20), 38),
    (f64_of_rat (21428571428571427 / 1000000000000000), 40),
    (f64_of_rat (23076923076923077 / 1000000000000000), 43), (f64_of_rat (25), 46),
    (f64_of_rat (27777777777777775 / 1000000000000000), 49), (f64_of_rat (30), 52),
    (f64_of_rat (3333333333333333 / 100000000000000), 55),
    (f64_of_rat (33333333333333336 / 1000000000000000), 58), (f64_of_rat (375 / 10), 61),
    (f64_of_rat (39285714285714285 / 1000000000000000), 65),
    (f64_of_rat (42857142857142854 / 1000000000000000), 69),
    (f64_of_rat (4583333333333333 / 100000000000000), 73), (f64_of_rat (50), 77), (f64_of_rat (50), 81),
    (f64_of_rat (5625 / 100), 86), (f64_of_rat (60), 91), (f64_of_rat (6666666666666666 / 100000000000000), 96),
    (f64_of_rat (70), 101), (f64_of_rat (75), 107), (f64_of_rat (7857142857142857 / 100000000000000), 113),
    (f64_of_rat (8333333333333333 / 100000000000000), 119), (f64_of_rat (90), 125),
    (f64_of_rat (9444444444444444 / 100000000000000), 132), (f64_of_rat (100), 139),
    (f64_of_rat (10625 / 100), 146), (f64_of_rat (11153846153846155 / 100000000000000), 154),
    (f64_of_rat (1176470588235294 / 10000000000000), 162), (f64_of_rat (125), 171),
    (f64_of_rat (1375 / 10), 180), (f64_of_rat (14375 / 100), 190), (f64_of_rat (150), 200),
    (f64_of_rat (1625 / 10), 211), (f64_of_rat (17083333333333331 / 100000000000000), 222),
    (f64_of_rat (18333333333333331 / 100000000000000), 234),
    (f64_of_rat (19166666666666666 / 100000000000000), 246), (f64_of_rat (200), 259), (f64_of_rat (215), 272),
    (f64_of_rat (230), 286), (f64_of_rat (24285714285714283 / 100000000000000), 301),
    (f64_of_rat (2571428571428571 / 10000000000000), 317), (f64_of_rat (2714285714285714 / 10000000000000), 333),
    (f64_of_rat (285), 350), (f64_of_rat (300), 368), (f64_of_rat (3181818181818182 / 10000000000000), 387),
    (f64_of_rat (340), 407), (f64_of_rat (360), 429), (f64_of_rat (380), 451), (f64_of_rat (400), 474),
    (f64_of_rat (4214285714285714 / 10000000000000), 498), (f64_of_rat (44375 / 100), 523),
    (f64_of_rat (4681818181818182 / 10000000000000), 551), (f64_of_rat (4944444444444444 / 10000000000000), 579),
    (f64_of_rat (5192307692307693 / 10000000000000), 608), (f64_of_rat (550), 639),
    (f64_of_rat (5766666666666666 / 10000000000000), 671), (f64_of_rat (6142857142857142 / 10000000000000), 706),
    (f64_of_rat (650), 742), (f64_of_rat (6785714285714286 / 10000000000000), 780),
    (f64_of_rat (7166666666666666 / 10000000000000), 820), (f64_of_rat (7590909090909091 / 10000000000000), 864),
    (f64_of_rat (800), 908), (f64_of_rat (8444444444444443 / 10000000000000), 954),
    (f64_of_rat (8928571428571428 / 10000000000000), 1003),
    (f64_of_rat (9416666666666666 / 10000000000000), 1054),
    (f64_of_rat (9916666666666666 / 10000000000000), 1107), (f64_of_rat (104375 / 100), 1164),
    (f64_of_rat (1100), 1224), (f64_of_rat (1175), 1289),
    (f64_of_rat (12333333333333333 / 10000000000000), 1355),
    (f64_of_rat (12916666666666665 / 10000000000000), 1423),
    (f64_of_rat (13642857142857142 / 10000000000000), 1500), (f64_of_rat (1440), 1576),
    (f64_of_rat (15166666666666665 / 10000000000000), 1658), (f64_of_rat (1600), 1741),
    (f64_of_rat (16875 / 10), 1832), (f64_of_rat (1780), 1931), (f64_of_rat (1875), 2028),
    (f64_of_rat (1975), 2132), (f64_of_rat (2083333333333333 / 1000000000000), 2240), (f64_of_rat (2200), 2356),
    (f64_of_rat (23166666666666665 / 10000000000000), 2482), (f64_of_rat (24375 / 10), 2611),
    (f64_of_rat (2575), 2744), (f64_of_rat (27166666666666665 / 10000000000000), 2896),
    (f64_of_rat (28666666666666665 / 10000000000000), 3051),
    (f64_of_rat (30166666666666665 / 10000000000000), 3205),
    (f64_of_rat (3183333333333333 / 1000000000000), 3377), (f64_of_rat (3375), 3568), (f64_of_rat (3550), 3748),
    (f64_of_rat (3750), 3953), (f64_of_rat (3950), 4158), (f64_of_rat (4175), 4389), (f64_of_rat (4400), 4620),
    (f64_of_rat (4650), 4876), (f64_of_rat (4900), 5132), (F64Fin (2 ^ 1024 - 2 ^ 971), 2 ^ 64 - 1)]"

definition find_search_sampling_over_point_distribution :: "f64 \<Rightarrow> f64 \<Rightarrow> nat option" where
  "find_search_sampling_over_point_distribution n p =
     (let target_lambda = f64_mul p n
      in if target_lambda = F64NaN then None
         else map_option snd (vec_get poisson_table
                (length (takeWhile (\<lambda>e. f64_lt (fst e) target_lambda) poisson_table))))"

definition sampling_limit :: "nat \<Rightarrow> nat option \<Rightarrow> nat \<Rightarrow> nat \<Rightarrow> nat option" where
  "sampling_limit limit ef_limit segment_points total_points =
     (if segment_points = 0 then Some 0
      else let segment_probability = f64_div (f64_of_nat segment_points) (f64_of_nat total_points)
           in map_option
                (\<lambda>poisson_sampling.
                   if poisson_sampling > limit then limit
                   else max poisson_sampling (case ef_limit of None \<Rightarrow> 0 | Some ef \<Rightarrow> ef))
                (find_search_sampling_over_point_distribution (f64_of_nat limit) segment_probability))"

section \<open>Requests and segments\<close>

datatype with_vector = WVBool bool | WVSelector "string list"

record search_params =
  hnsw_ef :: "nat option"
  sp_exact :: bool
  sp_quantization :: "(bool \<times> bool) option"

record ('q, 's) search_request =
  sr_vector_name :: string
  sr_vector :: 'q
  sr_filter :: "filter_query option"
  sr_params :: "search_params option"
  sr_limit :: nat
  sr_offset :: nat
  sr_with_payload :: "with_payload_interface option"
  sr_with_vector :: "with_vector option"
  sr_score_threshold :: "'s option"

record batch_search_params =
  bp_vector_name :: string
  bp_filter :: "filter_query option"
  bp_with_payload :: with_payload
  bp_with_vector :: with_vector
  bp_top :: nat
  bp_params :: "search_params option"

definition default_params :: batch_search_params where
  "default_params = \<lparr>bp_vector_name = [], bp_filter = None,
     bp_with_payload = \<lparr>wp_enable = False, payload_selector = None\<rparr>, bp_with_vector = WVBool False,
     bp_top = 0, bp_params = None\<rparr>"

definition request_top :: "('q, 's) search_request \<Rightarrow> nat" where
  "request_top r = usize_add (sr_limit r) (sr_offset r)"

definition request_params :: "('q, 's) search_request \<Rightarrow> batch_search_params" where
  "request_params r =
     \<lparr>bp_vector_name = sr_vector_name r, bp_filter = sr_filter r,
      bp_with_payload = with_payload_of_interface (case sr_with_payload r of None \<Rightarrow> WPBool False | Some w \<Rightarrow> w),
      bp_with_vector = (case sr_with_vector r of None \<Rightarrow> WVBool False | Some w \<Rightarrow> w),
      bp_top = request_top r, bp_params = sr_params r\<rparr>"

text \<open>
  A segment: its number of points, the \<open>ef_construct\<close> of its index for a vector name, and its batch search.
\<close>

record ('q, 's, 'n, 'v) search_segment =
  ss_points_count :: nat
  ss_ef_construct :: "string \<Rightarrow> nat option"
  ss_search_batch :: "batch_search_params \<Rightarrow> nat \<Rightarrow> 'q list \<Rightarrow> op_error + ('s, 'n, 'v) scored_point list list"

section \<open>Searching one segment\<close>

definition batch_limit ::
    "('q, 's, 'n, 'v) search_segment \<Rightarrow> nat \<Rightarrow> bool \<Rightarrow> batch_search_params \<Rightarrow> nat option" where
  "batch_limit seg total_points use_sampling params =
     (if use_sampling then
        (let ef_limit = (case Option.bind (bp_params params) hnsw_ef of
                           Some ef \<Rightarrow> Some ef
                         | None \<Rightarrow> ss_ef_construct seg (bp_vector_name params))
         in sampling_limit (bp_top params) ef_limit (ss_points_count seg) total_points)
      else Some (bp_top params))"

definition run_batch ::
    "('q, 's, 'n, 'v) search_segment \<Rightarrow> nat \<Rightarrow> bool \<Rightarrow> batch_search_params \<Rightarrow> 'q list
      \<Rightarrow> (op_error + ('s, 'n, 'v) scored_point list list \<times> bool list) option" where
  "run_batch seg total_points use_sampling prev_params vectors_batch =
     (case batch_limit seg total_points use_sampling prev_params of
        None \<Rightarrow> None
      | Some k \<Rightarrow>
          Some (result_map (\<lambda>res. (res, map (\<lambda>batch_result. length batch_result = k) res))
                  (ss_search_batch seg prev_params k vectors_batch)))"

fun search_queries ::
    "('q, 's, 'n, 'v) search_segment \<Rightarrow> nat \<Rightarrow> bool \<Rightarrow> ('q, 's) search_request list \<Rightarrow> 'q list \<Rightarrow> batch_search_params
      \<Rightarrow> (op_error + ('s, 'n, 'v) scored_point list list \<times> bool list) option" where
  "search_queries seg total_points use_sampling [] vectors_batch prev_params =
     (if vectors_batch = [] then Some (Inr ([], []))
      else run_batch seg total_points use_sampling prev_params vectors_batch)"
| "search_queries seg total_points use_sampling (query # queries) vectors_batch prev_params =
     (let params = request_params query
      in if params = prev_params then
           search_queries seg total_points use_sampling queries (vectors_batch @ [sr_vector query]) prev_params
         else if vectors_batch = [] then
           search_queries seg total_points use_sampling queries [sr_vector query] params
         else
           pbind (run_batch seg total_points use_sampling prev_params vectors_batch) (\<lambda>(res, further).
           pbind (search_queries seg total_points use_sampling queries [sr_vector query] params) (\<lambda>(res', further').
             Some (Inr (res @ res', further @ further')))))"

definition search_in_segment ::
    "('q, 's, 'n, 'v) search_segment \<Rightarrow> ('q, 's) search_request list \<Rightarrow> nat \<Rightarrow> bool
      \<Rightarrow> (op_error + ('s, 'n, 'v) scored_point list list \<times> bool list) option" where
  "search_in_segment seg requests total_points use_sampling =
     search_queries seg total_points use_sampling requests [] default_params"

section \<open>Searching all segments\<close>

fun execute_searches ::
    "(op_error + 'a \<times> 'b) option list \<Rightarrow> (op_error + 'a list \<times> 'b list) option" where
  "execute_searches [] = Some (Inr ([], []))"
| "execute_searches (s # searches) =
     pbind s (\<lambda>(r, f). pbind (execute_searches searches) (\<lambda>(rs, fs). Some (Inr (r # rs, f # fs))))"

definition update_secondary ::
    "(nat \<times> nat list) \<times> ('s::linorder, 'n, 'v) scored_point list list \<Rightarrow> ('s, 'n, 'v) batch_aggregator
      \<Rightarrow> ('s, 'n, 'v) batch_aggregator option" where
  "update_secondary x ba =
     (case x of ((segment_id, batch_ids), segments_result) \<Rightarrow>
        fold_opt (\<lambda>(batch_id, res). update_batch_results batch_id res) (zip batch_ids segments_result) ba)"

definition rerun_searches ::
    "('q, 's::linorder, 'n, 'v) search_segment list \<Rightarrow> ('q, 's) search_request list \<Rightarrow> reruns
      \<Rightarrow> ('s, 'n, 'v) batch_aggregator \<Rightarrow> (op_error + ('s, 'n, 'v) batch_aggregator) option" where
  "rerun_searches segments requests reruns ba =
     pbind (execute_searches
              (map (\<lambda>(segment_id, batch_ids).
                      search_in_segment (segments ! segment_id) (map (\<lambda>b. requests ! b) batch_ids) 0 False) reruns))
       (\<lambda>(results, _).
          map_option Inr (fold_opt update_secondary (zip reruns results) (update_point_versions results ba)))"

definition segments_search ::
    "'s \<Rightarrow> 's \<Rightarrow> ('q, 's::linorder, 'n, 'v) search_segment list \<Rightarrow> ('q, 's) search_request list \<Rightarrow> bool
      \<Rightarrow> (op_error + ('s, 'n, 'v) scored_point list list) option" where
  "segments_search smin smax segments requests sampling_enabled =
     (if segments = [] then Some (Inr [])
      else
        (let total_points = sum_list (map ss_points_count segments) mod 2 ^ 64;
             use_sampling = (sampling_enabled \<and> length segments > 1 \<and> total_points > 0)
         in pbind (execute_searches (map (\<lambda>seg. search_in_segment seg requests total_points use_sampling) segments))
              (\<lambda>(results, further).
                 (case process_search_result_step1 smin smax results (map request_top requests) further of
                    None \<Rightarrow> None
                  | Some (ba, reruns) \<Rightarrow>
                      pbind (if reruns = [] then Some (Inr ba) else rerun_searches segments requests reruns ba)
                        (\<lambda>ba. Some (Inr (into_topk ba)))))))"

section \<open>The sampling limit is positive and defined\<close>

lemma poisson_table_facts:
  "list_all (\<lambda>e. 4 \<le> snd e) poisson_table" "last poisson_table = (F64Fin (2 ^ 1024 - 2 ^ 971), 2 ^ 64 - 1)"
  subgoal unfolding poisson_table_def list.pred_inject snd_conv by simp
  subgoal unfolding poisson_table_def by (simp only: last.simps list.distinct if_False if_True refl simp_thms)
  done

lemma takeWhile_not_last: "\<lbrakk>xs \<noteq> []; \<not> P (last xs)\<rbrakk> \<Longrightarrow> length (takeWhile P xs) < length xs"
  by (induction xs) (auto split: if_splits)

lemma find_search_sampling_spec:
  assumes "f64_mul p n = F64Fin x" "x \<le> 2 ^ 1023"
  shows "\<exists>k. find_search_sampling_over_point_distribution n p = Some k \<and> 4 \<le> k"
proof -
  have ne: "poisson_table \<noteq> []"
    by (simp add: poisson_table_def)
  have "(2 :: rat) ^ 1023 \<le> 2 ^ 1024 - 2 ^ 971"
    by simp
  then have "\<not> f64_lt (fst (last poisson_table)) (F64Fin x)"
    unfolding poisson_table_facts(2) using assms(2) by simp
  then have len: "length (takeWhile (\<lambda>e. f64_lt (fst e) (F64Fin x)) poisson_table) < length poisson_table"
    (is "?i < _") by (intro takeWhile_not_last ne)
  moreover have "4 \<le> snd (poisson_table ! ?i)"
    using poisson_table_facts(1) len by (simp add: list_all_length)
  ultimately show ?thesis
    using assms(1) by (simp add: find_search_sampling_over_point_distribution_def Let_def vec_get_def)
qed

lemma sampling_limit_spec:
  assumes "0 < limit" "limit < 2 ^ 53" "points \<le> tot" "tot < 2 ^ 53"
  shows "\<exists>k. sampling_limit limit ef points tot = Some k \<and> (k = 0 \<longrightarrow> points = 0)"
proof (cases "points = 0")
  case False
  obtain p where p: "f64_div (f64_of_nat points) (f64_of_nat tot) = F64Fin p" "0 \<le> p" "p \<le> 1"
    using f64_ratio_prob [of points tot] False assms(3,4) by (auto simp: f64_is_prob_def)
  have "0 \<le> p * of_nat limit" "p * of_nat limit \<le> of_nat limit"
    using p mult_right_mono [of p 1 "of_nat limit"] by auto
  then obtain v where v: "f64_of_rat (p * of_nat limit) = F64Fin v" "v \<le> of_nat limit"
    using f64_of_rat_bounds [OF _ _ assms(2)] by blast
  have "(of_nat limit :: rat) \<le> of_nat (2 ^ 53)"
    using assms(2) by (simp only: of_nat_le_iff less_imp_le)
  then have "v \<le> 2 ^ 1023"
    using v(2) power_increasing [of 53 1023 "2 :: rat"] by (simp only: of_nat_power of_nat_numeral) linarith
  moreover have "f64_mul (F64Fin p) (f64_of_nat limit) = F64Fin v"
    using v(1) f64_of_nat_exact [OF assms(2)] by simp
  ultimately obtain k where "find_search_sampling_over_point_distribution (f64_of_nat limit) (F64Fin p) = Some k" "4 \<le> k"
    using find_search_sampling_spec by blast
  then show ?thesis
    using False p(1) assms(1) by (auto simp: sampling_limit_def)
qed (simp add: sampling_limit_def)

lemma batch_limit_spec:
  assumes "0 < bp_top params" "bp_top params < 2 ^ 53" "ss_points_count seg \<le> tot" "tot < 2 ^ 53"
  shows "\<exists>k. batch_limit seg tot use_sampling params = Some k \<and> (k = 0 \<longrightarrow> ss_points_count seg = 0)"
  using sampling_limit_spec [OF assms] assms(1) by (simp add: batch_limit_def Let_def)

section \<open>Grouping requests changes nothing\<close>

text \<open>A segment whose search is exact: for every query it returns the first points of a full ranking \<open>F\<close>.\<close>

definition exact_segment ::
    "(batch_search_params \<Rightarrow> 'q \<Rightarrow> ('s, 'n, 'v) scored_point list) \<Rightarrow> ('q, 's, 'n, 'v) search_segment \<Rightarrow> bool" where
  "exact_segment F seg \<longleftrightarrow> (\<forall>params k qs. ss_search_batch seg params k qs = Inr (map (\<lambda>q. take k (F params q)) qs))"

definition cut :: "(batch_search_params \<Rightarrow> 'q \<Rightarrow> 'a list) \<Rightarrow> (batch_search_params \<Rightarrow> nat) \<Rightarrow> ('q, 's) search_request \<Rightarrow> 'a list" where
  "cut F k r = take (k (request_params r)) (F (request_params r) (sr_vector r))"

definition cut_further ::
    "(batch_search_params \<Rightarrow> 'q \<Rightarrow> 'a list) \<Rightarrow> (batch_search_params \<Rightarrow> nat) \<Rightarrow> ('q, 's) search_request \<Rightarrow> bool" where
  "cut_further F k r \<longleftrightarrow> length (cut F k r) = k (request_params r)"

lemma search_queries_exact:
  assumes "exact_segment F seg" "\<And>r. r \<in> set requests \<Longrightarrow> batch_limit seg tot smp (request_params r) = Some (k (request_params r))"
    and "batch = [] \<or> batch_limit seg tot smp prev = Some (k prev)"
  shows "search_queries seg tot smp requests batch prev =
    Some (Inr (map (\<lambda>q. take (k prev) (F prev q)) batch @ map (cut F k) requests,
               map (\<lambda>q. length (take (k prev) (F prev q)) = k prev) batch @ map (cut_further F k) requests))"
proof -
  have run: "run_batch seg tot smp params qs = Some (Inr (map (\<lambda>q. take (k params) (F params q)) qs,
      map (\<lambda>q. length (take (k params) (F params q)) = k params) qs))"
    if "batch_limit seg tot smp params = Some (k params)" for params qs
    using assms(1) that by (simp add: run_batch_def exact_segment_def comp_def)
  show ?thesis
    using assms(2,3)
  proof (induction requests arbitrary: batch prev)
    case Nil
    then show ?case
      using run [of prev batch] by auto
  next
    case (Cons r rs)
    have r: "batch_limit seg tot smp (request_params r) = Some (k (request_params r))"
      using Cons.prems(1) by simp
    have IH: "search_queries seg tot smp rs (batch' @ [sr_vector r]) (request_params r) =
        Some (Inr (map (\<lambda>q. take (k (request_params r)) (F (request_params r) q)) (batch' @ [sr_vector r]) @ map (cut F k) rs,
          map (\<lambda>q. length (take (k (request_params r)) (F (request_params r) q)) = k (request_params r)) (batch' @ [sr_vector r])
            @ map (cut_further F k) rs))" for batch'
      using Cons.IH [of "batch' @ [sr_vector r]" "request_params r"] Cons.prems(1) r by simp
    show ?case
      using IH [of batch] IH [of "[]"] run [of prev batch] Cons.prems(2)
      by (auto simp: cut_def cut_further_def Let_def)
  qed
qed

lemma search_in_segment_exact:
  assumes "exact_segment F seg" "\<And>r. r \<in> set requests \<Longrightarrow> batch_limit seg tot smp (request_params r) = Some (k (request_params r))"
  shows "search_in_segment seg requests tot smp = Some (Inr (map (cut F k) requests, map (cut_further F k) requests))"
  using search_queries_exact [OF assms, where batch = "[]" and prev = default_params] by (simp add: search_in_segment_def)

lemma execute_searches_ok:
  "(\<And>x. x \<in> set xs \<Longrightarrow> f x = Some (Inr (g x, h x))) \<Longrightarrow> execute_searches (map f xs) = Some (Inr (map g xs, map h xs))"
  by (induction xs) auto

section \<open>The second step\<close>

type_synonym ('s, 'n, 'v) batch_update = "nat \<times> ('s, 'n, 'v) scored_point list"

definition apply_update ::
    "('s::linorder, 'n, 'v) batch_update \<Rightarrow> ('s, 'n, 'v) batch_aggregator \<Rightarrow> ('s, 'n, 'v) batch_aggregator option" where
  "apply_update = (\<lambda>(batch_id, res). update_batch_results batch_id res)"

lemma fold_update_secondary:
  "fold_opt update_secondary es ba = fold_opt apply_update (concat (map (\<lambda>e. zip (snd (fst e)) (snd e)) es)) ba"
proof (induction es arbitrary: ba)
  case (Cons e es)
  obtain i bs rs where e: "e = ((i, bs), rs)"
    by (metis prod.collapse)
  have "update_secondary e ba = fold_opt apply_update (zip bs rs) ba"
    by (simp add: update_secondary_def apply_update_def e)
  then show ?case
    using Cons e by (simp add: fold_opt_append split: option.splits)
qed simp

definition points_for :: "('s, 'n, 'v) batch_update list \<Rightarrow> nat \<Rightarrow> ('s, 'n, 'v) scored_point list" where
  "points_for us b = concat (map snd (filter (\<lambda>u. fst u = b) us))"

lemma apply_updates_spec:
  assumes "versions_fit ver (point_versions ba)" "\<forall>u \<in> set us. fst u < length (batch_aggregators ba)"
    and "\<forall>u \<in> set us. \<forall>p \<in> set (snd u). sp_version p = ver (sp_id p)"
  shows "\<exists>ba'. fold_opt apply_update us ba = Some ba'
    \<and> length (batch_aggregators ba') = length (batch_aggregators ba)
    \<and> (\<forall>b < length (batch_aggregators ba).
        batch_aggregators ba' ! b = fold sa_push (points_for us b) (batch_aggregators ba ! b))"
  using assms
proof (induction us arbitrary: ba)
  case (Cons u us)
  let ?ba1 = "ba\<lparr>batch_aggregators := (batch_aggregators ba)[fst u := fold sa_push (snd u) (batch_aggregators ba ! fst u)]\<rparr>"
  have step: "apply_update u ba = Some ?ba1"
    using Cons.prems fold_offer_point [OF Cons.prems(1), of "snd u"]
    by (cases u) (simp add: apply_update_def update_batch_results_def)
  obtain ba' where ba': "fold_opt apply_update us ?ba1 = Some ba'"
    "length (batch_aggregators ba') = length (batch_aggregators ba)"
    "\<forall>b < length (batch_aggregators ba).
        batch_aggregators ba' ! b = fold sa_push (points_for us b) (batch_aggregators ?ba1 ! b)"
    using Cons.IH [of ?ba1] Cons.prems by auto
  have "batch_aggregators ba' ! b = fold sa_push (points_for (u # us) b) (batch_aggregators ba ! b)"
    if "b < length (batch_aggregators ba)" for b
    using ba'(3) that by (cases "fst u = b") (simp_all add: points_for_def)
  then show ?case
    using step ba'(1,2) by auto
qed (simp add: points_for_def)

definition rerun_updates ::
    "(('q, 's, 'n, 'v) search_segment \<Rightarrow> batch_search_params \<Rightarrow> 'q \<Rightarrow> ('s, 'n, 'v) scored_point list)
      \<Rightarrow> ('q, 's, 'n, 'v) search_segment list \<Rightarrow> ('q, 's) search_request list \<Rightarrow> reruns \<Rightarrow> ('s, 'n, 'v) batch_update list" where
  "rerun_updates F segs reqs m =
     concat (map (\<lambda>e. map (\<lambda>b. (b, cut (F (segs ! fst e)) bp_top (reqs ! b))) (snd e)) m)"

lemma zip_map_same: "zip xs (map f xs) = map (\<lambda>x. (x, f x)) xs"
  by (induction xs) auto

lemma rerun_searches_spec:
  assumes "\<forall>seg \<in> set segs. exact_segment (F seg) seg" "reruns_wf (length segs) m"
    and "\<forall>e \<in> set m. \<forall>b \<in> set (snd e). b < length (batch_aggregators ba) \<and> b < length reqs"
    and "versions_fit ver (point_versions ba)"
    and "\<forall>u \<in> set (rerun_updates F segs reqs m). \<forall>p \<in> set (snd u). sp_version p = ver (sp_id p)"
  shows "\<exists>ba'. rerun_searches segs reqs m ba = Some (Inr ba')
    \<and> length (batch_aggregators ba') = length (batch_aggregators ba)
    \<and> (\<forall>b < length (batch_aggregators ba).
        batch_aggregators ba' ! b = fold sa_push (points_for (rerun_updates F segs reqs m) b) (batch_aggregators ba ! b))"
proof -
  let ?g = "\<lambda>e. map (\<lambda>b. cut (F (segs ! fst e)) bp_top (reqs ! b)) (snd e)"
  let ?h = "\<lambda>e. map (\<lambda>b. cut_further (F (segs ! fst e)) bp_top (reqs ! b)) (snd e)"
  have "execute_searches (map (\<lambda>(i, bs). search_in_segment (segs ! i) (map (\<lambda>b. reqs ! b) bs) 0 False) m)
      = Some (Inr (map ?g m, map ?h m))"
  proof (rule execute_searches_ok)
    fix e assume "e \<in> set m"
    then have "exact_segment (F (segs ! fst e)) (segs ! fst e)"
      using assms(1,2) by (simp add: reruns_wf_def)
    then show "(\<lambda>(i, bs). search_in_segment (segs ! i) (map (\<lambda>b. reqs ! b) bs) 0 False) e = Some (Inr (?g e, ?h e))"
      using search_in_segment_exact [of "F (segs ! fst e)" "segs ! fst e" "map (\<lambda>b. reqs ! b) (snd e)" 0 False bp_top]
      by (cases e) (simp add: batch_limit_def comp_def)
  qed
  moreover have us: "concat (map (\<lambda>e. zip (snd (fst e)) (snd e)) (zip m (map ?g m))) = rerun_updates F segs reqs m"
    by (simp add: rerun_updates_def zip_map_same comp_def)
  let ?ba = "update_point_versions (map ?g m) ba"
  have "versions_fit ver (point_versions ?ba)"
    using assms(5) by (intro versions_fit_update [OF assms(4)]) (auto simp: rerun_updates_def)
  moreover have "batch_aggregators ?ba = batch_aggregators ba"
    by (simp add: update_point_versions_def)
  moreover have "\<forall>u \<in> set (rerun_updates F segs reqs m). fst u < length (batch_aggregators ba)"
    using assms(3) by (auto simp: rerun_updates_def)
  ultimately show ?thesis
    using apply_updates_spec [of ver ?ba "rerun_updates F segs reqs m"] assms(5)
    by (auto simp: rerun_searches_def fold_update_secondary us)
qed

section \<open>The first step on results of one version per point\<close>

lemma step1_fitting:
  fixes results :: "('s::linorder, 'n, 'v) scored_point list list list"
  assumes "\<forall>l \<in> set limits. 0 < l" "\<forall>rs \<in> set results. length rs = length limits"
    and "length further = length results" "\<forall>fs \<in> set further. length fs = length limits"
    and "\<forall>rs \<in> set results. \<forall>r \<in> set rs. \<forall>p \<in> set r. sp_version p = ver (sp_id p)"
  shows "\<exists>ba m. process_search_result_step1 smin smax results limits further = Some (ba, m)
    \<and> reruns_wf (length results) m \<and> length (batch_aggregators ba) = length limits
    \<and> versions_fit ver (point_versions ba)
    \<and> (\<forall>b < length limits. \<exists>a. sa_new (limits ! b) = Some a
         \<and> batch_aggregators ba ! b = fold sa_push (concat (map (\<lambda>rs. rs ! b) results)) a)
    \<and> (\<forall>j < length results. \<forall>b. b \<in> set (reruns_of m j) \<longleftrightarrow> b < length limits
         \<and> (\<exists>low. sa_lowest (batch_aggregators ba ! b) = Some low \<and> further ! j ! b
              \<and> length (results ! j ! b) < limits ! b \<and> sp_score low \<le> lowest_of smin (results ! j ! b)))"
proof -
  let ?N = "length results" and ?B = "length limits"
  obtain as :: "('s, 'n, 'v) search_aggregator list"
    where as: "new_aggregators limits = Some as" "length as = ?B"
    "\<forall>b < ?B. sa_new (limits ! b) = Some (as ! b)"
    using new_aggregators_spec [OF assms(1)] by blast
  let ?ba0 = "\<lparr>batch_aggregators = as, point_versions = Map.empty\<rparr>"
  let ?ba = "update_point_versions results ?ba0"
  let ?s0 = "\<lparr>s1_aggregator = ?ba, s1_lowest = replicate ?N (replicate ?B smax),
    s1_retrieved = replicate ?N (replicate ?B 0)\<rparr>"
  have V: "versions_fit ver (point_versions ?ba)"
    by (rule versions_fit_update) (use assms(5) in \<open>simp_all add: versions_fit_def\<close>)
  have shape: "s1_shape ?N ?B ?s0"
    using as(2) by (simp add: s1_shape_def update_point_versions_def)
  obtain s1 where s1: "fold_opt (merge_segment_result smin) (enumerate 0 results) ?s0 = Some s1"
    "merged_all smin ?N ?B results ?s0 s1"
    using merge_all_spec [OF shape assms(2)] by blast
  then obtain m where m: "fold_opt (check_batch s1 ?N further) (enumerate 0 limits) [] = Some m" "reruns_wf ?N m"
    "\<forall>j < ?N. reruns_of m j = filter (\<lambda>b. needs_rerun s1 further (limits ! b)
          (map_option sp_score (sa_lowest (batch_aggregators (s1_aggregator s1) ! b))) b j) [0..<?B]"
    using check_all_spec [of ?N limits s1 further] assms(3,4) unfolding merged_all_def by blast
  have "batch_aggregators (s1_aggregator s1) ! b = fold sa_push (concat (map (\<lambda>rs. rs ! b) results)) (as ! b)"
    if b: "b < ?B" for b
  proof -
    have "rs ! b \<in> set rs" if "rs \<in> set results" for rs
      using assms(2) b that by simp
    then have "\<forall>p \<in> set (concat (map (\<lambda>rs. rs ! b) results)). sp_version p = ver (sp_id p)"
      using assms(5) by auto
    note offered = fold_offer_point [OF V this, of "as ! b"]
    show ?thesis
      using s1(2) b offered by (simp add: merged_all_def) (simp add: update_point_versions_def)
  qed
  then have "\<exists>a. sa_new (limits ! b) = Some a
      \<and> batch_aggregators (s1_aggregator s1) ! b = fold sa_push (concat (map (\<lambda>rs. rs ! b) results)) a" if "b < ?B" for b
    using as(3) that by blast
  moreover have "b \<in> set (reruns_of m j) \<longleftrightarrow> b < ?B
      \<and> (\<exists>low. sa_lowest (batch_aggregators (s1_aggregator s1) ! b) = Some low \<and> further ! j ! b
           \<and> length (results ! j ! b) < limits ! b \<and> sp_score low \<le> lowest_of smin (results ! j ! b))"
    if "j < ?N" for j b
    using m(3) s1(2) that unfolding merged_all_def needs_rerun_def by (auto split: option.splits)
  moreover have "versions_fit ver (point_versions (s1_aggregator s1))" "length (batch_aggregators (s1_aggregator s1)) = ?B"
    using V s1(2) by (simp_all add: merged_all_def s1_shape_def)
  moreover have "process_search_result_step1 smin smax results limits further = Some (s1_aggregator s1, m)"
    using as(1) s1(1) m(1) by (simp add: process_search_result_step1_def ba_new_def Let_def)
  ultimately show ?thesis
    using m(2) by blast
qed

lemma sa_pushed_inv:
  assumes "sa_new L = Some a"
  shows "0 < L" "pq_inv sp_score L (mset (first_by_id {} ps)) (sa_queue (fold sa_push ps a))"
proof -
  show L: "0 < L"
    using assms by (auto simp: sa_new_def pq_new_def split: if_splits)
  have a: "sa_queue a = \<lparr>pq_heap = [], pq_length = L\<rparr>" "sa_seen a = {}"
    using assms L by (auto simp: sa_new_def pq_new_def)
  show "pq_inv sp_score L (mset (first_by_id {} ps)) (sa_queue (fold sa_push ps a))"
    using pq_inv_push_all [OF pq_inv_new [OF L] L, where xs = "first_by_id {} ps"] by (simp add: fold_sa_push a)
qed

lemma first_by_id_same: "distinct (map sp_id ps) \<Longrightarrow> sp_id ` set ps \<inter> seen = {} \<Longrightarrow> first_by_id seen ps = ps"
  by (induction ps arbitrary: seen) auto

section \<open>Sampling loses nothing\<close>

text \<open>
  One request: \<open>S\<close> are the points of the sampled searches, \<open>R\<close> those of the repeated ones, \<open>G\<close> the full ranking of a
  segment and \<open>K\<close> its limit.
\<close>

lemma best_of_sample:
  fixes G :: "'g \<Rightarrow> ('s::linorder, 'n, 'v) scored_point list"
  assumes new: "sa_new L = Some a" and inj: "inj_on sp_id (set (concat (map G segs)))"
    and rank: "\<And>g. g \<in> set segs \<Longrightarrow> score_desc (G g) \<and> distinct (G g) \<and> (K g = 0 \<longrightarrow> G g = [])"
    and S: "set S = (\<Union>g \<in> set segs. set (take (K g) (G g)))" and R: "set R \<subseteq> set (concat (map G segs))"
    and rerun: "\<And>g low. \<lbrakk>g \<in> set segs; sa_lowest (fold sa_push S a) = Some low; length (take (K g) (G g)) = K g;
        length (take (K g) (G g)) < L; take (K g) (G g) \<noteq> []; sp_score low \<le> sp_score (last (take (K g) (G g)))\<rbrakk>
      \<Longrightarrow> set (take L (G g)) \<subseteq> set R"
  shows "map sp_score (sa_into_vec (fold sa_push (S @ R) a)) = top_keys L (map sp_score (remdups (concat (map G segs))))"
    "set (sa_into_vec (fold sa_push (S @ R) a)) \<subseteq> set (concat (map G segs))"
proof -
  let ?U = "concat (map G segs)" and ?D = "first_by_id {} (S @ R)" and ?S = "first_by_id {} S"
  note L = sa_pushed_inv(1) [OF new]
  have SU: "set S \<subseteq> set ?U"
    unfolding S using set_take_subset by fastforce
  have sets: "set ?D = set S \<union> set R" "set ?S = set S"
    using first_by_id_set [of "S @ R" "{}"] first_by_id_set [of S "{}"] inj_on_subset [OF inj] SU R by auto
  have dist: "distinct ?D" "distinct ?S"
    using first_by_id_distinct distinct_map by blast+
  have "L \<le> length (filter (\<lambda>x. sp_score y \<le> sp_score x) ?D)" if y: "y \<in> set ?U - set ?D" for y
  proof -
    obtain g where g: "g \<in> set segs" "y \<in> set (G g) - set ?D"
      using y by auto
    show ?thesis
    proof (rule covered_unless_rerun [OF sa_pushed_inv(2) [OF new, of S] dist(2) _ L])
      show "set ?S \<subseteq> set ?D" "y \<in> set (G g) - set ?D"
        using sets g by auto
      show "score_desc (G g)" "distinct (G g)" "K g = 0 \<Longrightarrow> G g = []" "set (take (K g) (G g)) \<subseteq> set ?S"
        using rank [OF g(1)] g(1) S sets(2) by auto
      fix low
      assume low: "pq_top (sa_queue (fold sa_push S a)) = Some low" "length (take (K g) (G g)) = K g"
        "length (take (K g) (G g)) < L" "sp_score low \<le> sp_score (last (take (K g) (G g)))"
      have "take (K g) (G g) \<noteq> []"
        using low(2) rank [OF g(1)] g(2) by (cases "G g") auto
      then show "set (take L (G g)) \<subseteq> set ?D"
        using rerun [OF g(1)] low sets(1) unfolding sa_lowest_def by blast
    qed
  qed
  then have "top_keys L (map sp_score ?D) = top_keys L (map sp_score (remdups ?U))"
    using dist(1) sets(1) SU R by (intro top_keys_reduced) auto
  moreover note q = sa_pushed_inv(2) [OF new, of "S @ R"]
  ultimately show "map sp_score (sa_into_vec (fold sa_push (S @ R) a)) = top_keys L (map sp_score (remdups ?U))"
    using pq_inv_keys [OF q] unfolding sa_into_vec_def by (simp only:)
  show "set (sa_into_vec (fold sa_push (S @ R) a)) \<subseteq> set ?U"
    using pq_inv_heap(4) [OF q] sets(1) SU R by (auto simp: sa_into_vec_def pq_into_vec_def)
qed

definition full ::
    "(('q, 's, 'n, 'v) search_segment \<Rightarrow> batch_search_params \<Rightarrow> 'q \<Rightarrow> 'a list)
      \<Rightarrow> ('q, 's) search_request \<Rightarrow> ('q, 's, 'n, 'v) search_segment \<Rightarrow> 'a list" where
  "full F r seg = F seg (request_params r) (sr_vector r)"

text \<open>
  What the search relies on: every segment answers with the first points of a ranking by decreasing score, a point
  is in one version, and copies of a point in several segments are equal; the limits and the number of points are in
  the range in which a double is exact.
\<close>

definition ranked_segment ::
    "(('q, 's::linorder, 'n, 'v) search_segment \<Rightarrow> batch_search_params \<Rightarrow> 'q \<Rightarrow> ('s, 'n, 'v) scored_point list)
      \<Rightarrow> (point_id \<Rightarrow> seq_number) \<Rightarrow> ('q, 's) search_request list \<Rightarrow> ('q, 's, 'n, 'v) search_segment \<Rightarrow> bool" where
  "ranked_segment F ver reqs seg \<longleftrightarrow> exact_segment (F seg) seg
     \<and> (\<forall>r \<in> set reqs. score_desc (full F r seg) \<and> distinct (full F r seg)
          \<and> (\<forall>p \<in> set (full F r seg). sp_version p = ver (sp_id p))
          \<and> (ss_points_count seg = 0 \<longrightarrow> full F r seg = []))"

definition search_world ::
    "(('q, 's::linorder, 'n, 'v) search_segment \<Rightarrow> batch_search_params \<Rightarrow> 'q \<Rightarrow> ('s, 'n, 'v) scored_point list)
      \<Rightarrow> (point_id \<Rightarrow> seq_number) \<Rightarrow> ('q, 's, 'n, 'v) search_segment list \<Rightarrow> ('q, 's) search_request list \<Rightarrow> bool" where
  "search_world F ver segs reqs \<longleftrightarrow>
     (\<forall>seg \<in> set segs. ranked_segment F ver reqs seg)
     \<and> (\<forall>r \<in> set reqs. inj_on sp_id (set (concat (map (full F r) segs))) \<and> 0 < request_top r \<and> request_top r < 2 ^ 53)
     \<and> sum_list (map ss_points_count segs) < 2 ^ 53"

definition limit_of :: "('q, 's, 'n, 'v) search_segment list \<Rightarrow> bool \<Rightarrow> ('q, 's, 'n, 'v) search_segment
      \<Rightarrow> batch_search_params \<Rightarrow> nat" where
  "limit_of segs smp seg params = (case batch_limit seg (sum_list (map ss_points_count segs)) smp params of Some k \<Rightarrow> k | None \<Rightarrow> 0)"

lemma first_searches:
  fixes segs :: "('q, 's::linorder, 'n, 'v) search_segment list" and smp :: bool
  assumes "search_world F ver segs reqs"
  defines "K \<equiv> limit_of segs smp"
  shows "execute_searches (map (\<lambda>seg. search_in_segment seg reqs (sum_list (map ss_points_count segs)) smp) segs)
      = Some (Inr (map (\<lambda>seg. map (cut (F seg) (K seg)) reqs) segs, map (\<lambda>seg. map (cut_further (F seg) (K seg)) reqs) segs))"
    and "\<lbrakk>seg \<in> set segs; r \<in> set reqs; K seg (request_params r) = 0\<rbrakk> \<Longrightarrow> full F r seg = []"
proof -
  let ?tot = "sum_list (map ss_points_count segs)"
  have lim: "batch_limit seg ?tot smp (request_params r) = Some (K seg (request_params r))
      \<and> (K seg (request_params r) = 0 \<longrightarrow> ss_points_count seg = 0)" if "seg \<in> set segs" "r \<in> set reqs" for seg r
  proof -
    have "ss_points_count seg \<le> ?tot"
      using member_le_sum_list [of "ss_points_count seg" "map ss_points_count segs"] that(1) by simp
    moreover have "0 < bp_top (request_params r)" "bp_top (request_params r) < 2 ^ 53" "?tot < 2 ^ 53"
      using assms(1) that(2) unfolding search_world_def request_params_def by simp_all
    ultimately show ?thesis
      using batch_limit_spec [of "request_params r" seg ?tot smp] unfolding K_def limit_of_def by auto
  qed
  show "execute_searches (map (\<lambda>seg. search_in_segment seg reqs ?tot smp) segs)
      = Some (Inr (map (\<lambda>seg. map (cut (F seg) (K seg)) reqs) segs, map (\<lambda>seg. map (cut_further (F seg) (K seg)) reqs) segs))"
    using lim assms(1) unfolding search_world_def ranked_segment_def
    by (intro execute_searches_ok search_in_segment_exact) blast+
  show "\<lbrakk>seg \<in> set segs; r \<in> set reqs; K seg (request_params r) = 0\<rbrakk> \<Longrightarrow> full F r seg = []"
    using lim assms(1) unfolding search_world_def ranked_segment_def by blast
qed

lemma in_reruns_of:
  "reruns_wf N m \<Longrightarrow> b \<in> set (reruns_of m j) \<longleftrightarrow> (\<exists>e \<in> set m. fst e = j \<and> b \<in> set (snd e))"
  unfolding reruns_of_def reruns_wf_def by (force dest: map_of_SomeD simp: map_of_eq_None_iff split: option.splits)

lemma cut_top: "cut (F seg) bp_top r = take (request_top r) (full F r seg)"
  by (simp add: cut_def full_def request_params_def)

lemma in_rerun_points:
  assumes "reruns_wf (length segs) m"
  shows "x \<in> set (points_for (rerun_updates F segs reqs m) b) \<longleftrightarrow>
    (\<exists>j < length segs. b \<in> set (reruns_of m j) \<and> x \<in> set (take (request_top (reqs ! b)) (full F (reqs ! b) (segs ! j))))"
proof -
  have "x \<in> set (points_for (rerun_updates F segs reqs m) b) \<longleftrightarrow>
      (\<exists>e \<in> set m. b \<in> set (snd e) \<and> x \<in> set (cut (F (segs ! fst e)) bp_top (reqs ! b)))"
    unfolding points_for_def rerun_updates_def by (induction m) (auto simp: filter_map)
  moreover have "\<forall>e \<in> set m. fst e < length segs"
    using assms by (simp add: reruns_wf_def)
  ultimately show ?thesis
    unfolding in_reruns_of [OF assms] cut_top by blast
qed

lemma cut_full: "cut (F seg) (K seg) r = take (K seg (request_params r)) (full F r seg)"
  by (simp add: cut_def full_def)

text \<open>The first step for the limits \<open>K\<close>.\<close>

lemma first_step:
  fixes segs :: "('q, 's::linorder, 'n, 'v) search_segment list"
  assumes "search_world F ver segs reqs"
  defines "sample \<equiv> \<lambda>K r seg. cut (F seg) (K seg) r"
  shows "\<exists>ba m. process_search_result_step1 smin smax (map (\<lambda>seg. map (cut (F seg) (K seg)) reqs) segs) (map request_top reqs)
        (map (\<lambda>seg. map (cut_further (F seg) (K seg)) reqs) segs) = Some (ba, m)
    \<and> reruns_wf (length segs) m \<and> length (batch_aggregators ba) = length reqs \<and> versions_fit ver (point_versions ba)
    \<and> (\<forall>b < length reqs. \<exists>a. sa_new (request_top (reqs ! b)) = Some a
         \<and> batch_aggregators ba ! b = fold sa_push (concat (map (sample K (reqs ! b)) segs)) a)
    \<and> (\<forall>j < length segs. \<forall>b. b \<in> set (reruns_of m j) \<longleftrightarrow> b < length reqs
         \<and> (\<exists>low. sa_lowest (batch_aggregators ba ! b) = Some low \<and> cut_further (F (segs ! j)) (K (segs ! j)) (reqs ! b)
              \<and> length (sample K (reqs ! b) (segs ! j)) < request_top (reqs ! b)
              \<and> sp_score low \<le> lowest_of smin (sample K (reqs ! b) (segs ! j))))"
proof -
  let ?results = "map (\<lambda>seg. map (cut (F seg) (K seg)) reqs) segs"
  let ?further = "map (\<lambda>seg. map (cut_further (F seg) (K seg)) reqs) segs"
  let ?limits = "map request_top reqs"
  have "sp_version p = ver (sp_id p)"
    if "seg \<in> set segs" "r \<in> set reqs" "p \<in> set (cut (F seg) (K seg) r)" for seg r p
    using assms(1) that in_set_takeD unfolding search_world_def ranked_segment_def cut_full by fast
  then have fit: "\<forall>rs \<in> set ?results. \<forall>r \<in> set rs. \<forall>p \<in> set r. sp_version p = ver (sp_id p)"
    by auto
  have "\<forall>l \<in> set ?limits. 0 < l"
    using assms(1) unfolding search_world_def by simp
  then obtain ba m where s1: "process_search_result_step1 smin smax ?results ?limits ?further = Some (ba, m)"
      "reruns_wf (length segs) m" "length (batch_aggregators ba) = length reqs" "versions_fit ver (point_versions ba)"
    and agg: "\<forall>b < length reqs. \<exists>a. sa_new (?limits ! b) = Some a
         \<and> batch_aggregators ba ! b = fold sa_push (concat (map (\<lambda>rs. rs ! b) ?results)) a"
    and need: "\<forall>j < length segs. \<forall>b. b \<in> set (reruns_of m j) \<longleftrightarrow> b < length reqs
         \<and> (\<exists>low. sa_lowest (batch_aggregators ba ! b) = Some low \<and> ?further ! j ! b
              \<and> length (?results ! j ! b) < ?limits ! b \<and> sp_score low \<le> lowest_of smin (?results ! j ! b))"
    using step1_fitting [OF _ _ _ _ fit, of ?limits ?further smin smax] by auto
  have rows: "map (\<lambda>rs. rs ! b) ?results = map (sample K (reqs ! b)) segs" "?limits ! b = request_top (reqs ! b)"
    if "b < length reqs" for b
    using that by (simp_all add: sample_def)
  have cells: "?further ! j ! b = cut_further (F (segs ! j)) (K (segs ! j)) (reqs ! b)"
    "?results ! j ! b = sample K (reqs ! b) (segs ! j)" if "j < length segs" "b < length reqs" for j b
    using that by (simp_all add: sample_def)
  have "\<exists>a. sa_new (request_top (reqs ! b)) = Some a
      \<and> batch_aggregators ba ! b = fold sa_push (concat (map (sample K (reqs ! b)) segs)) a" if "b < length reqs" for b
    using agg that unfolding rows [OF that, symmetric] by blast
  moreover have "b \<in> set (reruns_of m j) \<longleftrightarrow> b < length reqs
      \<and> (\<exists>low. sa_lowest (batch_aggregators ba ! b) = Some low \<and> cut_further (F (segs ! j)) (K (segs ! j)) (reqs ! b)
           \<and> length (sample K (reqs ! b) (segs ! j)) < request_top (reqs ! b)
           \<and> sp_score low \<le> lowest_of smin (sample K (reqs ! b) (segs ! j)))" if "j < length segs" for j b
    using need that cells [OF that, of b] rows(2) [of b] by (cases "b < length reqs") simp_all
  ultimately show ?thesis
    using s1 by blast
qed

text \<open>The second step, with nothing to repeat as a special case.\<close>

lemma second_step:
  fixes segs :: "('q, 's::linorder, 'n, 'v) search_segment list"
  assumes "search_world F ver segs reqs" "reruns_wf (length segs) m" "length (batch_aggregators ba) = length reqs"
    and "versions_fit ver (point_versions ba)" "\<forall>j < length segs. \<forall>b \<in> set (reruns_of m j). b < length reqs"
  shows "\<exists>ba'. (if m = [] then Some (Inr ba) else rerun_searches segs reqs m ba) = Some (Inr ba')
    \<and> length (batch_aggregators ba') = length reqs
    \<and> (\<forall>b < length reqs. batch_aggregators ba' ! b =
        fold sa_push (points_for (rerun_updates F segs reqs m) b) (batch_aggregators ba ! b))"
proof (cases "m = []")
  case True
  then show ?thesis
    using assms(3) by (auto simp: rerun_updates_def points_for_def)
next
  case False
  have "\<forall>seg \<in> set segs. exact_segment (F seg) seg"
    using assms(1) unfolding search_world_def ranked_segment_def by blast
  moreover have bs: "\<forall>e \<in> set m. fst e < length segs \<and> (\<forall>b \<in> set (snd e). b < length reqs)"
    using assms(2,5) in_reruns_of [OF assms(2)] unfolding reruns_wf_def by blast
  moreover have "\<forall>p \<in> set (snd u). sp_version p = ver (sp_id p)" if u0: "u \<in> set (rerun_updates F segs reqs m)" for u
  proof -
    obtain e b where u: "e \<in> set m" "b \<in> set (snd e)" "u = (b, cut (F (segs ! fst e)) bp_top (reqs ! b))"
      using u0 unfolding rerun_updates_def set_concat set_map UN_iff image_iff bex_simps by blast
    then have "segs ! fst e \<in> set segs" "reqs ! b \<in> set reqs"
      using bs by auto
    then have "\<forall>p \<in> set (full F (reqs ! b) (segs ! fst e)). sp_version p = ver (sp_id p)"
      using assms(1) unfolding search_world_def ranked_segment_def by blast
    then show ?thesis
      unfolding u(3) cut_top by (auto dest: in_set_takeD)
  qed
  ultimately show ?thesis
    using rerun_searches_spec [of segs F m ba reqs ver] assms(2-4) False by auto
qed

lemma request_exact:
  fixes segs :: "('q, 's::linorder, 'n, 'v) search_segment list"
  assumes "search_world F ver segs reqs" "b < length reqs"
    and "\<And>seg r. \<lbrakk>seg \<in> set segs; r \<in> set reqs; K seg (request_params r) = 0\<rbrakk> \<Longrightarrow> full F r seg = []"
    and "reruns_wf (length segs) m" "sa_new (request_top (reqs ! b)) = Some a"
  defines "S \<equiv> concat (map (\<lambda>seg. cut (F seg) (K seg) (reqs ! b)) segs)"
    and "R \<equiv> points_for (rerun_updates F segs reqs m) b"
  assumes "\<And>j low. \<lbrakk>j < length segs; sa_lowest (fold sa_push S a) = Some low; cut_further (F (segs ! j)) (K (segs ! j)) (reqs ! b);
      length (cut (F (segs ! j)) (K (segs ! j)) (reqs ! b)) < request_top (reqs ! b);
      sp_score low \<le> lowest_of smin (cut (F (segs ! j)) (K (segs ! j)) (reqs ! b))\<rbrakk> \<Longrightarrow> b \<in> set (reruns_of m j)"
  shows "map sp_score (sa_into_vec (fold sa_push R (fold sa_push S a))) =
      top_keys (request_top (reqs ! b)) (map sp_score (remdups (concat (map (full F (reqs ! b)) segs))))"
    "set (sa_into_vec (fold sa_push R (fold sa_push S a))) \<subseteq> set (concat (map (full F (reqs ! b)) segs))"
proof -
  let ?r = "reqs ! b" and ?K = "\<lambda>seg. K seg (request_params (reqs ! b))"
  have r: "?r \<in> set reqs"
    using assms(2) by simp
  have inj: "inj_on sp_id (set (concat (map (full F ?r) segs)))"
    using assms(1) r unfolding search_world_def by blast
  have rank: "score_desc (full F ?r g) \<and> distinct (full F ?r g) \<and> (?K g = 0 \<longrightarrow> full F ?r g = [])"
    if "g \<in> set segs" for g
    using assms(1) assms(3) [OF that r] that r unfolding search_world_def ranked_segment_def by blast
  have S: "set S = (\<Union>g \<in> set segs. set (take (?K g) (full F ?r g)))"
    unfolding S_def cut_full by simp
  have R: "set R \<subseteq> set (concat (map (full F ?r) segs))"
    unfolding R_def using in_rerun_points [OF assms(4)] in_set_takeD nth_mem by fastforce
  have rerun: "set (take (request_top ?r) (full F ?r g)) \<subseteq> set R"
    if g: "g \<in> set segs" and "sa_lowest (fold sa_push S a) = Some low" "length (take (?K g) (full F ?r g)) = ?K g"
      "length (take (?K g) (full F ?r g)) < request_top ?r" "take (?K g) (full F ?r g) \<noteq> []"
      "sp_score low \<le> sp_score (last (take (?K g) (full F ?r g)))" for g low
  proof -
    obtain j where j: "j < length segs" "g = segs ! j"
      using g by (metis in_set_conv_nth)
    then have "b \<in> set (reruns_of m j)"
      using assms(8) [of j low] that unfolding cut_further_def cut_full lowest_of_def by simp
    then show ?thesis
      unfolding R_def using in_rerun_points [OF assms(4)] j by blast
  qed
  show "map sp_score (sa_into_vec (fold sa_push R (fold sa_push S a))) =
      top_keys (request_top ?r) (map sp_score (remdups (concat (map (full F ?r) segs))))"
    "set (sa_into_vec (fold sa_push R (fold sa_push S a))) \<subseteq> set (concat (map (full F ?r) segs))"
    using best_of_sample [OF assms(5) inj rank S R rerun] by simp_all
qed

text \<open>
  C1. Sampling loses nothing. A search over several segments asks each of them for fewer points than the request wants,
  in proportion to its size, and repeats a search where the sample may have cut too early. When the segments rank
  their points exactly, the two steps return, for every request of the batch, the best scores over all segments, and
  only points of the segments, whatever the sampling limits were: with or without sampling the answer is the same. The
  search returns: no index is out of range, no empty queue is made, and the table of sampling factors always has an entry.\<close>

theorem segments_search_exact:
  fixes segs :: "('q, 's::linorder, 'n, 'v) search_segment list"
  assumes "search_world F ver segs reqs" "segs \<noteq> []"
  shows "\<exists>res. segments_search smin smax segs reqs sampling_enabled = Some (Inr res) \<and> length res = length reqs
    \<and> (\<forall>b < length reqs.
         map sp_score (res ! b) =
           top_keys (request_top (reqs ! b)) (map sp_score (remdups (concat (map (full F (reqs ! b)) segs))))
         \<and> set (res ! b) \<subseteq> set (concat (map (full F (reqs ! b)) segs)))"
proof -
  let ?tot = "sum_list (map ss_points_count segs)"
  let ?smp = "sampling_enabled \<and> length segs > 1 \<and> ?tot > 0"
  define K where "K = limit_of segs ?smp"
  note first = first_searches [OF assms(1), where smp = ?smp, folded K_def]
  obtain ba m where s1: "process_search_result_step1 smin smax (map (\<lambda>seg. map (cut (F seg) (K seg)) reqs) segs)
        (map request_top reqs) (map (\<lambda>seg. map (cut_further (F seg) (K seg)) reqs) segs) = Some (ba, m)"
      "reruns_wf (length segs) m" "length (batch_aggregators ba) = length reqs" "versions_fit ver (point_versions ba)"
    and agg: "\<forall>b < length reqs. \<exists>a. sa_new (request_top (reqs ! b)) = Some a
         \<and> batch_aggregators ba ! b = fold sa_push (concat (map (\<lambda>seg. cut (F seg) (K seg) (reqs ! b)) segs)) a"
    and need: "\<forall>j < length segs. \<forall>b. b \<in> set (reruns_of m j) \<longleftrightarrow> b < length reqs
         \<and> (\<exists>low. sa_lowest (batch_aggregators ba ! b) = Some low \<and> cut_further (F (segs ! j)) (K (segs ! j)) (reqs ! b)
              \<and> length (cut (F (segs ! j)) (K (segs ! j)) (reqs ! b)) < request_top (reqs ! b)
              \<and> sp_score low \<le> lowest_of smin (cut (F (segs ! j)) (K (segs ! j)) (reqs ! b)))"
    using first_step [OF assms(1), of smin smax K] by blast
  obtain ba' where ba': "(if m = [] then Some (Inr ba) else rerun_searches segs reqs m ba) = Some (Inr ba')"
    "length (batch_aggregators ba') = length reqs"
    "\<forall>b < length reqs. batch_aggregators ba' ! b =
      fold sa_push (points_for (rerun_updates F segs reqs m) b) (batch_aggregators ba ! b)"
    using second_step [OF assms(1) s1(2-4)] need by blast
  have "map sp_score (into_topk ba' ! b) =
         top_keys (request_top (reqs ! b)) (map sp_score (remdups (concat (map (full F (reqs ! b)) segs))))
       \<and> set (into_topk ba' ! b) \<subseteq> set (concat (map (full F (reqs ! b)) segs))" if b: "b < length reqs" for b
  proof -
    obtain a where a: "sa_new (request_top (reqs ! b)) = Some a"
      "batch_aggregators ba ! b = fold sa_push (concat (map (\<lambda>seg. cut (F seg) (K seg) (reqs ! b)) segs)) a"
      using agg b by blast
    note exact = request_exact [where K = K and m = m and smin = smin, OF assms(1) b first(2) s1(2) a(1), folded a(2)]
    have "into_topk ba' ! b = sa_into_vec (fold sa_push (points_for (rerun_updates F segs reqs m) b) (batch_aggregators ba ! b))"
      using ba'(2,3) b by (simp add: into_topk_def)
    moreover have "b \<in> set (reruns_of m j)"
      if "j < length segs" "sa_lowest (batch_aggregators ba ! b) = Some low"
        "cut_further (F (segs ! j)) (K (segs ! j)) (reqs ! b)"
        "length (cut (F (segs ! j)) (K (segs ! j)) (reqs ! b)) < request_top (reqs ! b)"
        "sp_score low \<le> lowest_of smin (cut (F (segs ! j)) (K (segs ! j)) (reqs ! b))" for j low
      using need that b by blast
    ultimately show ?thesis
      using exact by (simp only: simp_thms)
  qed
  moreover have "?tot mod 2 ^ 64 = ?tot"
    using assms(1) by (simp add: search_world_def)
  ultimately show ?thesis
    using first(1) s1(1) ba'(1,2) assms(2) by (auto simp: segments_search_def Let_def into_topk_def)
qed

theorem segments_search_exact_witness:
  "\<exists>res. segments_search 0 (9 :: nat)
     (map (\<lambda>ps. \<lparr>ss_points_count = length ps, ss_ef_construct = (\<lambda>_. None),
                 ss_search_batch = (\<lambda>_ k qs. Inr (map (\<lambda>_. take k ps) qs))\<rparr>)
       [[\<lparr>sp_id = NumId 1, sp_version = 3, sp_score = 5, sp_payload = (None :: unit payload option), sp_vector = (None :: unit option)\<rparr>],
        [\<lparr>sp_id = NumId 2, sp_version = 4, sp_score = 7, sp_payload = None, sp_vector = None\<rparr>,
         \<lparr>sp_id = NumId 3, sp_version = 5, sp_score = 1, sp_payload = None, sp_vector = None\<rparr>]])
     [\<lparr>sr_vector_name = [], sr_vector = (), sr_filter = None, sr_params = None, sr_limit = 2, sr_offset = 0,
       sr_with_payload = None, sr_with_vector = None, sr_score_threshold = None\<rparr>] True = Some (Inr [res])
   \<and> map sp_score res = [7, 5]"
proof -
  let ?seg = "\<lambda>ps :: (nat, unit, unit) scored_point list. \<lparr>ss_points_count = length ps, ss_ef_construct = (\<lambda>_ :: string. None :: nat option),
     ss_search_batch = (\<lambda>(_ :: batch_search_params) k (qs :: unit list). Inr (map (\<lambda>_. take k ps) qs) :: op_error + _)\<rparr>"
  let ?p = "\<lambda>i v s. \<lparr>sp_id = NumId i, sp_version = v, sp_score = s :: nat, sp_payload = None :: unit payload option, sp_vector = None :: unit option\<rparr>"
  let ?r = "\<lparr>sr_vector_name = [], sr_vector = (), sr_filter = None, sr_params = None, sr_limit = 2, sr_offset = 0,
    sr_with_payload = None, sr_with_vector = None, sr_score_threshold = None :: nat option\<rparr>"
  let ?A = "[?p 1 3 5]" and ?B = "[?p 2 4 7, ?p 3 5 1]"
  let ?F = "\<lambda>seg (_ :: batch_search_params) (_ :: unit). if ss_points_count seg = 1 then ?A else ?B"
  have top: "request_top ?r = 2"
    by (simp add: request_top_def usize_add_def)
  have fulls: "full ?F ?r (?seg ?A) = ?A" "full ?F ?r (?seg ?B) = ?B"
    by (simp_all add: full_def)
  have "ranked_segment ?F (\<lambda>i. if i = NumId 1 then 3 else if i = NumId 2 then 4 else 5) [?r] (?seg ?A)"
    "ranked_segment ?F (\<lambda>i. if i = NumId 1 then 3 else if i = NumId 2 then 4 else 5) [?r] (?seg ?B)"
    using fulls by (simp_all add: ranked_segment_def exact_segment_def score_desc_def)
  then have "search_world ?F (\<lambda>i. if i = NumId 1 then 3 else if i = NumId 2 then 4 else 5) (map ?seg [?A, ?B]) [?r]"
    using fulls top by (simp add: search_world_def)
  then obtain res where res: "segments_search 0 9 (map ?seg [?A, ?B]) [?r] True = Some (Inr res)" "length res = 1"
    "map sp_score (res ! 0) = top_keys 2 (map sp_score (remdups (?A @ ?B)))"
    using segments_search_exact [of ?F _ "map ?seg [?A, ?B]" "[?r]" 0 9 True] fulls top by auto
  then show ?thesis
    by (intro exI [of _ "res ! 0"]) (cases res; simp add: top_keys_def)
qed

end
