(* ===== verification/Chunked_Vectors.thy ===== *)
theory Chunked_Vectors
  imports Key_Encoding Rust_Text
begin

text \<open>
  The chunked vector container (\<open>lib/segment/src/vector_storage/chunked_vectors.rs\<close>): vectors of one dimension
  stored one after the other in chunks of a fixed number of vectors. A panic (index out of range, a slice of the
  wrong length, a division by zero) is \<open>None\<close>; the loop that adds chunks is a partial function, so that running
  forever is \<open>None\<close> as well. The file of a quantised container is a parameter.
\<close>

section \<open>State and operations\<close>

record 'a chunked_vectors =
  cv_dim :: nat
  cv_len :: nat
  cv_capacity :: nat
  cv_chunks :: "'a list list"

definition CHUNK_SIZE :: nat where "CHUNK_SIZE = 32 * 1024 * 1024"
definition MIN_CHUNK_CAPACITY :: nat where "MIN_CHUNK_CAPACITY = 16"

definition cv_new :: "nat \<Rightarrow> nat \<Rightarrow> 'a chunked_vectors option" where
  "cv_new size_of vdim =
     (if vdim = 0 then None
      else let vector_size = usize_mul vdim size_of
           in if vector_size = 0 then None
              else Some \<lparr>cv_dim = vdim, cv_len = 0, cv_capacity = max MIN_CHUNK_CAPACITY (CHUNK_SIZE div vector_size),
                         cv_chunks = []\<rparr>)"

text \<open>A range of a slice; a range that is not inside panics.\<close>

definition slice_range :: "'a list \<Rightarrow> nat \<Rightarrow> nat \<Rightarrow> 'a list option" where
  "slice_range xs i j = (if i \<le> j \<and> j \<le> length xs then Some (take (j - i) (drop i xs)) else None)"

definition cv_get :: "'a chunked_vectors \<Rightarrow> nat \<Rightarrow> 'a list option" where
  "cv_get c key =
     (if cv_capacity c = 0 then None
      else case vec_get (cv_chunks c) (key div cv_capacity c) of
             None \<Rightarrow> None
           | Some chunk_data \<Rightarrow>
               (let idx = usize_mul (key mod cv_capacity c) (cv_dim c)
                in slice_range chunk_data idx (usize_add idx (cv_dim c))))"

partial_function (option) grow_chunks :: "nat \<Rightarrow> nat \<Rightarrow> 'a list list \<Rightarrow> 'a list list option" where
  "grow_chunks capacity len chunks =
     (if usize_mul (length chunks) capacity < len then grow_chunks capacity len (chunks @ [[]]) else Some chunks)"

definition write_row :: "'a \<Rightarrow> nat \<Rightarrow> nat \<Rightarrow> 'a list \<Rightarrow> 'a list \<Rightarrow> 'a list" where
  "write_row zero vdim idx vector chunk_data =
     (let data = (if length chunk_data < usize_add idx vdim then vec_resize (usize_add idx vdim) zero chunk_data else chunk_data)
      in take idx data @ vector @ drop (usize_add idx vdim) data)"

definition cv_insert :: "'a \<Rightarrow> nat \<Rightarrow> 'a list \<Rightarrow> 'a chunked_vectors \<Rightarrow> 'a chunked_vectors option" where
  "cv_insert zero key vector c =
     (let len = max (cv_len c) (usize_add key 1)
      in Option.bind (grow_chunks (cv_capacity c) len (cv_chunks c)) (\<lambda>chunks.
           if cv_capacity c = 0 \<or> length vector \<noteq> cv_dim c then None
           else Option.bind (vec_get chunks (key div cv_capacity c)) (\<lambda>chunk_data.
             Some (c\<lparr>cv_len := len,
                     cv_chunks := chunks[key div cv_capacity c :=
                       write_row zero (cv_dim c) (usize_mul (key mod cv_capacity c) (cv_dim c)) vector chunk_data]\<rparr>))))"

definition cv_push :: "'a \<Rightarrow> 'a list \<Rightarrow> 'a chunked_vectors \<Rightarrow> (nat \<times> 'a chunked_vectors) option" where
  "cv_push zero vector c =
     (let new_id = cv_len c mod 2 ^ 32 in map_option (Pair new_id) (cv_insert zero new_id vector c))"

section \<open>Rows of a chunk\<close>

definition row :: "nat \<Rightarrow> nat \<Rightarrow> 'a list \<Rightarrow> 'a list option" where
  "row vdim q ch = (if q * vdim + vdim \<le> length ch then Some (take vdim (drop (q * vdim) ch)) else None)"

lemma row_cong:
  assumes "q * vdim + vdim \<le> length a \<longleftrightarrow> q * vdim + vdim \<le> length b"
    and "\<And>i. \<lbrakk>i < vdim; q * vdim + vdim \<le> length a; q * vdim + vdim \<le> length b\<rbrakk> \<Longrightarrow> a ! (q * vdim + i) = b ! (q * vdim + i)"
  shows "row vdim q a = row vdim q b"
  using assms by (auto simp: row_def intro!: nth_equalityI)

lemma row_write:
  assumes "0 < vdim" "vdim dvd length ch" "length vector = vdim" "r * vdim + vdim < 2 ^ 64"
  shows "row vdim q (write_row zero vdim (r * vdim) vector ch) =
    (if q = r then Some vector
     else case row vdim q ch of Some w \<Rightarrow> Some w | None \<Rightarrow> if q < r then Some (replicate vdim zero) else None)"
proof -
  let ?data = "if length ch < r * vdim + vdim then vec_resize (r * vdim + vdim) zero ch else ch"
  have w: "write_row zero vdim (r * vdim) vector ch = take (r * vdim) ?data @ vector @ drop (r * vdim + vdim) ?data"
    using assms(4) by (simp add: write_row_def)
  have data: "r * vdim + vdim \<le> length ?data" "length ?data = max (length ch) (r * vdim + vdim)"
    by auto
  have len: "length (write_row zero vdim (r * vdim) vector ch) = length ?data"
    unfolding w using data(1) assms(3) by simp
  have nth: "write_row zero vdim (r * vdim) vector ch ! i = ?data ! i"
    if "i < r * vdim \<or> r * vdim + vdim \<le> i" "i < length ?data" for i
    unfolding w using that data(1) assms(3) by (auto simp: nth_append)
  consider "q = r" | "q < r" | "r < q"
    by linarith
  then show ?thesis
  proof cases
    case 1
    then show ?thesis
      using data(1) assms(3) len unfolding row_def w by simp
  next
    case 2
    then have qr: "q * vdim + vdim \<le> r * vdim"
      using mult_le_mono1 [of "Suc q" r vdim] by simp
    obtain k where k: "length ch = vdim * k"
      using assms(2) by blast
    have gap: "length ch \<le> q * vdim" if "\<not> q * vdim + vdim \<le> length ch"
    proof -
      have "\<not> Suc q * vdim \<le> k * vdim"
        using that by (simp add: k algebra_simps)
      then have "\<not> Suc q \<le> k"
        using mult_le_mono1 by blast
      then have "k \<le> q"
        by simp
      then show ?thesis
        using k by simp
    qed
    show ?thesis
      using 2 qr gap data len nth by (auto simp: row_def nth_vec_resize not_le intro!: nth_equalityI)
  next
    case 3
    then have rq: "r * vdim + vdim \<le> q * vdim"
      using mult_le_mono1 [of "Suc r" q vdim] by simp
    have "row vdim q (write_row zero vdim (r * vdim) vector ch) = row vdim q ch"
      using rq data len nth assms(1) by (intro row_cong) auto
    then show ?thesis
      using 3 by (simp split: option.splits)
  qed
qed

section \<open>Invariant\<close>

text \<open>
  The offsets of a container stay below the range of \<open>usize\<close>, the chunks are those the length needs, and every
  chunk holds whole vectors.
\<close>

definition cv_wf :: "'a chunked_vectors \<Rightarrow> bool" where
  "cv_wf c \<longleftrightarrow> 0 < cv_dim c \<and> 0 < cv_capacity c \<and> cv_capacity c * cv_dim c < 2 ^ 64 \<and> cv_capacity c < 2 ^ 63
     \<and> cv_len c \<le> 2 ^ 32
     \<and> cv_len c \<le> length (cv_chunks c) * cv_capacity c \<and> length (cv_chunks c) * cv_capacity c < cv_len c + cv_capacity c
     \<and> (\<forall>ch \<in> set (cv_chunks c). cv_dim c dvd length ch \<and> length ch \<le> cv_capacity c * cv_dim c)"

lemma cv_wf_new:
  assumes "cv_new size_of vdim = Some c" "vdim * size_of < 2 ^ 60"
  shows "cv_wf c" "cv_dim c = vdim" "cv_len c = 0" "cv_chunks c = []"
proof -
  let ?v = "usize_mul vdim size_of"
  have c: "c = \<lparr>cv_dim = vdim, cv_len = 0, cv_capacity = max MIN_CHUNK_CAPACITY (CHUNK_SIZE div ?v), cv_chunks = []\<rparr>"
    and v: "vdim \<noteq> 0" "?v \<noteq> 0"
    using assms(1) by (auto simp: cv_new_def Let_def split: if_splits)
  have le: "CHUNK_SIZE div ?v \<le> 2 ^ 25"
    using div_le_dividend [of CHUNK_SIZE ?v] by (simp add: CHUNK_SIZE_def)
  show "cv_dim c = vdim" "cv_len c = 0" "cv_chunks c = []"
    by (simp_all add: c)
  have mul: "?v = vdim * size_of"
    using assms(2) by simp
  then have "vdim \<le> ?v"
    using v(2) by (cases size_of) simp_all
  then have "CHUNK_SIZE div ?v * vdim \<le> CHUNK_SIZE"
    using mult_le_mono2 [of vdim ?v "CHUNK_SIZE div ?v"] div_times_less_eq_dividend [of CHUNK_SIZE ?v] by linarith
  moreover have "vdim < 2 ^ 60"
    using \<open>vdim \<le> ?v\<close> mul assms(2) by linarith
  ultimately have "max MIN_CHUNK_CAPACITY (CHUNK_SIZE div ?v) * vdim < 2 ^ 64"
    by (auto simp: max_def MIN_CHUNK_CAPACITY_def CHUNK_SIZE_def)
  moreover have "max MIN_CHUNK_CAPACITY (CHUNK_SIZE div ?v) < 2 ^ 63" "0 < max MIN_CHUNK_CAPACITY (CHUNK_SIZE div ?v)"
    using le by (auto simp: max_def MIN_CHUNK_CAPACITY_def)
  ultimately show "cv_wf c"
    using v(1) unfolding cv_wf_def c by simp
qed

lemma grow_chunks_spec:
  assumes "0 < capacity" "capacity + len < 2 ^ 64" "length chunks * capacity < len + capacity"
  shows "\<exists>n. grow_chunks capacity len chunks = Some (chunks @ replicate n [])
    \<and> len \<le> (length chunks + n) * capacity \<and> (length chunks + n) * capacity < len + capacity"
  using assms(3)
proof (induction "len - length chunks * capacity" arbitrary: chunks rule: less_induct)
  case less
  have "length chunks * capacity < 2 ^ 64"
    using less.prems assms(2) by linarith
  then have mul: "usize_mul (length chunks) capacity = length chunks * capacity"
    by simp
  show ?case
  proof (cases "length chunks * capacity < len")
    case True
    have "\<exists>n. grow_chunks capacity len (chunks @ [[]]) = Some ((chunks @ [[]]) @ replicate n [])
        \<and> len \<le> (length (chunks @ [[]]) + n) * capacity \<and> (length (chunks @ [[]]) + n) * capacity < len + capacity"
      using True assms(1) less.prems by (intro less.hyps) auto
    then obtain n where n: "grow_chunks capacity len (chunks @ [[]]) = Some ((chunks @ [[]]) @ replicate n [])"
      "len \<le> (length chunks + Suc n) * capacity" "(length chunks + Suc n) * capacity < len + capacity"
      by auto
    have "grow_chunks capacity len chunks = Some (chunks @ replicate (Suc n) [])"
      using True n(1) by (subst grow_chunks.simps) (simp add: mul)
    then show ?thesis
      using n(2,3) by blast
  next
    case False
    then have "grow_chunks capacity len chunks = Some (chunks @ replicate 0 [])"
      by (subst grow_chunks.simps) (simp add: mul)
    then show ?thesis
      using False less.prems by fastforce
  qed
qed

lemma cv_get_row:
  assumes "cv_wf c"
  shows "cv_get c k = (if k div cv_capacity c < length (cv_chunks c)
    then row (cv_dim c) (k mod cv_capacity c) (cv_chunks c ! (k div cv_capacity c)) else None)"
proof -
  have "(k mod cv_capacity c) * cv_dim c + cv_dim c \<le> cv_capacity c * cv_dim c"
    using assms mult_le_mono1 [of "Suc (k mod cv_capacity c)" "cv_capacity c" "cv_dim c"]
    by (simp add: cv_wf_def Suc_le_eq)
  then have lt: "(k mod cv_capacity c) * cv_dim c + cv_dim c < 2 ^ 64"
    using assms unfolding cv_wf_def by linarith
  then have mul: "usize_mul (k mod cv_capacity c) (cv_dim c) = k mod cv_capacity c * cv_dim c"
    by simp
  show ?thesis
    using assms lt by (simp add: cv_get_def cv_wf_def mul row_def slice_range_def vec_get_def)
qed

text \<open>A key inside a chunk that was never written reads as a vector of zeros once a later key of its chunk exists.\<close>

lemma cv_insert_spec:
  assumes wf: "cv_wf c" and key: "key < 2 ^ 32" and len: "length vector = cv_dim c"
  shows "\<exists>c'. cv_insert zero key vector c = Some c' \<and> cv_wf c' \<and> cv_dim c' = cv_dim c \<and> cv_capacity c' = cv_capacity c
    \<and> cv_len c' = max (cv_len c) (key + 1)
    \<and> (\<forall>k. cv_get c' k = (if k = key then Some vector
         else case cv_get c k of Some w \<Rightarrow> Some w
              | None \<Rightarrow> if k div cv_capacity c = key div cv_capacity c \<and> k < key
                       then Some (replicate (cv_dim c) zero) else None))"
proof -
  let ?cap = "cv_capacity c" and ?d = "cv_dim c" and ?l = "max (cv_len c) (key + 1)"
  let ?q = "key div ?cap" and ?r = "key mod ?cap"
  have w: "0 < ?d" "0 < ?cap" "?cap * ?d < 2 ^ 64" "?cap < 2 ^ 63" "cv_len c \<le> 2 ^ 32"
    "length (cv_chunks c) * ?cap < cv_len c + ?cap"
    "\<And>ch. ch \<in> set (cv_chunks c) \<Longrightarrow> ?d dvd length ch \<and> length ch \<le> ?cap * ?d"
    using wf unfolding cv_wf_def by blast+
  obtain n where n: "grow_chunks ?cap ?l (cv_chunks c) = Some (cv_chunks c @ replicate n [])"
    "?l \<le> (length (cv_chunks c) + n) * ?cap" "(length (cv_chunks c) + n) * ?cap < ?l + ?cap"
    using grow_chunks_spec [of ?cap ?l "cv_chunks c"] w(2,4,5,6) key by fastforce
  let ?chunks = "cv_chunks c @ replicate n []"
  have "key < length ?chunks * ?cap"
    using n(2) by simp
  then have q: "?q < length ?chunks"
    by (rule less_mult_imp_div_less)
  have "?r * ?d + ?d \<le> ?cap * ?d"
    using mult_le_mono1 [of "Suc ?r" ?cap ?d] w(2) by (simp add: Suc_le_eq)
  then have r: "?r * ?d + ?d \<le> ?cap * ?d" "?r * ?d + ?d < 2 ^ 64" "usize_mul ?r ?d = ?r * ?d"
    using w(3) by auto
  let ?new = "write_row zero ?d (?r * ?d) vector (?chunks ! ?q)"
  let ?c' = "c\<lparr>cv_len := ?l, cv_chunks := ?chunks[?q := ?new]\<rparr>"
  have ins: "cv_insert zero key vector c = Some ?c'"
    using n(1) w(2) len q r(3) key by (simp add: cv_insert_def vec_get_def)
  have whole: "?d dvd length ch \<and> length ch \<le> ?cap * ?d" if "ch \<in> set ?chunks" for ch
    using that w(7) by auto
  then have old: "?d dvd length (?chunks ! ?q)" "length (?chunks ! ?q) \<le> ?cap * ?d"
    using q nth_mem by blast+
  have "length ?new = max (length (?chunks ! ?q)) (?r * ?d + ?d)"
    using r(2) len by (auto simp: write_row_def Let_def)
  moreover have "?d dvd ?r * ?d + ?d"
    by simp
  ultimately have new: "?d dvd length ?new \<and> length ?new \<le> ?cap * ?d"
    using old r(1) by (simp add: max_def)
  have "\<forall>ch \<in> set (?chunks[?q := ?new]). ?d dvd length ch \<and> length ch \<le> ?cap * ?d"
    using new whole set_update_subset_insert [of ?chunks ?q ?new] by blast
  then have wf': "cv_wf ?c'"
    using w(1,3-5) n(2,3) key unfolding cv_wf_def by (simp add: w(2))
  have new_get: "cv_get ?c' k = (if k div ?cap < length ?chunks
      then row ?d (k mod ?cap) (if k div ?cap = ?q then ?new else ?chunks ! (k div ?cap)) else None)" for k
    using cv_get_row [OF wf', of k] q by (auto simp: nth_list_update)
  have old_get: "cv_get c k = (if k div ?cap < length ?chunks then row ?d (k mod ?cap) (?chunks ! (k div ?cap)) else None)" for k
    using w(1) unfolding cv_get_row [OF wf] by (auto simp: nth_append row_def)
  have "cv_get ?c' k = (if k = key then Some vector
      else case cv_get c k of Some w \<Rightarrow> Some w
           | None \<Rightarrow> if k div ?cap = ?q \<and> k < key then Some (replicate ?d zero) else None)" for k
  proof (cases "k div ?cap = ?q")
    case True
    have "k = key \<longleftrightarrow> k mod ?cap = ?r" "k < key \<longleftrightarrow> k mod ?cap < ?r"
      using True div_mult_mod_eq [of k ?cap] div_mult_mod_eq [of key ?cap] by (metis, metis nat_add_left_cancel_less)
    then show ?thesis
      using True q row_write [OF w(1) old(1) len r(2), of "k mod ?cap" zero]
      unfolding new_get old_get by simp
  next
    case False
    then have "k \<noteq> key"
      by blast
    then show ?thesis
      using False unfolding new_get old_get by (simp split: option.splits)
  qed
  then show ?thesis
    using ins wf' by auto
qed

section \<open>The container as a map\<close>

text \<open>
  What a container holds after the vectors of \<open>m\<close> were inserted, in any order: reading a key gives its vector, a
  gap below a later vector of the same chunk reads as zeros, and any other key is out of range.
\<close>

definition spec_get :: "nat \<Rightarrow> nat \<Rightarrow> 'a \<Rightarrow> (nat \<rightharpoonup> 'a list) \<Rightarrow> nat \<Rightarrow> 'a list option" where
  "spec_get capacity vdim zero m k =
     (case m k of
        Some v \<Rightarrow> Some v
      | None \<Rightarrow> if \<exists>k' > k. k' div capacity = k div capacity \<and> m k' \<noteq> None then Some (replicate vdim zero) else None)"

definition cv_holds :: "'a \<Rightarrow> 'a chunked_vectors \<Rightarrow> (nat \<rightharpoonup> 'a list) \<Rightarrow> bool" where
  "cv_holds zero c m \<longleftrightarrow> cv_wf c \<and> (\<forall>k. cv_get c k = spec_get (cv_capacity c) (cv_dim c) zero m k)
     \<and> (\<forall>k v. m k = Some v \<longrightarrow> k < cv_len c \<and> length v = cv_dim c) \<and> (cv_len c = 0 \<or> m (cv_len c - 1) \<noteq> None)"

lemma cv_holds_new:
  assumes "cv_new size_of vdim = Some c" "vdim * size_of < 2 ^ 60"
  shows "cv_holds zero c Map.empty"
proof -
  have "cv_get c k = None" for k
    using cv_wf_new(4) [OF assms] by (simp add: cv_get_def vec_get_def)
  then show ?thesis
    using cv_wf_new [OF assms] by (simp add: cv_holds_def spec_get_def)
qed

lemma cv_holds_insert:
  assumes "cv_holds zero c m" "key < 2 ^ 32" "length vector = cv_dim c"
  shows "\<exists>c'. cv_insert zero key vector c = Some c' \<and> cv_holds zero c' (m(key \<mapsto> vector))
    \<and> cv_dim c' = cv_dim c \<and> cv_capacity c' = cv_capacity c"
proof -
  have h: "cv_wf c" "\<And>k. cv_get c k = spec_get (cv_capacity c) (cv_dim c) zero m k"
    "\<And>k v. m k = Some v \<Longrightarrow> k < cv_len c \<and> length v = cv_dim c" "cv_len c = 0 \<or> m (cv_len c - 1) \<noteq> None"
    using assms(1) unfolding cv_holds_def by blast+
  obtain c' where c': "cv_insert zero key vector c = Some c'" "cv_wf c'" "cv_dim c' = cv_dim c"
    "cv_capacity c' = cv_capacity c" "cv_len c' = max (cv_len c) (key + 1)"
    and get: "\<And>k. cv_get c' k = (if k = key then Some vector
         else case cv_get c k of Some w \<Rightarrow> Some w
              | None \<Rightarrow> if k div cv_capacity c = key div cv_capacity c \<and> k < key
                       then Some (replicate (cv_dim c) zero) else None)"
    using cv_insert_spec [OF h(1) assms(2,3), of zero] by blast
  have "cv_get c' k = spec_get (cv_capacity c) (cv_dim c) zero (m(key \<mapsto> vector)) k" for k
  proof -
    have ex: "(\<exists>k' > k. k' div cv_capacity c = k div cv_capacity c \<and> (m(key \<mapsto> vector)) k' \<noteq> None) \<longleftrightarrow>
        (\<exists>k' > k. k' div cv_capacity c = k div cv_capacity c \<and> m k' \<noteq> None) \<or> k div cv_capacity c = key div cv_capacity c \<and> k < key"
      by (metis fun_upd_apply option.distinct(1))
    show ?thesis
      unfolding get h(2) spec_get_def ex by (auto split: option.splits)
  qed
  moreover have "k < cv_len c' \<and> length v = cv_dim c" if "(m(key \<mapsto> vector)) k = Some v" for k v
    using that h(3) [of k v] assms(3) c'(5) by (auto split: if_splits)
  moreover have "(m(key \<mapsto> vector)) (cv_len c' - 1) \<noteq> None"
    using h(4) c'(5) by (auto simp: max_def)
  ultimately have "cv_holds zero c' (m(key \<mapsto> vector))"
    unfolding cv_holds_def c'(3,4) using c'(2) by blast
  then show ?thesis
    using c' by blast
qed

lemma cv_holds_same:
  assumes "cv_holds zero c m" "cv_holds zero c' m" "cv_dim c' = cv_dim c" "cv_capacity c' = cv_capacity c"
  shows "cv_get c' = cv_get c" "cv_len c' = cv_len c"
proof -
  show "cv_get c' = cv_get c"
    using assms by (simp add: cv_holds_def fun_eq_iff)
  have "cv_len b \<le> cv_len a" if "cv_holds zero a m" "cv_holds zero b m" for a b :: "'a chunked_vectors"
    using that unfolding cv_holds_def by (cases "cv_len b") force+
  then show "cv_len c' = cv_len c"
    using assms(1,2) by (simp add: order_antisym)
qed

lemma cv_holds_inserts:
  assumes "cv_holds zero c m" "\<forall>(k, v) \<in> set ops. k < 2 ^ 32 \<and> length v = cv_dim c"
  shows "\<exists>c'. fold_opt (\<lambda>(k, v). cv_insert zero k v) ops c = Some c' \<and> cv_holds zero c' (m ++ map_of (rev ops))
    \<and> cv_dim c' = cv_dim c \<and> cv_capacity c' = cv_capacity c"
  using assms
proof (induction ops arbitrary: c m)
  case (Cons e ops)
  obtain k v where e: "e = (k, v)"
    by (cases e)
  obtain c1 where c1: "cv_insert zero k v c = Some c1" "cv_holds zero c1 (m(k \<mapsto> v))" "cv_dim c1 = cv_dim c"
    "cv_capacity c1 = cv_capacity c"
    using cv_holds_insert [OF Cons.prems(1), of k v] Cons.prems(2) e by auto
  obtain c' where c': "fold_opt (\<lambda>(k, v). cv_insert zero k v) ops c1 = Some c'" "cv_holds zero c' (m(k \<mapsto> v) ++ map_of (rev ops))"
    "cv_dim c' = cv_dim c1" "cv_capacity c' = cv_capacity c1"
    using Cons.IH [OF c1(2)] Cons.prems(2) unfolding c1(3) list.set ball_simps by blast
  have "m(k \<mapsto> v) ++ map_of (rev ops) = m ++ map_of (rev (e # ops))"
    by (simp add: e)
  then have "cv_holds zero c' (m ++ map_of (rev (e # ops)))"
    using c'(2) by (simp only:)
  moreover have "fold_opt (\<lambda>(k, v). cv_insert zero k v) (e # ops) c = Some c'"
    using c1(1) c'(1) by (simp add: e)
  ultimately show ?case
    using c1(3,4) c'(3,4) by (intro exI [of _ c']) (simp only: simp_thms)
qed simp

text \<open>
  C32. Every insert returns: on a container made by \<open>new\<close>, any sequence of vectors of its dimension, at any keys of the
  range of \<open>u32\<close> and in any order, is inserted without a panic and without looping forever, and afterwards each key
  reads the last vector written to it.\<close>

theorem chunked_inserts_return:
  assumes "cv_new size_of vdim = Some c" "vdim * size_of < 2 ^ 60" "\<forall>(k, v) \<in> set ops. k < 2 ^ 32 \<and> length v = vdim"
  shows "\<exists>c'. fold_opt (\<lambda>(k, v). cv_insert zero k v) ops c = Some c'
    \<and> (\<forall>k. cv_get c' k = spec_get (cv_capacity c) vdim zero (map_of (rev ops)) k)"
proof -
  have "cv_dim c = vdim"
    using cv_wf_new(2) [OF assms(1,2)] .
  then show ?thesis
    using cv_holds_inserts [OF cv_holds_new [OF assms(1,2), of zero], of ops] assms(3)
    by (auto simp: cv_holds_def)
qed

theorem chunked_inserts_return_witness:
  "\<exists>c c'. cv_new 4 2 = Some c \<and> fold_opt (\<lambda>(k, v). cv_insert 0 k v) [(1, [3, 4]), (0, [5, 6])] c = Some c'
     \<and> cv_get c' 0 = Some [5, 6 :: nat] \<and> cv_get c' 1 = Some [3, 4]"
proof -
  obtain c :: "nat chunked_vectors" where c: "cv_new 4 2 = Some c"
    by (simp add: cv_new_def usize_mul_def)
  show ?thesis
    using chunked_inserts_return [OF c, of "[(1, [3, 4]), (0, [5, 6])]" 0] c by (auto simp: spec_get_def)
qed

section \<open>The file of a quantised container\<close>

text \<open>
  The file of an encoded storage: created empty, written at its end, and read from the start. A call may fail.
\<close>

record 'f byte_file =
  bf_create :: "('f, string, unit) st_op"
  bf_write_all :: "bytes \<Rightarrow> ('f, string, unit) st_op"
  bf_flush :: "('f, string, unit) st_op"
  bf_open :: "'f \<Rightarrow> string + bytes"

definition byte_file_ok :: "'f byte_file \<Rightarrow> ('f \<Rightarrow> bytes) \<Rightarrow> bool" where
  "byte_file_ok F con \<longleftrightarrow>
     (\<forall>f f'. bf_create F f = (Inr (), f') \<longrightarrow> con f' = [])
     \<and> (\<forall>b f f'. bf_write_all F b f = (Inr (), f') \<longrightarrow> con f' = con f @ b)
     \<and> (\<forall>f f'. bf_flush F f = (Inr (), f') \<longrightarrow> con f' = con f)
     \<and> (\<forall>f b. bf_open F f = Inr b \<longrightarrow> b = con f)"

fun save_rows :: "'f byte_file \<Rightarrow> u8 chunked_vectors \<Rightarrow> nat list \<Rightarrow> 'f \<Rightarrow> ((string + unit) \<times> 'f) option" where
  "save_rows F c [] f = Some (bf_flush F f)"
| "save_rows F c (i # is) f =
     (case cv_get c i of
        None \<Rightarrow> None
      | Some v \<Rightarrow>
          (case bf_write_all F v f of
             (Inl e, f') \<Rightarrow> Some (Inl e, f')
           | (Inr _, f') \<Rightarrow> save_rows F c is f'))"

definition save_to_file :: "'f byte_file \<Rightarrow> u8 chunked_vectors \<Rightarrow> 'f \<Rightarrow> ((string + unit) \<times> 'f) option" where
  "save_to_file F c f =
     (case bf_create F f of
        (Inl e, f') \<Rightarrow> Some (Inl e, f')
      | (Inr _, f') \<Rightarrow> save_rows F c [0..<cv_len c] f')"

partial_function (option) load_rows :: "nat \<Rightarrow> bytes \<Rightarrow> u8 chunked_vectors \<Rightarrow> u8 chunked_vectors option" where
  "load_rows vsize data c =
     (if length data < vsize then Some c
      else Option.bind (cv_push 0 (take vsize data) c) (\<lambda>(_, c'). load_rows vsize (drop vsize data) c'))"

definition from_file :: "'f byte_file \<Rightarrow> nat \<Rightarrow> nat \<Rightarrow> 'f \<Rightarrow> (string + u8 chunked_vectors) option" where
  "from_file F quantized_vector_size vectors_count f =
     Option.bind (cv_new 1 quantized_vector_size) (\<lambda>c.
       case bf_open F f of
         Inl e \<Rightarrow> Some (Inl e)
       | Inr data \<Rightarrow>
           map_option
             (\<lambda>c. if cv_len c = vectors_count then Inr c
                  else Inl (''Loaded vectors count '' @ display_usize (cv_len c) @ '' is not equal to expected count ''
                            @ display_usize vectors_count))
             (load_rows quantized_vector_size data c))"

lemma save_rows_spec:
  assumes "byte_file_ok F con" "save_rows F c is f = Some (Inr (), f')"
  shows "\<exists>vs. map (cv_get c) is = map Some vs \<and> con f' = con f @ concat vs"
  using assms(2)
proof (induction "is" arbitrary: f)
  case Nil
  then show ?case
    using assms(1) by (simp add: byte_file_ok_def)
next
  case (Cons i "is")
  obtain v f1 where v: "cv_get c i = Some v" "bf_write_all F v f = (Inr (), f1)" "save_rows F c is f1 = Some (Inr (), f')"
    using Cons.prems by (auto split: option.splits prod.splits sum.splits)
  obtain vs where vs: "map (cv_get c) is = map Some vs" "con f' = con f1 @ concat vs"
    using Cons.IH [OF v(3)] by blast
  moreover have "con f1 = con f @ v"
    using assms(1) v(2) by (simp add: byte_file_ok_def)
  ultimately show ?case
    using v(1) by (intro exI [of _ "v # vs"]) simp
qed

text \<open>Reading back vectors written one after the other appends them; a remainder shorter than a vector ends the loop.\<close>

lemma load_rows_spec:
  assumes "cv_wf c" "\<forall>v \<in> set vs. length v = cv_dim c" "cv_len c + length vs \<le> 2 ^ 32" "length rest < cv_dim c"
  shows "\<exists>c'. load_rows (cv_dim c) (concat vs @ rest) c = Some c' \<and> cv_len c' = cv_len c + length vs
    \<and> (\<forall>k < cv_len c. cv_get c k \<noteq> None \<longrightarrow> cv_get c' k = cv_get c k)
    \<and> (\<forall>i < length vs. cv_get c' (cv_len c + i) = Some (vs ! i))"
  using assms
proof (induction vs arbitrary: c)
  case Nil
  then show ?case
    by (subst load_rows.simps) simp
next
  case (Cons v vs)
  let ?n = "cv_len c"
  have n: "?n < 2 ^ 32" and len: "length v = cv_dim c"
    using Cons.prems(2,3) by simp_all
  obtain c1 where c1: "cv_insert 0 ?n v c = Some c1" "cv_wf c1" "cv_dim c1 = cv_dim c" "cv_len c1 = ?n + 1"
    and get: "\<forall>k. cv_get c1 k = (if k = ?n then Some v
         else case cv_get c k of Some w \<Rightarrow> Some w
              | None \<Rightarrow> if k div cv_capacity c = ?n div cv_capacity c \<and> k < ?n
                       then Some (replicate (cv_dim c) 0) else None)"
    using cv_insert_spec [OF Cons.prems(1) n len, of 0] by (auto simp: max_def)
  obtain c' where c': "load_rows (cv_dim c) (concat vs @ rest) c1 = Some c'" "cv_len c' = ?n + 1 + length vs"
    "\<forall>k < ?n + 1. cv_get c1 k \<noteq> None \<longrightarrow> cv_get c' k = cv_get c1 k"
    "\<forall>i < length vs. cv_get c' (?n + 1 + i) = Some (vs ! i)"
    using Cons.IH [OF c1(2)] Cons.prems(2-4) c1(3,4) by auto
  have "cv_push 0 v c = Some (?n, c1)"
    using c1(1) n by (simp add: cv_push_def)
  then have "load_rows (cv_dim c) (concat (v # vs) @ rest) c = Some c'"
    using len c'(1) by (subst load_rows.simps) simp
  moreover have "cv_get c' k = cv_get c k" if "k < ?n" "cv_get c k \<noteq> None" for k
  proof -
    have "cv_get c1 k = cv_get c k"
      using that get by auto
    then show ?thesis
      using c'(3) that by simp
  qed
  moreover have "cv_get c' (?n + i) = Some ((v # vs) ! i)" if "i < length (v # vs)" for i
  proof (cases i)
    case 0
    then show ?thesis
      using c'(3) get by simp
  next
    case (Suc j)
    then show ?thesis
      using c'(4) that by simp
  qed
  ultimately show ?case
    using c'(2) by (intro exI [of _ c']) auto
qed

text \<open>
  C33. A quantised container survives its file: when every vector below the length of a container is written, one after
  the other, reading the file back returns, with the same length and the same vector at every key. The loops of
  reading and of adding chunks end.\<close>

theorem quantized_file_roundtrip:
  assumes "byte_file_ok F con" "cv_wf c" "cv_dim c < 2 ^ 60"
    and "save_to_file F c f = Some (Inr (), f')" "bf_open F f' = Inr data"
  shows "\<exists>c'. from_file F (cv_dim c) (cv_len c) f' = Some (Inr c') \<and> cv_len c' = cv_len c
    \<and> (\<forall>k < cv_len c. cv_get c' k = cv_get c k)"
proof -
  let ?n = "cv_len c"
  obtain f1 where f1: "bf_create F f = (Inr (), f1)" "save_rows F c [0..<?n] f1 = Some (Inr (), f')"
    using assms(4) by (auto simp: save_to_file_def split: prod.splits sum.splits)
  obtain vs where vs: "map (cv_get c) [0..<?n] = map Some vs" "con f' = con f1 @ concat vs"
    using save_rows_spec [OF assms(1) f1(2)] by blast
  have len: "length vs = ?n"
    using arg_cong [OF vs(1), of length] by simp
  have row: "cv_get c i = Some (vs ! i)" if "i < ?n" for i
    using arg_cong [OF vs(1), of "\<lambda>l. l ! i"] that len by simp
  have data: "data = concat vs @ []"
    using assms(1,5) f1(1) vs(2) unfolding byte_file_ok_def by fastforce
  have d: "0 < cv_dim c" "?n \<le> 2 ^ 32"
    using assms(2) by (simp_all add: cv_wf_def)
  have "\<forall>v \<in> set vs. length v = cv_dim c"
  proof
    fix v assume "v \<in> set vs"
    then obtain i where "i < ?n" "v = vs ! i"
      using len by (metis in_set_conv_nth)
    then have "cv_get c i = Some v"
      using row by simp
    then show "length v = cv_dim c"
      by (auto simp: cv_get_row [OF assms(2)] row_def split: if_splits)
  qed
  moreover obtain c0 :: "u8 chunked_vectors" where c0: "cv_new 1 (cv_dim c) = Some c0"
    using d(1) assms(3) by (simp add: cv_new_def Let_def usize_mul_def)
  moreover have w: "cv_wf c0" "cv_dim c0 = cv_dim c" "cv_len c0 = 0"
    using cv_wf_new [OF c0] assms(3) by simp_all
  ultimately obtain c' where "load_rows (cv_dim c) (concat vs @ []) c0 = Some c'" "cv_len c' = ?n"
    "\<forall>i < ?n. cv_get c' i = Some (vs ! i)"
    using load_rows_spec [of c0 vs "[]"] d len by auto
  then show ?thesis
    using c0 assms(5) row data by (simp add: from_file_def)
qed

text \<open>A file in memory.\<close>

definition mem_byte_file :: "bytes byte_file" where
  "mem_byte_file = \<lparr>bf_create = (\<lambda>_. (Inr (), [])), bf_write_all = (\<lambda>b f. (Inr (), f @ b)),
     bf_flush = (\<lambda>f. (Inr (), f)), bf_open = Inr\<rparr>"

theorem quantized_file_roundtrip_witness:
  "\<exists>c'. from_file mem_byte_file 2 1 [7, 9] = Some (Inr c') \<and> cv_len c' = 1 \<and> cv_get c' 0 = Some [7, 9]"
proof -
  let ?c = "\<lparr>cv_dim = 2, cv_len = 1, cv_capacity = 16, cv_chunks = [[7, 9 :: u8]]\<rparr>"
  have "byte_file_ok mem_byte_file id" "cv_wf ?c" "cv_get ?c 0 = Some [7, 9]"
    by (simp_all add: byte_file_ok_def mem_byte_file_def cv_wf_def cv_get_def usize_mul_def usize_add_def
        slice_range_def vec_get_def)
  moreover from this(3) have "save_to_file mem_byte_file ?c [] = Some (Inr (), [7, 9])"
    by (simp add: save_to_file_def mem_byte_file_def)
  ultimately show ?thesis
    using quantized_file_roundtrip [of mem_byte_file id ?c "[]" "[7, 9]" "[7, 9]"] by (simp add: mem_byte_file_def)
qed

end
