(* ===== verification/Vector_Storage.thy ===== *)
theory Vector_Storage
  imports Chunked_Vectors Db_Column Top_Scores
begin

text \<open>
  The vector storages of a segment (\<open>lib/segment/src/vector_storage\<close>): vectors in memory with a copy in the key
  value store (\<open>simple_vector_storage.rs\<close>), vectors in a mapped file (\<open>mmap_vectors.rs\<close>,
  \<open>memmap_vector_storage.rs\<close>), the enum of both (\<open>vector_storage_base.rs\<close>), and the scorer that compares a
  query with the stored vectors (\<open>raw_scorer.rs\<close>). An element is the bit pattern of an \<open>f32\<close>; the distance
  functions, the serialiser and the file are parameters. Quantised copies are not modelled.
\<close>

type_synonym element = "32 word"
type_synonym vec = "element list"

datatype distance = Cosine | Euclid | Dot

section \<open>Vectors in memory\<close>

record stored_record =
  sr_deleted :: bool
  sr_vector :: vec

record vs_codec =
  ser_offset :: "nat \<Rightarrow> bytes"
  de_offset :: "bytes \<Rightarrow> nat option"
  ser_record :: "stored_record \<Rightarrow> bytes"
  de_record :: "bytes \<Rightarrow> stored_record option"

definition vs_codec_ok :: "vs_codec \<Rightarrow> bool" where
  "vs_codec_ok C \<longleftrightarrow> (\<forall>n < 2 ^ 32. de_offset C (ser_offset C n) = Some n) \<and> (\<forall>r. de_record C (ser_record C r) = Some r)"

record simple_vector_storage =
  svs_dim :: nat
  svs_distance :: distance
  svs_vectors :: "element chunked_vectors"
  svs_column :: string
  svs_update_buffer :: stored_record

fun load_vectors :: "vs_codec \<Rightarrow> (bytes \<times> bytes) list \<Rightarrow> element chunked_vectors \<Rightarrow> (op_error + element chunked_vectors) option" where
  "load_vectors C [] vectors = Some (Inr vectors)"
| "load_vectors C ((key, value) # kvs) vectors =
     (case de_offset C key of
        None \<Rightarrow> Some (Inl (ServiceError ''cannot deserialize point id from db''))
      | Some point_id \<Rightarrow>
          (case de_record C value of
             None \<Rightarrow> Some (Inl (ServiceError ''cannot deserialize record from db''))
           | Some stored_record \<Rightarrow>
               Option.bind (cv_insert 0 point_id (sr_vector stored_record) vectors) (load_vectors C kvs)))"

definition open_simple_vector_storage ::
    "'d rocksdb \<Rightarrow> vs_codec \<Rightarrow> string \<Rightarrow> nat \<Rightarrow> distance \<Rightarrow> 'd \<Rightarrow> (op_error + simple_vector_storage) option" where
  "open_simple_vector_storage R C column vdim distance d =
     Option.bind (cv_new 4 vdim) (\<lambda>vectors.
       pbind (Some (col_iter R column d)) (\<lambda>kvs.
       pbind (load_vectors C kvs vectors) (\<lambda>vectors.
         Some (Inr \<lparr>svs_dim = vdim, svs_distance = distance, svs_vectors = vectors, svs_column = column,
                    svs_update_buffer = \<lparr>sr_deleted = False, sr_vector = replicate vdim 0\<rparr>\<rparr>))))"

definition update_stored ::
    "'d rocksdb \<Rightarrow> vs_codec \<Rightarrow> nat \<Rightarrow> vec \<Rightarrow> (simple_vector_storage \<times> 'd, op_error, unit) pst_op" where
  "update_stored R C point_id vector s =
     (if length vector \<noteq> length (sr_vector (svs_update_buffer (fst s))) then None
      else let buffer = (svs_update_buffer (fst s))\<lparr>sr_vector := vector\<rparr>
           in Some (on_db (col_put R (svs_column (fst s)) (ser_offset C point_id) (ser_record C buffer))
                      ((fst s)\<lparr>svs_update_buffer := buffer\<rparr>, snd s)))"

definition svs_insert_vector ::
    "'d rocksdb \<Rightarrow> vs_codec \<Rightarrow> nat \<Rightarrow> vec \<Rightarrow> (simple_vector_storage \<times> 'd, op_error, unit) pst_op" where
  "svs_insert_vector R C key vector s =
     Option.bind (cv_insert 0 key vector (svs_vectors (fst s))) (\<lambda>vectors.
       update_stored R C key vector ((fst s)\<lparr>svs_vectors := vectors\<rparr>, snd s))"

definition svs_get_vector :: "simple_vector_storage \<Rightarrow> nat \<Rightarrow> vec option" where
  "svs_get_vector st key = cv_get (svs_vectors st) key"

definition svs_total_vector_count :: "simple_vector_storage \<Rightarrow> nat" where
  "svs_total_vector_count st = cv_len (svs_vectors st)"

definition svs_flusher :: "'d rocksdb \<Rightarrow> simple_vector_storage \<Rightarrow> ('d, op_error, unit) st_op" where
  "svs_flusher R st = col_flusher R (svs_column st)"

text \<open>
  Copying vectors of another storage, read by \<open>other\<close>. The flag \<open>stopped i\<close> is what the atomic flag holds
  before copy \<open>i\<close>.
\<close>

fun svs_copy_all ::
    "'d rocksdb \<Rightarrow> vs_codec \<Rightarrow> (nat \<Rightarrow> vec option) \<Rightarrow> (nat \<Rightarrow> bool) \<Rightarrow> nat \<Rightarrow> nat list
      \<Rightarrow> (simple_vector_storage \<times> 'd, op_error, unit) pst_op" where
  "svs_copy_all R C other stopped i [] s = Some (Inr (), s)"
| "svs_copy_all R C other stopped i (point_id # other_ids) s =
     (case check_process_stopped (stopped i) of
        Inl e \<Rightarrow> Some (Inl e, s)
      | Inr _ \<Rightarrow>
          Option.bind (other point_id) (\<lambda>other_vector.
          Option.bind (cv_push 0 other_vector (svs_vectors (fst s))) (\<lambda>(new_id, vectors).
            pst_bind (update_stored R C new_id other_vector) (\<lambda>_. svs_copy_all R C other stopped (Suc i) other_ids)
              ((fst s)\<lparr>svs_vectors := vectors\<rparr>, snd s))))"

definition svs_update_from ::
    "'d rocksdb \<Rightarrow> vs_codec \<Rightarrow> (nat \<Rightarrow> vec option) \<Rightarrow> nat list \<Rightarrow> (nat \<Rightarrow> bool)
      \<Rightarrow> (simple_vector_storage \<times> 'd, op_error, nat \<times> nat) pst_op" where
  "svs_update_from R C other other_ids stopped s =
     (let start_index = u32_of_usize (cv_len (svs_vectors (fst s)))
      in pst_bind (svs_copy_all R C other stopped 0 other_ids)
           (\<lambda>_ s'. Some (Inr (start_index, u32_of_usize (cv_len (svs_vectors (fst s')))), s')) s)"

section \<open>Vectors in a mapped file\<close>

text \<open>The file: it exists or not, is created empty, grows at its end, and is mapped as a whole.\<close>

record 'f data_file =
  df_exists :: "'f \<Rightarrow> bool"
  df_create :: "('f, string, unit) st_op"
  df_open_append :: "('f, string, unit) st_op"
  df_write_all :: "bytes \<Rightarrow> ('f, string, unit) st_op"
  df_flush :: "('f, string, unit) st_op"
  df_map :: "'f \<Rightarrow> string + bytes"

definition HEADER_SIZE :: nat where "HEADER_SIZE = 4"
definition VECTORS_HEADER :: bytes where "VECTORS_HEADER = [0x64, 0x61, 0x74, 0x61]"

definition io_op :: "('f, string, 'a) st_op \<Rightarrow> ('f, op_error, 'a) st_op" where
  "io_op m f = apfst (map_db_err ''IO Error: '') (m f)"

record mmap_vectors =
  mv_dim :: nat
  mv_num_vectors :: nat
  mv_mmap :: bytes

definition ensure_mmap_file_exists :: "'f data_file \<Rightarrow> bytes \<Rightarrow> ('f, op_error, unit) st_op" where
  "ensure_mmap_file_exists D header f =
     (if df_exists D f then (Inr (), f)
      else st_bind (io_op (df_create D)) (\<lambda>_. io_op (df_write_all D header)) f)"

definition mv_open :: "'f data_file \<Rightarrow> nat \<Rightarrow> ('f, op_error, mmap_vectors) pst_op" where
  "mv_open D vdim =
     pst_bind (\<lambda>f. Some (ensure_mmap_file_exists D VECTORS_HEADER f)) (\<lambda>_.
     pst_bind (\<lambda>f. Some (map_db_err ''IO Error: '' (df_map D f), f)) (\<lambda>mmap f.
       if vdim = 0 then None
       else Some (Inr \<lparr>mv_dim = vdim, mv_num_vectors = usize_sub (length mmap) HEADER_SIZE div vdim div 4,
                       mv_mmap = mmap\<rparr>, f)))"

definition data_offset :: "mmap_vectors \<Rightarrow> nat \<Rightarrow> nat option" where
  "data_offset mv key =
     (let vector_data_length = usize_mul (mv_dim mv) 4;
          offset = usize_add (usize_mul key vector_data_length) HEADER_SIZE
      in if key \<ge> u32_of_usize (mv_num_vectors mv) then None else Some offset)"

definition raw_size :: "mmap_vectors \<Rightarrow> nat" where
  "raw_size mv = usize_mul (mv_dim mv) 4"

text \<open>The bytes of an element in memory, least significant first, and the reinterpretation of a slice of bytes.\<close>

definition element_bytes :: "element \<Rightarrow> bytes" where
  "element_bytes x = rev (u32_to_be_bytes x)"

fun elements_of_bytes :: "bytes \<Rightarrow> vec" where
  "elements_of_bytes (a # b # c # e # bs) = u32_from_be_bytes [e, c, b, a] # elements_of_bytes bs"
| "elements_of_bytes _ = []"

definition raw_vector_offset :: "mmap_vectors \<Rightarrow> nat \<Rightarrow> vec option" where
  "raw_vector_offset mv offset =
     Option.bind (slice_range (mv_mmap mv) offset (usize_add offset (raw_size mv))) (\<lambda>byte_slice.
       slice_range (elements_of_bytes byte_slice) 0 (mv_dim mv))"

definition mv_get_vector :: "mmap_vectors \<Rightarrow> nat \<Rightarrow> vec option" where
  "mv_get_vector mv key = Option.bind (data_offset mv key) (raw_vector_offset mv)"

definition vf_to_u8 :: "vec \<Rightarrow> bytes" where
  "vf_to_u8 v = concat (map element_bytes v)"

record memmap_vector_storage =
  mvs_mmap_store :: "mmap_vectors option"
  mvs_distance :: distance

definition open_memmap_vector_storage ::
    "'f data_file \<Rightarrow> nat \<Rightarrow> distance \<Rightarrow> ('f, op_error, memmap_vector_storage) pst_op" where
  "open_memmap_vector_storage D vdim distance =
     pst_bind (mv_open D vdim) (\<lambda>mv f. Some (Inr \<lparr>mvs_mmap_store = Some mv, mvs_distance = distance\<rparr>, f))"

definition mvs_vector_dim :: "memmap_vector_storage \<Rightarrow> nat option" where
  "mvs_vector_dim st = map_option mv_dim (mvs_mmap_store st)"

definition mvs_total_vector_count :: "memmap_vector_storage \<Rightarrow> nat option" where
  "mvs_total_vector_count st = map_option mv_num_vectors (mvs_mmap_store st)"

definition mvs_get_vector :: "memmap_vector_storage \<Rightarrow> nat \<Rightarrow> vec option" where
  "mvs_get_vector st key = Option.bind (mvs_mmap_store st) (\<lambda>mv. mv_get_vector mv key)"

definition mvs_insert_vector :: "nat \<Rightarrow> vec \<Rightarrow> (memmap_vector_storage, op_error, unit) pst_op" where
  "mvs_insert_vector key vector st = None"

fun mvs_append_all ::
    "'f data_file \<Rightarrow> (nat \<Rightarrow> vec option) \<Rightarrow> (nat \<Rightarrow> bool) \<Rightarrow> nat \<Rightarrow> nat list \<Rightarrow> nat \<Rightarrow> ('f, op_error, nat) pst_op" where
  "mvs_append_all D other stopped i [] end_index f = Some (Inr end_index, f)"
| "mvs_append_all D other stopped i (point_id # ids) end_index f =
     (case check_process_stopped (stopped i) of
        Inl e \<Rightarrow> Some (Inl e, f)
      | Inr _ \<Rightarrow>
          Option.bind (other point_id) (\<lambda>vector.
            pst_bind (\<lambda>f. Some (io_op (df_write_all D (vf_to_u8 vector)) f))
              (\<lambda>_. mvs_append_all D other stopped (Suc i) ids (u32_of_usize (end_index + 1))) f))"

definition mvs_update_from ::
    "'f data_file \<Rightarrow> (nat \<Rightarrow> vec option) \<Rightarrow> nat list \<Rightarrow> (nat \<Rightarrow> bool)
      \<Rightarrow> (memmap_vector_storage \<times> 'f, op_error, nat \<times> nat) pst_op" where
  "mvs_update_from D other other_ids stopped s =
     Option.bind (mvs_mmap_store (fst s)) (\<lambda>mv.
       let start_index = u32_of_usize (mv_num_vectors mv); st = (fst s)\<lparr>mvs_mmap_store := None\<rparr>
       in (case pst_bind (\<lambda>f. Some (io_op (df_open_append D) f)) (\<lambda>_.
                pst_bind (mvs_append_all D other stopped 0 other_ids start_index) (\<lambda>end_index.
                pst_bind (\<lambda>f. Some (io_op (df_flush D) f)) (\<lambda>_.
                pst_bind (mv_open D (mv_dim mv)) (\<lambda>mv' f. Some (Inr (end_index, mv'), f))))) (snd s) of
             None \<Rightarrow> None
           | Some (Inl e, f) \<Rightarrow> Some (Inl e, (st, f))
           | Some (Inr (end_index, mv'), f) \<Rightarrow> Some (Inr (start_index, end_index), (st\<lparr>mvs_mmap_store := Some mv'\<rparr>, f))))"

section \<open>The enum of storages\<close>

datatype vector_storage = VsSimple simple_vector_storage | VsMemmap memmap_vector_storage

fun vs_vector_dim :: "vector_storage \<Rightarrow> nat option" where
  "vs_vector_dim (VsSimple v) = Some (svs_dim v)"
| "vs_vector_dim (VsMemmap v) = mvs_vector_dim v"

fun vs_distance :: "vector_storage \<Rightarrow> distance" where
  "vs_distance (VsSimple v) = svs_distance v"
| "vs_distance (VsMemmap v) = mvs_distance v"

fun vs_total_vector_count :: "vector_storage \<Rightarrow> nat option" where
  "vs_total_vector_count (VsSimple v) = Some (svs_total_vector_count v)"
| "vs_total_vector_count (VsMemmap v) = mvs_total_vector_count v"

fun vs_get_vector :: "vector_storage \<Rightarrow> nat \<Rightarrow> vec option" where
  "vs_get_vector (VsSimple v) key = svs_get_vector v key"
| "vs_get_vector (VsMemmap v) key = mvs_get_vector v key"

fun vs_insert_vector ::
    "'d rocksdb \<Rightarrow> vs_codec \<Rightarrow> nat \<Rightarrow> vec \<Rightarrow> (vector_storage \<times> 'd, op_error, unit) pst_op" where
  "vs_insert_vector R C key vector (VsSimple v, d) =
     map_option (\<lambda>(r, v', d'). (r, VsSimple v', d')) (svs_insert_vector R C key vector (v, d))"
| "vs_insert_vector R C key vector (VsMemmap v, d) =
     map_option (\<lambda>(r, v'). (r, VsMemmap v', d)) (mvs_insert_vector key vector v)"

fun vs_flusher :: "'d rocksdb \<Rightarrow> vector_storage \<Rightarrow> ('d, op_error, unit) st_op" where
  "vs_flusher R (VsSimple v) d = svs_flusher R v d"
| "vs_flusher R (VsMemmap v) d = (Inr (), d)"

section \<open>Scoring\<close>

record 's metrics =
  preprocess :: "distance \<Rightarrow> vec \<Rightarrow> vec option"
  similarity :: "distance \<Rightarrow> vec \<Rightarrow> vec \<Rightarrow> 's"

record 's scored_point_offset =
  so_idx :: nat
  so_score :: 's

record raw_scorer =
  rs_points_count :: nat
  rs_query :: vec
  rs_storage :: vector_storage
  rs_deleted :: "bool list"
  rs_metric :: distance

definition new_raw_scorer :: "'s metrics \<Rightarrow> vec \<Rightarrow> vector_storage \<Rightarrow> bool list \<Rightarrow> raw_scorer option" where
  "new_raw_scorer M vector storage deleted =
     map_option
       (\<lambda>n. \<lparr>rs_points_count = u32_of_usize n,
             rs_query = (case preprocess M (vs_distance storage) vector of None \<Rightarrow> vector | Some v \<Rightarrow> v),
             rs_storage = storage, rs_deleted = deleted, rs_metric = vs_distance storage\<rparr>)
       (vs_total_vector_count storage)"

definition check_point :: "raw_scorer \<Rightarrow> nat \<Rightarrow> bool" where
  "check_point rs point \<longleftrightarrow>
     point < rs_points_count rs \<and> point < length (rs_deleted rs) \<and> \<not> rs_deleted rs ! point"

definition score_point :: "'s metrics \<Rightarrow> raw_scorer \<Rightarrow> nat \<Rightarrow> 's option" where
  "score_point M rs point =
     map_option (similarity M (rs_metric rs) (rs_query rs)) (vs_get_vector (rs_storage rs) point)"

definition score_internal :: "'s metrics \<Rightarrow> raw_scorer \<Rightarrow> nat \<Rightarrow> nat \<Rightarrow> 's option" where
  "score_internal M rs point_a point_b =
     Option.bind (vs_get_vector (rs_storage rs) point_a) (\<lambda>vector_a.
     map_option (similarity M (rs_metric rs) vector_a) (vs_get_vector (rs_storage rs) point_b))"

text \<open>\<open>score_points\<close> fills a buffer of \<open>n\<close> scores; the result is the part of it that was written.\<close>

fun score_points :: "'s metrics \<Rightarrow> raw_scorer \<Rightarrow> nat \<Rightarrow> 's scored_point_offset list \<Rightarrow> nat list
      \<Rightarrow> 's scored_point_offset list option" where
  "score_points M rs n scores [] = Some scores"
| "score_points M rs n scores (point_id # points) =
     (if \<not> check_point rs point_id then score_points M rs n scores points
      else Option.bind (score_point M rs point_id) (\<lambda>score.
             if n \<le> length scores then None
             else let scores' = scores @ [\<lparr>so_idx = point_id, so_score = score\<rparr>]
                  in if length scores' = n then Some scores' else score_points M rs n scores' points))"

fun score_stream :: "'s metrics \<Rightarrow> raw_scorer \<Rightarrow> nat list \<Rightarrow> 's scored_point_offset list option" where
  "score_stream M rs [] = Some []"
| "score_stream M rs (point_id # points) =
     (if \<not> check_point rs point_id then score_stream M rs points
      else Option.bind (score_point M rs point_id) (\<lambda>score.
             map_option ((#) \<lparr>so_idx = point_id, so_score = score\<rparr>) (score_stream M rs points)))"

definition peek_top_iter ::
    "'s::linorder metrics \<Rightarrow> raw_scorer \<Rightarrow> nat list \<Rightarrow> nat \<Rightarrow> 's scored_point_offset list option" where
  "peek_top_iter M rs points limit =
     (if limit = 0 then Some []
      else map_option (\<lambda>scores. peek_top_largest_iterable so_score scores limit) (score_stream M rs points))"

definition peek_top_all :: "'s::linorder metrics \<Rightarrow> raw_scorer \<Rightarrow> nat \<Rightarrow> 's scored_point_offset list option" where
  "peek_top_all M rs limit = peek_top_iter M rs [0..<rs_points_count rs] limit"

section \<open>The storage in memory agrees with the database\<close>

text \<open>
  \<open>svs_sync\<close>: the vectors in memory are those of \<open>m\<close>, and the column of the storage holds a record for each of
  them and nothing else.
\<close>

definition column_holds :: "'d db_contents \<Rightarrow> vs_codec \<Rightarrow> string \<Rightarrow> 'd \<Rightarrow> (nat \<rightharpoonup> vec) \<Rightarrow> bool" where
  "column_holds con C column d m \<longleftrightarrow>
     (\<exists>db. con d column = Some db
        \<and> (\<forall>k < 2 ^ 32. db (ser_offset C k) = map_option (\<lambda>v. ser_record C \<lparr>sr_deleted = False, sr_vector = v\<rparr>) (m k))
        \<and> (\<forall>b. db b \<noteq> None \<longrightarrow> (\<exists>k < 2 ^ 32. b = ser_offset C k)))
     \<and> (\<forall>k. m k \<noteq> None \<longrightarrow> k < 2 ^ 32)"

definition svs_sync :: "'d db_contents \<Rightarrow> vs_codec \<Rightarrow> string \<Rightarrow> nat \<Rightarrow> simple_vector_storage \<times> 'd \<Rightarrow> (nat \<rightharpoonup> vec) \<Rightarrow> bool" where
  "svs_sync con C column vdim s m \<longleftrightarrow>
     svs_column (fst s) = column \<and> svs_dim (fst s) = vdim
     \<and> cv_holds 0 (svs_vectors (fst s)) m \<and> cv_dim (svs_vectors (fst s)) = svs_dim (fst s)
     \<and> Option.bind (cv_new 4 (svs_dim (fst s))) (\<lambda>c :: element chunked_vectors. Some (cv_capacity c))
         = Some (cv_capacity (svs_vectors (fst s)))
     \<and> \<not> sr_deleted (svs_update_buffer (fst s)) \<and> length (sr_vector (svs_update_buffer (fst s))) = svs_dim (fst s)
     \<and> column_holds con C (svs_column (fst s)) (snd s) m"

lemma ser_offset_inj:
  assumes "vs_codec_ok C" "a < 2 ^ 32" "b < 2 ^ 32"
  shows "ser_offset C a = ser_offset C b \<longleftrightarrow> a = b"
  using assms unfolding vs_codec_ok_def by (metis option.inject)

lemma column_holds_put:
  assumes "vs_codec_ok C" "column_holds con C column d m" "k < 2 ^ 32"
    and "con d column = Some db"
    and "con d' = (con d)(column \<mapsto> db(ser_offset C k \<mapsto> ser_record C \<lparr>sr_deleted = False, sr_vector = v\<rparr>))"
  shows "column_holds con C column d' (m(k \<mapsto> v))"
proof -
  let ?db' = "db(ser_offset C k \<mapsto> ser_record C \<lparr>sr_deleted = False, sr_vector = v\<rparr>)"
  have db: "\<And>j. j < 2 ^ 32 \<Longrightarrow> db (ser_offset C j) = map_option (\<lambda>v. ser_record C \<lparr>sr_deleted = False, sr_vector = v\<rparr>) (m j)"
    "\<And>b. db b \<noteq> None \<Longrightarrow> \<exists>j < 2 ^ 32. b = ser_offset C j" "\<And>j. m j \<noteq> None \<Longrightarrow> j < 2 ^ 32"
    using assms(2,4) unfolding column_holds_def by auto
  have "?db' (ser_offset C j) = map_option (\<lambda>v. ser_record C \<lparr>sr_deleted = False, sr_vector = v\<rparr>) ((m(k \<mapsto> v)) j)"
    if "j < 2 ^ 32" for j
    using db(1) [OF that] ser_offset_inj [OF assms(1) that assms(3)] by auto
  moreover have "\<exists>j < 2 ^ 32. b = ser_offset C j" if "?db' b \<noteq> None" for b
    using that db(2) [of b] assms(3) by (auto split: if_splits)
  moreover have "j < 2 ^ 32" if "(m(k \<mapsto> v)) j \<noteq> None" for j
    using that db(3) [of j] assms(3) by (auto split: if_splits)
  moreover have "con d' column = Some ?db'"
    using assms(5) by simp
  ultimately show ?thesis
    unfolding column_holds_def by blast
qed

lemma cv_insert_dims:
  "cv_insert zero k v c = Some c' \<Longrightarrow> length v = cv_dim c"
  by (auto simp: cv_insert_def Let_def split: if_splits bind_splits)

lemma svs_write_sync:
  assumes "rocks_ok R con" "vs_codec_ok C" "svs_sync con C column vdim s m" "k < 2 ^ 32"
    and "cv_insert 0 k v (svs_vectors (fst s)) = Some vectors"
    and "update_stored R C k v ((fst s)\<lparr>svs_vectors := vectors\<rparr>, snd s) = Some (Inr (), s')"
  shows "svs_sync con C column vdim s' (m(k \<mapsto> v))"
proof -
  obtain st d st' d' where s: "s = (st, d)" "s' = (st', d')"
    by fastforce
  have sync: "cv_holds 0 (svs_vectors st) m" "cv_dim (svs_vectors st) = svs_dim st"
    "\<not> sr_deleted (svs_update_buffer st)" "length (sr_vector (svs_update_buffer st)) = svs_dim st"
    "column_holds con C (svs_column st) d m"
    using assms(3) unfolding svs_sync_def s by auto
  have len: "length v = cv_dim (svs_vectors st)"
    using cv_insert_dims [OF assms(5)] s by simp
  have new: "cv_holds 0 vectors (m(k \<mapsto> v))" "cv_dim vectors = cv_dim (svs_vectors st)"
    "cv_capacity vectors = cv_capacity (svs_vectors st)"
    using cv_holds_insert [OF sync(1) assms(4) len] assms(5) s by auto
  have buf: "(svs_update_buffer st)\<lparr>sr_vector := v\<rparr> = \<lparr>sr_deleted = False, sr_vector = v\<rparr>"
    using sync(3) by (cases "svs_update_buffer st") simp
  have st': "st' = st\<lparr>svs_vectors := vectors, svs_update_buffer := \<lparr>sr_deleted = False, sr_vector = v\<rparr>\<rparr>"
    and put: "col_put R (svs_column st) (ser_offset C k) (ser_record C \<lparr>sr_deleted = False, sr_vector = v\<rparr>) d = (Inr (), d')"
    using assms(6) sync(2,4) len unfolding update_stored_def s by (auto simp: on_db_Inr Let_def buf)
  obtain db where "con d (svs_column st) = Some db"
    "con d' = (con d)(svs_column st \<mapsto> db(ser_offset C k \<mapsto> ser_record C \<lparr>sr_deleted = False, sr_vector = v\<rparr>))"
    using col_put_ok [OF assms(1) put] by blast
  then have "column_holds con C (svs_column st) d' (m(k \<mapsto> v))"
    by (rule column_holds_put [OF assms(2) sync(5) assms(4)])
  then show ?thesis
    using assms(3) new len sync(2) unfolding svs_sync_def s st' by auto
qed

lemma svs_insert_sync:
  assumes "rocks_ok R con" "vs_codec_ok C" "svs_sync con C column vdim s m" "k < 2 ^ 32"
    and "svs_insert_vector R C k v s = Some (Inr (), s')"
  shows "svs_sync con C column vdim s' (m(k \<mapsto> v))"
  using assms(5) svs_write_sync [OF assms(1-4)] unfolding svs_insert_vector_def by (auto split: bind_splits)

lemma svs_copy_all_sync:
  assumes "rocks_ok R con" "vs_codec_ok C" "svs_sync con C column vdim s m" "svs_copy_all R C other stopped i ids s = Some (Inr (), s')"
  shows "\<exists>m'. svs_sync con C column vdim s' m'"
  using assms(3,4)
proof (induction ids arbitrary: i s m)
  case (Cons x ids)
  obtain v vectors s1 where v: "cv_insert 0 (cv_len (svs_vectors (fst s)) mod 2 ^ 32) v (svs_vectors (fst s)) = Some vectors"
    "update_stored R C (cv_len (svs_vectors (fst s)) mod 2 ^ 32) v ((fst s)\<lparr>svs_vectors := vectors\<rparr>, snd s) = Some (Inr (), s1)"
    "svs_copy_all R C other stopped (Suc i) ids s1 = Some (Inr (), s')"
    using Cons.prems(2) unfolding svs_copy_all.simps cv_push_def pst_bind_Inr Let_def
    by (auto simp: pst_bind_Inr split: sum.splits bind_splits)
  show ?case
    by (rule Cons.IH [OF svs_write_sync [OF assms(1,2) Cons.prems(1) _ v(1,2)] v(3)]) simp
qed auto

text \<open>The commands that change a storage in memory, run until one fails.\<close>

datatype vs_cmd = VsInsert nat vec | VsUpdateFrom "nat \<Rightarrow> vec option" "nat list" "nat \<Rightarrow> bool"

fun svs_cmd :: "'d rocksdb \<Rightarrow> vs_codec \<Rightarrow> vs_cmd \<Rightarrow> (simple_vector_storage \<times> 'd, op_error, unit) pst_op" where
  "svs_cmd R C (VsInsert k v) s = svs_insert_vector R C k v s"
| "svs_cmd R C (VsUpdateFrom other ids stopped) s = pst_bind (svs_update_from R C other ids stopped) (\<lambda>_ s. Some (Inr (), s)) s"

fun svs_cmds :: "'d rocksdb \<Rightarrow> vs_codec \<Rightarrow> vs_cmd list \<Rightarrow> (simple_vector_storage \<times> 'd, op_error, unit) pst_op" where
  "svs_cmds R C [] s = Some (Inr (), s)"
| "svs_cmds R C (c # cs) s = pst_bind (svs_cmd R C c) (\<lambda>_. svs_cmds R C cs) s"

fun vs_cmd_wf :: "vs_cmd \<Rightarrow> bool" where
  "vs_cmd_wf (VsInsert k _) \<longleftrightarrow> k < 2 ^ 32"
| "vs_cmd_wf (VsUpdateFrom _ _ _) \<longleftrightarrow> True"

lemma svs_cmd_sync:
  assumes "rocks_ok R con" "vs_codec_ok C" "svs_sync con C column vdim s m" "vs_cmd_wf c" "svs_cmd R C c s = Some (Inr (), s')"
  shows "\<exists>m'. svs_sync con C column vdim s' m'"
proof (cases c)
  case (VsInsert k v)
  then show ?thesis
    using svs_insert_sync [OF assms(1-3), of k v s'] assms(4,5) by auto
next
  case (VsUpdateFrom other ids stopped)
  then have "svs_copy_all R C other stopped 0 ids s = Some (Inr (), s')"
    using assms(5) by (auto simp: svs_update_from_def pst_bind_Inr Let_def)
  then show ?thesis
    by (rule svs_copy_all_sync [OF assms(1-3)])
qed

lemma svs_cmds_sync:
  assumes "rocks_ok R con" "vs_codec_ok C" "svs_sync con C column vdim s m" "\<forall>c \<in> set cs. vs_cmd_wf c"
    and "svs_cmds R C cs s = Some (Inr (), s')"
  shows "\<exists>m'. svs_sync con C column vdim s' m'"
  using assms(3-5)
proof (induction cs arbitrary: s m)
  case (Cons c cs)
  obtain s1 where s1: "svs_cmd R C c s = Some (Inr (), s1)" "svs_cmds R C cs s1 = Some (Inr (), s')"
    using Cons.prems(3) by (auto simp: pst_bind_Inr)
  obtain m1 where "svs_sync con C column vdim s1 m1"
    using svs_cmd_sync [OF assms(1,2) Cons.prems(1) _ s1(1)] Cons.prems(2) by auto
  then show ?case
    using Cons.IH [OF _ _ s1(2)] Cons.prems(2) by auto
qed auto

section \<open>Reopening\<close>

lemma load_vectors_fold:
  assumes "\<forall>(a, b) \<in> set kvs. \<exists>k v. de_offset C a = Some k \<and> de_record C b = Some v"
  shows "load_vectors C kvs c = map_option Inr
    (fold_opt (\<lambda>(k, v). cv_insert 0 k v) (map (\<lambda>(a, b). (the (de_offset C a), sr_vector (the (de_record C b)))) kvs) c)"
  using assms
proof (induction kvs arbitrary: c)
  case (Cons e kvs)
  then show ?case
    by (cases e) (auto split: bind_splits option.splits)
qed simp

lemma map_of_rev_distinct:
  assumes "distinct (map fst xs)"
  shows "map_of (rev xs) = map_of xs"
proof
  fix k
  have iff: "map_of (rev xs) k = Some v \<longleftrightarrow> map_of xs k = Some v" for v
    using assms map_of_eq_Some_iff [of xs k v] map_of_eq_Some_iff [of "rev xs" k v] by (simp flip: rev_map)
  show "map_of (rev xs) k = map_of xs k"
    using iff [of "the (map_of xs k)"] iff [of "the (map_of (rev xs) k)"]
    by (cases "map_of xs k"; cases "map_of (rev xs) k") simp_all
qed

lemma column_scan:
  assumes "rocks_ok R con" "vs_codec_ok C" "column_holds con C column d m"
  shows "\<exists>kvs. col_iter R column d = Inr kvs
    \<and> (\<forall>(a, b) \<in> set kvs. \<exists>k v. k < 2 ^ 32 \<and> m k = Some v \<and> de_offset C a = Some k
          \<and> de_record C b = Some \<lparr>sr_deleted = False, sr_vector = v\<rparr>)
    \<and> map_of (rev (map (\<lambda>(a, b). (the (de_offset C a), sr_vector (the (de_record C b)))) kvs)) = m"
proof -
  obtain db where db: "con d column = Some db"
    "\<And>k. k < 2 ^ 32 \<Longrightarrow> db (ser_offset C k) = map_option (\<lambda>v. ser_record C \<lparr>sr_deleted = False, sr_vector = v\<rparr>) (m k)"
    "\<And>b. db b \<noteq> None \<Longrightarrow> \<exists>k < 2 ^ 32. b = ser_offset C k" "\<And>k. m k \<noteq> None \<Longrightarrow> k < 2 ^ 32"
    using assms(3) unfolding column_holds_def by blast
  obtain kvs where kvs: "col_iter R column d = Inr kvs" "map_of kvs = db" "sorted_wrt (<) (map fst kvs)"
    using col_iter_ok [OF assms(1) db(1)] by blast
  have dist: "distinct (map fst kvs)"
    using kvs(3) by (simp add: strict_sorted_iff)
  have entry: "\<exists>k v. k < 2 ^ 32 \<and> m k = Some v \<and> a = ser_offset C k \<and> de_offset C a = Some k
      \<and> b = ser_record C \<lparr>sr_deleted = False, sr_vector = v\<rparr> \<and> de_record C b = Some \<lparr>sr_deleted = False, sr_vector = v\<rparr>"
    if "(a, b) \<in> set kvs" for a b
  proof -
    have ab: "db a = Some b"
      using that dist kvs(2) by auto
    then obtain k where k: "k < 2 ^ 32" "a = ser_offset C k"
      using db(3) by blast
    then show ?thesis
      using ab db(2) [OF k(1)] assms(2) by (auto simp: vs_codec_ok_def)
  qed
  let ?ops = "map (\<lambda>(a, b). (the (de_offset C a), sr_vector (the (de_record C b)))) kvs"
  have keys: "map fst ?ops = map (the \<circ> de_offset C) (map fst kvs)"
    by (simp add: comp_def case_prod_unfold)
  have "inj_on (the \<circ> de_offset C) (set (map fst kvs))"
    using entry by (auto simp: inj_on_def) (metis option.sel)
  then have dist': "distinct (map fst ?ops)"
    unfolding keys distinct_map [of "the \<circ> de_offset C" "map fst kvs"] using dist by blast
  have iff: "map_of ?ops k = Some v \<longleftrightarrow> m k = Some v" for k v
  proof
    assume "map_of ?ops k = Some v"
    then obtain a b where "(a, b) \<in> set kvs" "k = the (de_offset C a)" "v = sr_vector (the (de_record C b))"
      using map_of_SomeD by fastforce
    then show "m k = Some v"
      using entry by fastforce
  next
    assume k: "m k = Some v"
    then have "k < 2 ^ 32"
      using db(4) by simp
    then have "(ser_offset C k, ser_record C \<lparr>sr_deleted = False, sr_vector = v\<rparr>) \<in> set kvs"
      using db(2) k kvs(2) map_of_SomeD by fastforce
    from imageI [OF this, of "\<lambda>(a, b). (the (de_offset C a), sr_vector (the (de_record C b)))"]
    have "(k, v) \<in> set ?ops"
      using assms(2) \<open>k < 2 ^ 32\<close> unfolding vs_codec_ok_def set_map by simp
    then show "map_of ?ops k = Some v"
      using dist' by simp
  qed
  have "map_of ?ops k = m k" for k
    using iff [of k "the (m k)"] iff [of k "the (map_of ?ops k)"] by (cases "m k"; cases "map_of ?ops k") simp_all
  then have "map_of ?ops = m"
    by (rule ext)
  moreover have "map_of (rev ?ops) = map_of ?ops"
    using dist' by (rule map_of_rev_distinct)
  moreover have "\<forall>(a, b) \<in> set kvs. \<exists>k v. k < 2 ^ 32 \<and> m k = Some v \<and> de_offset C a = Some k
      \<and> de_record C b = Some \<lparr>sr_deleted = False, sr_vector = v\<rparr>"
    using entry by blast
  ultimately show ?thesis
    using kvs(1) by (intro exI [of _ kvs]) (simp only: simp_thms)
qed

lemma svs_reopen:
  assumes "rocks_ok R con" "vs_codec_ok C" "svs_sync con C column vdim (st, d) m" "vdim * 4 < 2 ^ 60"
  shows "\<exists>st'. open_simple_vector_storage R C column vdim dst d = Some (Inr st')
    \<and> svs_get_vector st' = svs_get_vector st \<and> svs_total_vector_count st' = svs_total_vector_count st"
proof -
  have sync: "cv_holds 0 (svs_vectors st) m" "cv_dim (svs_vectors st) = vdim" "column_holds con C column d m"
    using assms(3) unfolding svs_sync_def by auto
  obtain c :: "element chunked_vectors" where c: "cv_new 4 vdim = Some c" "cv_capacity c = cv_capacity (svs_vectors st)"
    using assms(3) unfolding svs_sync_def by (auto split: bind_splits)
  note new = cv_holds_new [OF c(1) assms(4), of 0] cv_wf_new(2) [OF c(1) assms(4)]
  obtain kvs where kvs: "col_iter R column d = Inr kvs"
    "\<forall>(a, b) \<in> set kvs. \<exists>k v. k < 2 ^ 32 \<and> m k = Some v \<and> de_offset C a = Some k
        \<and> de_record C b = Some \<lparr>sr_deleted = False, sr_vector = v\<rparr>"
    "map_of (rev (map (\<lambda>(a, b). (the (de_offset C a), sr_vector (the (de_record C b)))) kvs)) = m"
    using column_scan [OF assms(1,2) sync(3)] by blast
  let ?ops = "map (\<lambda>(a, b). (the (de_offset C a), sr_vector (the (de_record C b)))) kvs"
  have len: "length v = vdim" if "m k = Some v" for k v
    using sync(1,2) that unfolding cv_holds_def by auto
  have "\<forall>(k, v) \<in> set ?ops. k < 2 ^ 32 \<and> length v = cv_dim c"
    using kvs(2) len unfolding new(2) by fastforce
  from cv_holds_inserts [OF new(1) this] obtain c'
    where c': "fold_opt (\<lambda>(k, v). cv_insert 0 k v) ?ops c = Some c'" "cv_holds 0 c' m" "cv_dim c' = cv_dim c"
      "cv_capacity c' = cv_capacity c"
    unfolding kvs(3) by auto
  have "\<forall>(a, b) \<in> set kvs. \<exists>k v. de_offset C a = Some k \<and> de_record C b = Some v"
    using kvs(2) by blast
  then have load: "load_vectors C kvs c = Some (Inr c')"
    using load_vectors_fold [of kvs C c] c'(1) by simp
  show ?thesis
    using cv_holds_same [OF sync(1) c'(2)] c'(3,4) c new(2) sync(2) kvs(1) load
    by (simp add: open_simple_vector_storage_def svs_get_vector_def [abs_def] svs_total_vector_count_def)
qed

text \<open>
  C29. Vectors survive a restart. A storage is opened on an empty column, and any sequence of insertions and copies
  from other storages runs without error. Opening the column again returns, whatever the order of the keys in the
  database is, and reads the same vector, and panics, at the same keys; the number of vectors is the same.\<close>

theorem simple_storage_restart:
  assumes "rocks_ok R con" "vs_codec_ok C" "con d column = Some Map.empty" "vdim * 4 < 2 ^ 60"
    and "open_simple_vector_storage R C column vdim dst d = Some (Inr st)"
    and "\<forall>c \<in> set cs. vs_cmd_wf c" "svs_cmds R C cs (st, d) = Some (Inr (), (st', d'))"
  shows "\<exists>st''. open_simple_vector_storage R C column vdim dst d' = Some (Inr st'')
    \<and> svs_get_vector st'' = svs_get_vector st' \<and> svs_total_vector_count st'' = svs_total_vector_count st'"
proof -
  obtain c :: "element chunked_vectors" where c: "cv_new 4 vdim = Some c"
    using assms(5) by (auto simp: open_simple_vector_storage_def split: bind_splits)
  have hold: "column_holds con C column d Map.empty"
    using assms(3) by (simp add: column_holds_def)
  obtain kvs where iter: "col_iter R column d = Inr kvs" and "map_of kvs = Map.empty"
    using col_iter_ok [OF assms(1,3)] by blast
  then have kvs: "col_iter R column d = Inr []"
    by simp
  have st: "st = \<lparr>svs_dim = vdim, svs_distance = dst, svs_vectors = c, svs_column = column,
      svs_update_buffer = \<lparr>sr_deleted = False, sr_vector = replicate vdim 0\<rparr>\<rparr>"
    using assms(5) c kvs by (simp add: open_simple_vector_storage_def)
  have "svs_sync con C column vdim (st, d) Map.empty"
    using cv_holds_new [OF c assms(4), of 0] cv_wf_new(2) [OF c assms(4)] c hold unfolding svs_sync_def st by simp
  then obtain m where "svs_sync con C column vdim (st', d') m"
    using svs_cmds_sync [OF assms(1,2) _ assms(6,7)] by blast
  then show ?thesis
    using svs_reopen [OF assms(1,2) _ assms(4), of column st' d' m dst] by blast
qed

section \<open>The mapped file\<close>

lemma length_element_bytes [simp]: "length (element_bytes x) = 4"
  by (simp add: element_bytes_def)

lemma length_VECTORS_HEADER [simp]: "length VECTORS_HEADER = 4"
  by (simp add: VECTORS_HEADER_def)

lemma length_4_cases: "length xs = 4 \<Longrightarrow> \<exists>a b c e. xs = [a, b, c, e]"
  by (auto simp: numeral_eq_Suc length_Suc_conv)

lemma elements_of_element_bytes: "elements_of_bytes (element_bytes x @ bs) = x # elements_of_bytes bs"
proof -
  obtain a b c e where r: "element_bytes x = [a, b, c, e]"
    using length_4_cases [OF length_element_bytes [of x]] by blast
  then have "u32_to_be_bytes x = [e, c, b, a]"
    by (simp add: element_bytes_def rev_swap)
  then show ?thesis
    using u32_from_to_be_bytes [of x] by (simp add: r)
qed

lemma elements_of_bytes_vf [simp]: "elements_of_bytes (vf_to_u8 v) = v"
  by (induction v) (simp_all add: vf_to_u8_def elements_of_element_bytes)

lemma length_vf_to_u8 [simp]: "length (vf_to_u8 v) = 4 * length v"
  by (induction v) (simp_all add: vf_to_u8_def)

text \<open>What the operations of the file do when they succeed; \<open>con f\<close> is its contents.\<close>

definition data_file_ok :: "'f data_file \<Rightarrow> ('f \<Rightarrow> bytes option) \<Rightarrow> bool" where
  "data_file_ok D con \<longleftrightarrow>
     (\<forall>f. df_exists D f \<longleftrightarrow> con f \<noteq> None)
     \<and> (\<forall>f f'. df_create D f = (Inr (), f') \<longrightarrow> con f' = Some [])
     \<and> (\<forall>f f'. df_open_append D f = (Inr (), f') \<longrightarrow> con f' = con f)
     \<and> (\<forall>f f'. df_flush D f = (Inr (), f') \<longrightarrow> con f' = con f)
     \<and> (\<forall>f f' b. df_write_all D b f = (Inr (), f') \<longrightarrow> con f' = map_option (\<lambda>old. old @ b) (con f))
     \<and> (\<forall>f b. df_map D f = Inr b \<longrightarrow> con f = Some b)"

definition mapped_bytes :: "vec list \<Rightarrow> bytes" where
  "mapped_bytes vs = VECTORS_HEADER @ concat (map vf_to_u8 vs)"

definition mv_holds :: "nat \<Rightarrow> mmap_vectors \<Rightarrow> vec list \<Rightarrow> bool" where
  "mv_holds vdim mv vs \<longleftrightarrow> mv_dim mv = vdim \<and> mv_num_vectors mv = length vs \<and> mv_mmap mv = mapped_bytes vs
     \<and> (\<forall>v \<in> set vs. length v = vdim) \<and> length vs < 2 ^ 32 \<and> 0 < vdim \<and> vdim < 2 ^ 28"

lemma length_vf_concat:
  "\<forall>v \<in> set vs. length v = vdim \<Longrightarrow> length (concat (map vf_to_u8 vs)) = length vs * (vdim * 4)"
  by (induction vs) simp_all

lemma slice_vf_concat:
  assumes "\<forall>v \<in> set vs. length v = vdim" "k < length vs"
  shows "take (vdim * 4) (drop (k * (vdim * 4)) (concat (map vf_to_u8 vs))) = vf_to_u8 (vs ! k)"
  using assms
proof (induction vs arbitrary: k)
  case (Cons v vs)
  show ?case
  proof (cases k)
    case 0
    then show ?thesis
      using Cons.prems by simp
  next
    case (Suc j)
    then have "take (vdim * 4) (drop (j * (vdim * 4)) (concat (map vf_to_u8 vs))) = vf_to_u8 (vs ! j)"
      using Cons by simp
    moreover have "drop (k * (vdim * 4)) (concat (map vf_to_u8 (v # vs))) = drop (j * (vdim * 4)) (concat (map vf_to_u8 vs))"
      using Cons.prems Suc by simp
    ultimately show ?thesis
      using Suc by simp
  qed
qed simp

lemma mv_get_spec:
  assumes "mv_holds vdim mv vs"
  shows "mv_get_vector mv k = (if k < length vs then Some (vs ! k) else None)"
proof (cases "k < length vs")
  case True
  have h: "mv_dim mv = vdim" "mv_num_vectors mv = length vs" "mv_mmap mv = mapped_bytes vs"
    "\<forall>v \<in> set vs. length v = vdim" "length vs < 2 ^ 32" "vdim < 2 ^ 28"
    using assms unfolding mv_holds_def by blast+
  have "k * (vdim * 4) \<le> 2 ^ 32 * 2 ^ 30"
    using True h(5,6) by (intro mult_le_mono) simp_all
  then have small: "k * (vdim * 4) + 4 + vdim * 4 < 2 ^ 64"
    using h(6) by simp
  then have off: "data_offset mv k = Some (k * (vdim * 4) + 4)" "raw_size mv = vdim * 4"
    using True h(1,2,5,6) by (simp_all add: data_offset_def raw_size_def HEADER_SIZE_def Let_def)
  have "Suc k * (vdim * 4) \<le> length vs * (vdim * 4)"
    using True by (intro mult_le_mono1) simp
  then have "k * (vdim * 4) + vdim * 4 \<le> length (concat (map vf_to_u8 vs))"
    using length_vf_concat [OF h(4)] by simp
  then have "slice_range (mv_mmap mv) (k * (vdim * 4) + 4) (k * (vdim * 4) + 4 + vdim * 4) = Some (vf_to_u8 (vs ! k))"
    using slice_vf_concat [OF h(4) True]
    by (simp add: slice_range_def h(3) mapped_bytes_def)
  moreover have "length (vs ! k) = vdim"
    using True h(4) by simp
  ultimately show ?thesis
    using True small off h(1) by (simp add: mv_get_vector_def raw_vector_offset_def slice_range_def)
next
  case False
  then show ?thesis
    using assms by (auto simp: mv_holds_def mv_get_vector_def data_offset_def Let_def)
qed

lemma mv_open_spec:
  assumes "data_file_ok D con" "con f = Some (mapped_bytes vs)" "mv_open D vdim f = Some (Inr mv, f')"
    and "\<forall>v \<in> set vs. length v = vdim" "length vs < 2 ^ 32" "0 < vdim" "vdim < 2 ^ 28"
  shows "mv_holds vdim mv vs" "f' = f"
proof -
  have "df_exists D f"
    using assms(1,2) by (simp add: data_file_ok_def)
  then obtain b where b: "df_map D f = Inr b" "f' = f"
    "mv = \<lparr>mv_dim = vdim, mv_num_vectors = usize_sub (length b) HEADER_SIZE div vdim div 4, mv_mmap = b\<rparr>"
    using assms(3,6) unfolding mv_open_def pst_bind_Inr
    by (auto simp: ensure_mmap_file_exists_def map_db_err_def split: sum.splits if_splits)
  then show "f' = f"
    by simp
  have bytes: "b = mapped_bytes vs"
    using assms(1,2) b(1) by (simp add: data_file_ok_def)
  have "length vs * (vdim * 4) \<le> 2 ^ 32 * 2 ^ 30"
    using assms(5,7) by (intro mult_le_mono) simp_all
  then have "length b - 4 = length vs * (vdim * 4)" "4 \<le> length b" "length b < 2 ^ 64"
    using length_vf_concat [OF assms(4)] by (simp_all add: bytes mapped_bytes_def)
  moreover have "length vs * (vdim * 4) div vdim div 4 = length vs"
    using assms(6) by (simp add: div_mult2_eq [symmetric])
  ultimately show "mv_holds vdim mv vs"
    using assms(4-7) b(3) bytes by (simp add: mv_holds_def HEADER_SIZE_def)
qed

lemma mvs_append_spec:
  assumes "data_file_ok D con" "mvs_append_all D other stopped i ids n f = Some (Inr n', f')"
    and "con f = Some (mapped_bytes vs)" "n + length ids < 2 ^ 32"
  shows "\<exists>ws. map other ids = map Some ws \<and> con f' = Some (mapped_bytes (vs @ ws)) \<and> n' = n + length ids"
  using assms(2-4)
proof (induction ids arbitrary: i n f vs)
  case (Cons x ids)
  obtain w f1 where w: "other x = Some w" "io_op (df_write_all D (vf_to_u8 w)) f = (Inr (), f1)"
    "mvs_append_all D other stopped (Suc i) ids (n + 1) f1 = Some (Inr n', f')"
    using Cons.prems(1,3) by (auto simp: pst_bind_Inr split: sum.splits bind_splits)
  have "df_write_all D (vf_to_u8 w) f = (Inr (), f1)"
    using w(2) by (auto simp: io_op_def map_db_err_def apfst_def map_prod_def split: sum.splits prod.splits)
  then have f1: "con f1 = Some (mapped_bytes (vs @ [w]))"
    using assms(1) Cons.prems(2) by (simp add: data_file_ok_def mapped_bytes_def)
  obtain ws where "map other ids = map Some ws" "con f' = Some (mapped_bytes ((vs @ [w]) @ ws))" "n' = n + 1 + length ids"
    using Cons.IH [OF w(3) f1] Cons.prems(3) by auto
  then show ?case
    using w(1) by (intro exI [of _ "w # ws"]) simp
qed simp

text \<open>
  C31. Filling a mapped storage from another one. When the copy succeeds, the range returned is that of the new vectors,
  the vectors stored before are where they were, and the new ones follow in the order of their ids. When it fails or is
  stopped, the error is returned and the storage has no mapping left: every later read panics.\<close>

theorem memmap_update_from_outcome:
  assumes "data_file_ok D con" "mvs_mmap_store st = Some mv" "mv_holds vdim mv vs" "con f = Some (mapped_bytes vs)"
    and "length vs + length ids < 2 ^ 32" "\<forall>x \<in> set ids. \<forall>w. other x = Some w \<longrightarrow> length w = vdim"
    and "mvs_update_from D other ids stopped (st, f) = Some (r, (st', f'))"
  shows "case r of
      Inl e \<Rightarrow> \<forall>k. mvs_get_vector st' k = None
    | Inr (a, b) \<Rightarrow> a = length vs \<and> b = length vs + length ids
        \<and> (\<forall>k. mvs_get_vector st' k =
             (if k < length vs then Some (vs ! k) else if k < b then other (ids ! (k - length vs)) else None))"
proof (cases r)
  case (Inl e)
  then show ?thesis
    using assms(2,7) by (auto simp: mvs_update_from_def mvs_get_vector_def Let_def split: option.splits sum.splits)
next
  case (Inr ab)
  have h: "mv_dim mv = vdim" "mv_num_vectors mv = length vs" "\<forall>v \<in> set vs. length v = vdim" "0 < vdim" "vdim < 2 ^ 28"
    using assms(3) unfolding mv_holds_def by blast+
  obtain n mv' f1 f2 f3 where run: "io_op (df_open_append D) f = (Inr (), f1)"
      "mvs_append_all D other stopped 0 ids (length vs) f1 = Some (Inr n, f2)"
      "io_op (df_flush D) f2 = (Inr (), f3)" "mv_open D vdim f3 = Some (Inr mv', f')"
      "ab = (length vs, n)" "mvs_mmap_store st' = Some mv'"
    using assms(2,5,7) Inr h(1,2)
    by (auto simp: mvs_update_from_def Let_def pst_bind_Inr split: option.splits sum.splits prod.splits)
  have io: "m f = (Inr (), f')" if "io_op m f = (Inr (), f')" for m :: "('f, string, unit) st_op" and f f' :: 'f
    using that by (auto simp: io_op_def map_db_err_def apfst_def map_prod_def split: sum.splits prod.splits)
  have "con f1 = Some (mapped_bytes vs)"
    using assms(1,4) io [OF run(1)] by (simp add: data_file_ok_def)
  then obtain ws where ws: "map other ids = map Some ws" "con f2 = Some (mapped_bytes (vs @ ws))" "n = length vs + length ids"
    using mvs_append_spec [OF assms(1) run(2) _ assms(5)] by blast
  have len: "length ws = length ids"
    using arg_cong [OF ws(1), of length] by simp
  have nth: "other (ids ! i) = Some (ws ! i)" if "i < length ids" for i
    using arg_cong [OF ws(1), of "\<lambda>l. l ! i"] that len by simp
  have "length (ws ! i) = vdim" if "i < length ids" for i
    using assms(6) nth [OF that] nth_mem [OF that] by blast
  then have "\<forall>v \<in> set (vs @ ws). length v = vdim"
    using h(3) len by (auto simp: in_set_conv_nth)
  moreover have "con f3 = Some (mapped_bytes (vs @ ws))"
    using assms(1) io [OF run(3)] ws(2) by (simp add: data_file_ok_def)
  ultimately have "mv_holds vdim mv' (vs @ ws)"
    using mv_open_spec(1) [OF assms(1) _ run(4), of "vs @ ws"] assms(5) len h(4,5) by simp
  from mv_get_spec [OF this] show ?thesis
    using nth len ws(3) run(5,6) by (simp add: Inr mvs_get_vector_def nth_append)
qed

section \<open>The scorer finds the closest live points\<close>

lemma distinct_submset:
  assumes "mset xs \<subseteq># mset ys" "distinct ys"
  shows "distinct xs"
proof -
  obtain zs where "mset ys = mset (xs @ zs)"
    using assms(1) by (metis ex_mset mset_append subset_mset.le_iff_add)
  then show ?thesis
    using assms(2) mset_eq_imp_distinct_iff by fastforce
qed

lemma score_stream_spec:
  assumes "\<forall>i \<in> set points. check_point rs i \<longrightarrow> vs_get_vector (rs_storage rs) i \<noteq> None"
  shows "score_stream M rs points =
    Some (map (\<lambda>i. \<lparr>so_idx = i, so_score = similarity M (rs_metric rs) (rs_query rs) (the (vs_get_vector (rs_storage rs) i))\<rparr>)
      (filter (check_point rs) points))"
  using assms by (induction points) (auto simp: score_point_def)

text \<open>
  C30. A full scan finds the closest points: when every live point has a stored vector, the scorer returns, without a
  panic, live points with their similarity to the query, each once, and the scores are the largest ones over all live
  points, in decreasing order, as many as asked for.\<close>

theorem peek_top_all_exact:
  fixes M :: "'s::linorder metrics"
  assumes "\<forall>i. check_point rs i \<longrightarrow> vs_get_vector (rs_storage rs) i \<noteq> None"
  defines "score \<equiv> \<lambda>i. similarity M (rs_metric rs) (rs_query rs) (the (vs_get_vector (rs_storage rs) i))"
  shows "\<exists>res. peek_top_all M rs limit = Some res
    \<and> map so_score res = take limit (rev (sort (map score (filter (check_point rs) [0..<rs_points_count rs]))))
    \<and> distinct (map so_idx res) \<and> (\<forall>p \<in> set res. check_point rs (so_idx p) \<and> so_score p = score (so_idx p))"
proof -
  let ?live = "filter (check_point rs) [0..<rs_points_count rs]"
  let ?pts = "map (\<lambda>i. \<lparr>so_idx = i, so_score = score i\<rparr>) ?live"
  let ?res = "peek_top_largest_iterable so_score ?pts limit"
  have "score_stream M rs [0..<rs_points_count rs] = Some ?pts"
    unfolding score_def by (rule score_stream_spec) (use assms(1) in blast)
  then have run: "peek_top_all M rs limit = Some ?res"
    by (simp add: peek_top_all_def peek_top_iter_def peek_top_largest_iterable_def pq_new_def)
  have keys: "map so_score ?res = take limit (rev (sort (map score ?live)))"
    unfolding peek_top_largest_keys top_keys_def by (simp add: comp_def)
  have sub: "mset ?res \<subseteq># mset ?pts"
    by (rule peek_top_subset)
  then have "mset (map so_idx ?res) \<subseteq># mset (map so_idx ?pts)"
    unfolding mset_map by (rule image_mset_subseteq_mono)
  moreover have "distinct (map so_idx ?pts)"
    by (simp add: comp_def)
  ultimately have "distinct (map so_idx ?res)"
    by (rule distinct_submset)
  moreover have "set ?res \<subseteq> set ?pts"
    using sub by (metis set_mset_mono set_mset_mset)
  ultimately show ?thesis
    using run keys by (intro exI [of _ ?res]) auto
qed

theorem peek_top_all_exact_witness:
  "\<exists>res. peek_top_all \<lparr>preprocess = (\<lambda>_ v. None), similarity = (\<lambda>_ a b. length b)\<rparr>
     \<lparr>rs_points_count = 2, rs_query = [1], rs_storage = VsSimple \<lparr>svs_dim = 1, svs_distance = Dot,
        svs_vectors = \<lparr>cv_dim = 1, cv_len = 2, cv_capacity = 16, cv_chunks = [[5, 6]]\<rparr>, svs_column = [],
        svs_update_buffer = \<lparr>sr_deleted = False, sr_vector = [0]\<rparr>\<rparr>,
      rs_deleted = [True, False], rs_metric = Dot\<rparr> 3 = Some res
   \<and> map so_score res = [1] \<and> (\<forall>p \<in> set res. so_idx p = 1)"
proof -
  let ?c = "\<lparr>cv_dim = 1, cv_len = 2, cv_capacity = 16, cv_chunks = [[5, 6 :: element]]\<rparr>"
  let ?st = "VsSimple \<lparr>svs_dim = 1, svs_distance = Dot, svs_vectors = ?c, svs_column = [],
        svs_update_buffer = \<lparr>sr_deleted = False, sr_vector = [0]\<rparr>\<rparr>"
  let ?rs = "\<lparr>rs_points_count = 2, rs_query = [1], rs_storage = ?st, rs_deleted = [True, False], rs_metric = Dot\<rparr>"
  have live: "check_point ?rs i \<longleftrightarrow> i = 1" for i
    by (auto simp: check_point_def less_Suc_eq numeral_2_eq_2)
  have get: "vs_get_vector ?st 1 = Some [6]"
    by (simp add: svs_get_vector_def cv_get_def vec_get_def slice_range_def usize_mul_def usize_add_def)
  have "filter (check_point ?rs) [0..<2] = [1]"
    by (simp add: check_point_def upt_rec)
  then show ?thesis
    using peek_top_all_exact [of ?rs "\<lparr>preprocess = (\<lambda>_ v. None), similarity = (\<lambda>_ a b. length b)\<rparr>" 3] live get by auto
qed

text \<open>A file and a serialiser in memory.\<close>

definition mem_data_file :: "bytes option data_file" where
  "mem_data_file = \<lparr>df_exists = (\<lambda>f. f \<noteq> None), df_create = (\<lambda>_. (Inr (), Some [])), df_open_append = (\<lambda>f. (Inr (), f)),
     df_write_all = (\<lambda>b f. (Inr (), map_option (\<lambda>old. old @ b) f)), df_flush = (\<lambda>f. (Inr (), f)),
     df_map = (\<lambda>f. case f of None \<Rightarrow> Inl ''not found'' | Some b \<Rightarrow> Inr b)\<rparr>"

lemma data_file_ok_mem: "data_file_ok mem_data_file (\<lambda>f. f)"
  by (auto simp: data_file_ok_def mem_data_file_def split: option.splits)

theorem memmap_update_from_outcome_witness:
  "\<exists>st' f'. mvs_update_from mem_data_file (\<lambda>_. Some [8]) [5] (\<lambda>_. False)
       (\<lparr>mvs_mmap_store = Some \<lparr>mv_dim = 1, mv_num_vectors = 1, mv_mmap = mapped_bytes [[7]]\<rparr>, mvs_distance = Dot\<rparr>,
        Some (mapped_bytes [[7]])) = Some (Inr (1, 2), (st', f'))
     \<and> mvs_get_vector st' 0 = Some [7] \<and> mvs_get_vector st' 1 = Some [8]"
proof -
  let ?mv = "\<lparr>mv_dim = 1, mv_num_vectors = 1, mv_mmap = mapped_bytes [[7]]\<rparr>"
  let ?st = "\<lparr>mvs_mmap_store = Some ?mv, mvs_distance = Dot\<rparr>"
  have run: "\<exists>st' f'. mvs_update_from mem_data_file (\<lambda>_. Some [8]) [5] (\<lambda>_. False) (?st, Some (mapped_bytes [[7]]))
      = Some (Inr (1, 2), (st', f'))"
    by (simp add: mvs_update_from_def mem_data_file_def pst_bind_def io_op_def map_db_err_def check_process_stopped_def
        mv_open_def ensure_mmap_file_exists_def)
  then obtain st' f' where r: "mvs_update_from mem_data_file (\<lambda>_. Some [8]) [5] (\<lambda>_. False) (?st, Some (mapped_bytes [[7]]))
      = Some (Inr (1, 2), (st', f'))"
    by blast
  have "mv_holds 1 ?mv [[7]]"
    by (simp add: mv_holds_def)
  then show ?thesis
    using memmap_update_from_outcome [OF data_file_ok_mem _ _ _ _ _ r, of ?mv 1 "[[7]]"] r by auto
qed

definition plain_codec :: vs_codec where
  "plain_codec = \<lparr>ser_offset = be_bytes 4, de_offset = (\<lambda>b. Some (be_value b)),
     ser_record = (\<lambda>r. (if sr_deleted r then 1 else 0) # vf_to_u8 (sr_vector r)),
     de_record = (\<lambda>b. case b of [] \<Rightarrow> None | x # xs \<Rightarrow> Some \<lparr>sr_deleted = (x = 1), sr_vector = elements_of_bytes xs\<rparr>)\<rparr>"

lemma vs_codec_ok_plain: "vs_codec_ok plain_codec"
  by (auto simp: vs_codec_ok_def plain_codec_def be_value_bytes)

theorem simple_storage_restart_witness:
  "\<exists>st st' d' st''. open_simple_vector_storage mem_rocksdb plain_codec ''vector'' 1 Dot [(''vector'', [])] = Some (Inr st)
     \<and> svs_cmds mem_rocksdb plain_codec [VsInsert 0 [7]] (st, [(''vector'', [])]) = Some (Inr (), (st', d'))
     \<and> open_simple_vector_storage mem_rocksdb plain_codec ''vector'' 1 Dot d' = Some (Inr st'')
     \<and> svs_get_vector st'' 0 = svs_get_vector st' 0"
proof -
  let ?d = "[(''vector'', [])] :: mem_db"
  obtain c :: "element chunked_vectors" where c: "cv_new 4 1 = Some c"
    by (simp add: cv_new_def usize_mul_def)
  define st where "st = \<lparr>svs_dim = 1, svs_distance = Dot, svs_vectors = c, svs_column = ''vector'',
      svs_update_buffer = \<lparr>sr_deleted = False, sr_vector = [0]\<rparr>\<rparr>"
  have opened: "open_simple_vector_storage mem_rocksdb plain_codec ''vector'' 1 Dot ?d = Some (Inr st)"
    using c by (simp add: open_simple_vector_storage_def st_def col_iter_def get_column_family_def mem_rocksdb_def mem_family_def)
  obtain c' where "cv_insert 0 0 [7] c = Some c'"
    using cv_insert_spec [of c 0 "[7]" 0] cv_wf_new [OF c] by auto
  then obtain st' d' where run: "svs_cmds mem_rocksdb plain_codec [VsInsert 0 [7]] (st, ?d) = Some (Inr (), (st', d'))"
    by (simp add: pst_bind_def svs_insert_vector_def update_stored_def st_def on_db_def col_put_def get_column_family_def
        mem_rocksdb_def map_db_err_def Let_def)
  have "mem_contents ?d ''vector'' = Some Map.empty"
    by (simp add: mem_contents_def)
  from simple_storage_restart [OF rocks_ok_mem vs_codec_ok_plain this _ opened _ run] show ?thesis
    using opened run by auto
qed

end
