(* ===== verification/Spec2Isabelle.thy ===== *)
theory Spec2Isabelle
  imports Shard_Distribution Filters Id_Tracker Payload_Storage Query_Estimator Query_Optimizer Map_Index
    Consensus_Manager Segments_Search Vector_Storage
begin

text \<open>
  A verification development for the vector search engine qdrant.

  \<^bold>\<open>The program.\<close> Its crates are under \<open>src/lib\<close>. \<open>segment\<close> stores points (vectors with JSON payloads) in segments
  and searches them: an id tracker maps the ids of the users to internal offsets, vector storages and a payload
  storage keep the data by offset, payload indexes answer filters. \<open>collection\<close> groups segments into shards, shards
  into collections, and merges the results of segments. \<open>storage\<close> keeps the collections of a cluster in step
  through a Raft log. The binary \<open>src/src\<close> and the crate \<open>api\<close> expose all of it over REST and gRPC. Paths below are
  relative to \<open>src/lib\<close>.

  \<^bold>\<open>How code becomes definitions.\<close> A struct is a record, an enum a datatype, and a function of the code one
  definition of the same name, prefixed where a name would clash. A method that changes its object and may fail has
  the type \<open>st_op\<close> of \<open>Prelude\<close>, which returns the state on the error branch as well; a panic is \<open>None\<close>. Integers of
  the code are natural numbers with the wrap-around of a release build written out where it can happen, or words
  where their bits matter; debug assertions are left out. Locks, threads and futures are not modelled: every
  operation runs alone, and tasks that are joined run in the order they are joined. The iteration order of a hash map
  is the order of an association list, on which no theorem depends.

  \<^bold>\<open>Code outside the repository\<close> is a parameter: a record of its calls, with a predicate that states their documented
  behaviour. These are RocksDB (\<open>rocks_ok\<close>), the serialisers bincode, CBOR and prost (\<open>bincode_ok\<close>, \<open>cbor_ok\<close>,
  \<open>prost_ok\<close>, \<open>vs_codec_ok\<close>), the log file of the \<open>wal\<close> crate (\<open>wal_ok\<close>), files (\<open>file_ok\<close>, \<open>byte_file_ok\<close>,
  \<open>data_file_ok\<close>), the numbers of serde_json (\<open>number_api\<close>), the haversine distance, the Raft node and the distance
  functions on vectors. Each predicate is shown to hold of a concrete instance, which the witnesses use.

  \<^bold>\<open>Foundations.\<close>
  \<^item> \<open>Prelude\<close>: results, stateful operations, panics, vectors, \<open>usize\<close> and ordered maps of the standard library; the
    locale \<open>map_container\<close> is the contract of a map, interpreted on the ordered maps.
  \<^item> \<open>Rust_Text\<close>, \<open>Rust_Float\<close>: the string methods, comparisons and correctly rounded double arithmetic in use.
  \<^item> \<open>Point_Types\<close>, \<open>Error_Types\<close>: ids, scored points and errors (\<open>segment/src/types.rs\<close>, \<open>entry/entry_point.rs\<close>,
    \<open>collection/src/operations/types.rs\<close>, \<open>storage/src/content_manager/errors.rs\<close>).

  \<^bold>\<open>Segments.\<close>
  \<^item> \<open>Json_Payload\<close>: payloads and the path language (\<open>segment/src/common/utils.rs\<close>, \<open>types.rs\<close>). The lemmas say what a
    path reads, what a removal and a merge change, and when a type is inferred.
  \<^item> \<open>Filters\<close>: conditions and their evaluation (\<open>payload_storage/query_checker.rs\<close>, \<open>condition_checker.rs\<close>). The
    locale \<open>value_checker\<close> is the trait of the same name.
  \<^item> \<open>Key_Encoding\<close>: the keys of numeric indexes (\<open>index/key_encoding.rs\<close>); the encodings preserve the order of
    integers and floats and are decoded back.
  \<^item> \<open>Db_Column\<close>: the column wrapper (\<open>common/rocksdb_wrapper.rs\<close>) over RocksDB.
  \<^item> \<open>Id_Tracker\<close> (\<open>id_tracker/simple_id_tracker.rs\<close>): both directions of the mapping agree and the columns hold exactly
    the mapping and the versions in every reachable state (an inductive relation over the operations); opening the
    columns restores the tracker; iteration and counts.
  \<^item> \<open>Payload_Storage\<close> (\<open>payload_storage\<close>): the three storages and their enum implement one abstract map of payloads, the
    locale \<open>payload_storage\<close>, interpreted on each of them; reopening restores the contents.
  \<^item> \<open>Query_Estimator\<close> (\<open>index/query_estimator.rs\<close>): the bounds computed for a filter bracket the number of matches.
  \<^item> \<open>Query_Optimizer\<close> (\<open>index/query_optimization\<close>, \<open>index/visited_pool.rs\<close>): the filter rearranged by cardinality and
    answered from indexes decides what the payload check decides; a stream through a visited list is made unique.
  \<^item> \<open>Map_Index\<close> (\<open>index/field_index/map_index.rs\<close>, \<open>field_index_base.rs\<close>): the index of keywords and integers refines a
    function from points to values over every history, and reloads from its column. The locale \<open>value_indexer\<close> is the
    trait \<open>ValueIndexer\<close>, with its default method proved once.
  \<^item> \<open>Chunked_Vectors\<close>, \<open>Vector_Storage\<close> (\<open>vector_storage\<close>): inserting returns and reads back, files and columns are
    read back as written, copying into a mapped storage on every outcome, and the scorer returns the best points.
  \<^item> \<open>Top_Scores\<close> (\<open>spaces/tools.rs\<close>): the bounded queue selects the largest elements of a stream.

  \<^bold>\<open>Collections.\<close>
  \<^item> \<open>Search_Aggregator\<close>, \<open>Segments_Search\<close> (\<open>collection/src/collection_manager\<close>): the batched search over the segments
    of a shard, with reduced limits and repeated searches, returns the best points of all segments, each in its newest
    version. What a segment answers is a parameter.

  \<^bold>\<open>Cluster.\<close>
  \<^item> \<open>Shard_Distribution\<close> (\<open>storage/src/content_manager/shard_distribution.rs\<close>): the heap schedule is a round robin over
    the peers, so replicas are distinct and loads balanced.
  \<^item> \<open>Consensus_Wal\<close>, \<open>Consensus_State\<close>, \<open>Consensus_Manager\<close> (\<open>storage/src/content_manager/consensus\<close>,
    \<open>consensus_manager.rs\<close>): what the log holds after appending, the state file across restarts, that committed entries
    are applied once and in order until none is left, snapshots, and the storage contract of the Raft library.

  \<^bold>\<open>Bounds and loops.\<close> No model uses fuel. Recursion is structural or has a termination proof; the loop that adds
  chunks is a \<open>partial_function\<close>, and \<open>chunked_inserts_return\<close> shows that it returns. Bounds in hypotheses come from
  the types: offsets below \<open>2 ^ 32\<close>, fewer than \<open>2 ^ 53\<close> points so that a count is exact as a double, sums that fit
  64 bits.

  \<^bold>\<open>Not modelled.\<close> In \<open>segment\<close>: the segment itself and its constructors, the combination of field indexes
  (\<open>struct_payload_index.rs\<close>), the numeric, geo and full text indexes, the HNSW graph, SIMD distances and quantisation.
  In \<open>collection\<close>: proxy segments, the segment holder, optimizers, shards with their replica sets and transfers, and
  the update queue. In \<open>storage\<close>: the table of collections, aliases and snapshot recovery. Further the whole of \<open>api\<close>
  and of the binary. The first group are components with their own algorithms that have not been translated; the
  second and third are mostly asynchronous orchestration, whose interleavings the sequential model cannot express;
  the last is generated code and request handling.
\<close>

end
